(* ===== verification/Prelude.thy ===== *)
theory Prelude
  imports Main "HOL-Library.AList" "HOL-Library.List_Lexorder" "HOL-Library.Char_ord"
    "HOL-Library.Sublist" "HOL-Library.Product_Lexorder" "HOL-Library.Option_ord"
    "HOL-Library.Multiset"
begin

text \<open>
  What every component of the development shares: Rust's panics as a value, the saturating
  \<^verbatim>\<open>u64\<close> arithmetic the sources spell out, the two standard-library maps as association
  lists behind one interface, runs of a step function, and list lemmas about dense ascending
  sequences.

  Conventions.
  \<^item> A \<^verbatim>\<open>panic!\<close>, a failed \<^verbatim>\<open>assert!\<close> or a failed \<^verbatim>\<open>expect\<close> is the value \<open>Panic\<close> of
    type \<open>exec\<close>; \<open>Result<A, E>\<close> is \<open>'e + 'a\<close> with \<open>Inl\<close> the error; \<open>Option\<close> is \<open>option\<close>.
  \<^item> \<^verbatim>\<open>u64\<close> and \<^verbatim>\<open>usize\<close> values are \<open>nat\<close>. Where the source saturates, the ceiling is written
    out (\<open>u64_max\<close>); natural-number subtraction is \<^verbatim>\<open>saturating_sub\<close>. Counters that only ever
    step by one from their start value (sequence numbers, identifiers, correlations) are not
    given a ceiling: reaching it takes \<open>2^64\<close> steps.
  \<^item> A \<^verbatim>\<open>HashMap\<close> is an association list with distinct keys whose order stands for the map's
    unspecified iteration order; a \<^verbatim>\<open>BTreeMap\<close> is an association list sorted by key.
\<close>

named_theorems wf_intros \<open>each operation keeps its component's invariant\<close>

section \<open>Panics\<close>

datatype 'a exec = Ret 'a | Panic

primrec exec_bind :: "'a exec \<Rightarrow> ('a \<Rightarrow> 'b exec) \<Rightarrow> 'b exec" where
  "exec_bind (Ret x) f = f x"
| "exec_bind Panic f = Panic"

primrec exec_map :: "('a \<Rightarrow> 'b) \<Rightarrow> 'a exec \<Rightarrow> 'b exec" where
  "exec_map f (Ret x) = Ret (f x)"
| "exec_map f Panic = Panic"

primrec returns :: "'a exec \<Rightarrow> bool" where
  "returns (Ret x) = True"
| "returns Panic = False"

lemma returnsE [elim]:
  assumes "returns m"
  obtains x where "m = Ret x"
  using assms by (cases m) auto

lemma returns_iff: "returns m \<longleftrightarrow> (\<exists>x. m = Ret x)"
  by (cases m) auto

lemma exec_bind_Ret_iff: "exec_bind m f = Ret y \<longleftrightarrow> (\<exists>x. m = Ret x \<and> f x = Ret y)"
  by (cases m) auto

lemma exec_map_Ret_iff: "exec_map f m = Ret y \<longleftrightarrow> (\<exists>x. m = Ret x \<and> y = f x)"
  by (cases m) auto

lemma returns_exec_map [simp]: "returns (exec_map f m) = returns m"
  by (cases m) auto

text \<open>A fallible function over every element of a vector, in order.\<close>

fun exec_traverse :: "('a \<Rightarrow> 'b exec) \<Rightarrow> 'a list \<Rightarrow> 'b list exec" where
  "exec_traverse f [] = Ret []"
| "exec_traverse f (x # xs) = exec_bind (f x) (\<lambda>y. exec_map ((#) y) (exec_traverse f xs))"

lemma exec_traverse_Ret_iff: "exec_traverse f xs = Ret ys \<longleftrightarrow> list_all2 (\<lambda>x y. f x = Ret y) xs ys"
  by (induction f xs arbitrary: ys rule: exec_traverse.induct)
    (auto simp: exec_bind_Ret_iff exec_map_Ret_iff list_all2_Cons1)

lemma exec_traverse_pure: "(\<And>x. x \<in> set xs \<Longrightarrow> f x = Ret (g x)) \<Longrightarrow> exec_traverse f xs = Ret (map g xs)"
  by (simp add: exec_traverse_Ret_iff list_all2_map2 list_all2_same)

section \<open>Saturating unsigned arithmetic\<close>

definition u64_max :: nat where
  "u64_max = 2 ^ 64 - 1"

definition u32_max :: nat where
  "u32_max = 2 ^ 32 - 1"

definition sat_add64 :: "nat \<Rightarrow> nat \<Rightarrow> nat" where
  "sat_add64 a b = min (a + b) u64_max"

definition sat_mul64 :: "nat \<Rightarrow> nat \<Rightarrow> nat" where
  "sat_mul64 a b = min (a * b) u64_max"

lemma sat_add64_exact [simp]: "a + b \<le> u64_max \<Longrightarrow> sat_add64 a b = a + b"
  by (simp add: sat_add64_def)

lemma sat_add64_le: "sat_add64 a b \<le> a + b" and sat_add64_bound: "sat_add64 a b \<le> u64_max"
  by (simp_all add: sat_add64_def)

lemma sat_add64_mono: "a \<le> u64_max \<Longrightarrow> a \<le> sat_add64 a b"
  by (simp add: sat_add64_def)

lemma sat_mul64_le: "sat_mul64 a b \<le> a * b" and sat_mul64_bound: "sat_mul64 a b \<le> u64_max"
  by (simp_all add: sat_mul64_def)

section \<open>Maps\<close>

text \<open>
  A \<^verbatim>\<open>BTreeMap\<close> with its entries in key order: \<^verbatim>\<open>insert\<close> replaces or adds the entry at its
  place in that order.
\<close>

fun bt_insert :: "'k::linorder \<Rightarrow> 'v \<Rightarrow> ('k \<times> 'v) list \<Rightarrow> ('k \<times> 'v) list" where
  "bt_insert k v [] = [(k, v)]"
| "bt_insert k v ((k', v') # m) =
     (if k < k' then (k, v) # (k', v') # m
      else if k = k' then (k, v) # m
      else (k', v') # bt_insert k v m)"

definition bt_ok :: "('k::linorder \<times> 'v) list \<Rightarrow> bool" where
  "bt_ok m \<longleftrightarrow> sorted (map fst m) \<and> distinct (map fst m)"

definition hm_ok :: "('k \<times> 'v) list \<Rightarrow> bool" where
  "hm_ok m \<longleftrightarrow> distinct (map fst m)"

lemma bt_insert_lookup: "map_of (bt_insert k v m) = (map_of m)(k \<mapsto> v)"
  by (induction m rule: bt_insert.induct) auto

lemma bt_insert_keys: "set (map fst (bt_insert k v m)) = insert k (set (map fst m))"
  by (induction m rule: bt_insert.induct) auto

lemma bt_ok_insert: "bt_ok m \<Longrightarrow> bt_ok (bt_insert k v m)"
proof (induction k v m rule: bt_insert.induct)
  case (2 k v k' v' m)
  have keys: "set (map fst (bt_insert k v m)) = insert k (set (map fst m))"
    by (rule bt_insert_keys)
  from 2 show ?case
    by (auto simp: bt_ok_def keys simp flip: set_map)
qed (simp add: bt_ok_def)

lemma bt_ok_delete: "bt_ok m \<Longrightarrow> bt_ok (AList.delete k m)"
  by (induction m) (auto simp: bt_ok_def AList.delete_eq)

text \<open>The laws both maps give their clients, and what follows from them.\<close>

locale keyed_table =
  fixes get :: "'t \<Rightarrow> 'k \<Rightarrow> 'v option"
    and put :: "'k \<Rightarrow> 'v \<Rightarrow> 't \<Rightarrow> 't"
    and del :: "'k \<Rightarrow> 't \<Rightarrow> 't"
    and ok :: "'t \<Rightarrow> bool"
  assumes get_put: "get (put k v t) = (get t)(k \<mapsto> v)"
    and get_del: "ok t \<Longrightarrow> get (del k t) = (get t)(k := None)"
    and ok_put: "ok t \<Longrightarrow> ok (put k v t)"
    and ok_del: "ok t \<Longrightarrow> ok (del k t)"
begin

lemma get_put_same: "get (put k v t) k = Some v"
  by (simp add: get_put)

lemma get_put_other: "k' \<noteq> k \<Longrightarrow> get (put k v t) k' = get t k'"
  by (simp add: get_put)

lemma all_put:
  "(\<And>k' v'. get t k' = Some v' \<Longrightarrow> P k' v') \<Longrightarrow> P k v \<Longrightarrow> get (put k v t) k' = Some v' \<Longrightarrow> P k' v'"
  by (auto simp: get_put split: if_splits)

lemma all_del:
  "ok t \<Longrightarrow> (\<And>k' v'. get t k' = Some v' \<Longrightarrow> P k' v') \<Longrightarrow> get (del k t) k' = Some v' \<Longrightarrow> P k' v'"
  by (auto simp: get_del split: if_splits)

lemma dom_put: "dom (get (put k v t)) = insert k (dom (get t))"
  by (auto simp: get_put)

end

interpretation hm: keyed_table map_of AList.update AList.delete hm_ok
  by unfold_locales (auto simp: update_conv' delete_conv' hm_ok_def distinct_update distinct_delete)

interpretation bt: keyed_table map_of bt_insert AList.delete bt_ok
  by unfold_locales (auto simp: bt_insert_lookup delete_conv' bt_ok_insert bt_ok_delete)

section \<open>Runs of a step function\<close>

text \<open>
  A component driven by a sequence of inputs: each step returns the next state and an
  output, or panics; a run stops at the first panic.
\<close>

fun run :: "('s \<Rightarrow> 'i \<Rightarrow> ('s \<times> 'o) exec) \<Rightarrow> 's \<Rightarrow> 'i list \<Rightarrow> ('s \<times> 'o list) exec" where
  "run step s [] = Ret (s, [])"
| "run step s (i # is) =
     (case step s i of
        Panic \<Rightarrow> Panic
      | Ret (s', out) \<Rightarrow> exec_map (\<lambda>(t, outs). (t, out # outs)) (run step s' is))"

lemma run_ConsE:
  assumes "run step s (i # is) = Ret (t, outs)"
  obtains s' out outs' where "step s i = Ret (s', out)" "run step s' is = Ret (t, outs')" "outs = out # outs'"
  using assms by (auto split: exec.splits simp: exec_map_Ret_iff)

locale invariant_system =
  fixes step :: "'s \<Rightarrow> 'i \<Rightarrow> ('s \<times> 'o) exec"
    and inv :: "'s \<Rightarrow> bool"
  assumes step_inv: "inv s \<Longrightarrow> step s i = Ret (s', out) \<Longrightarrow> inv s'"
begin

lemma run_inv: "inv s \<Longrightarrow> run step s is = Ret (t, outs) \<Longrightarrow> inv t"
proof (induction "is" arbitrary: s outs)
  case (Cons i "is")
  from Cons.prems obtain s' out outs' where st: "step s i = Ret (s', out)"
    and rest: "run step s' is = Ret (t, outs')"
    by (auto split: exec.splits simp: exec_map_Ret_iff)
  from step_inv [OF Cons.prems(1) st] have "inv s'" .
  then show ?case using rest by (rule Cons.IH)
qed simp

end

text \<open>A system that never panics on the inputs its driver may legally feed it.\<close>

locale total_system = invariant_system step inv
  for step :: "'s \<Rightarrow> 'i \<Rightarrow> ('s \<times> 'o) exec" and inv :: "'s \<Rightarrow> bool" +
  assumes step_returns: "inv s \<Longrightarrow> returns (step s i)"
begin

lemma run_returns: "inv s \<Longrightarrow> returns (run step s is)"
proof (induction "is" arbitrary: s)
  case Nil
  then show ?case by simp
next
  case (Cons i "is")
  from step_returns [OF Cons.prems] obtain s' out where st: "step s i = Ret (s', out)"
    by (metis returnsE surj_pair)
  with Cons show ?case
    by (simp add: step_inv)
qed

end

text \<open>The same for a system whose driver owes it something: inputs are legal in the state they
  arrive in.\<close>

fun legal_run :: "('s \<Rightarrow> 'i \<Rightarrow> ('s \<times> 'o) exec) \<Rightarrow> ('s \<Rightarrow> 'i \<Rightarrow> bool) \<Rightarrow> 's \<Rightarrow> 'i list \<Rightarrow> bool" where
  "legal_run step legal s [] = True"
| "legal_run step legal s (i # is) =
     (legal s i \<and> (case step s i of Ret (s', _) \<Rightarrow> legal_run step legal s' is | Panic \<Rightarrow> True))"

locale contract_system =
  fixes step :: "'s \<Rightarrow> 'i \<Rightarrow> ('s \<times> 'o) exec"
    and inv :: "'s \<Rightarrow> bool"
    and legal :: "'s \<Rightarrow> 'i \<Rightarrow> bool"
  assumes legal_step: "inv s \<Longrightarrow> legal s i \<Longrightarrow> \<exists>s' out. step s i = Ret (s', out) \<and> inv s'"
begin

lemma legal_run_ok:
  "inv s \<Longrightarrow> legal_run step legal s is \<Longrightarrow> \<exists>t outs. run step s is = Ret (t, outs) \<and> inv t"
proof (induction "is" arbitrary: s)
  case (Cons i "is")
  from Cons.prems have "legal s i" by simp
  with legal_step [OF Cons.prems(1)] obtain s' out where st: "step s i = Ret (s', out)" "inv s'" by blast
  with Cons.prems(2) have "legal_run step legal s' is" by simp
  from Cons.IH [OF st(2) this] obtain t outs where "run step s' is = Ret (t, outs)" "inv t" by blast
  then show ?case using st by (simp add: exec_map_Ret_iff)
qed simp

end

sublocale total_system \<subseteq> contract_system step inv "\<lambda>_ _. True"
  using step_returns step_inv by unfold_locales (metis returnsE surj_pair)

text \<open>A component that simulates a simpler specification: related states answer every input alike, a
  panic with a panic, and stay related.\<close>

fun exec_rel :: "('a \<Rightarrow> 'b \<Rightarrow> bool) \<Rightarrow> 'a exec \<Rightarrow> 'b exec \<Rightarrow> bool" where
  "exec_rel R (Ret x) (Ret y) = R x y"
| "exec_rel R Panic Panic = True"
| "exec_rel R _ _ = False"

locale simulation =
  fixes step :: "'s \<Rightarrow> 'i \<Rightarrow> ('s \<times> 'o) exec"
    and spec :: "'a \<Rightarrow> 'i \<Rightarrow> ('a \<times> 'o) exec"
    and rel :: "'s \<Rightarrow> 'a \<Rightarrow> bool"
  assumes simulates: "rel s a \<Longrightarrow> exec_rel (\<lambda>(s', out) (a', out'). rel s' a' \<and> out = out') (step s i) (spec a i)"
begin

lemma run_simulates:
  "rel s a \<Longrightarrow> exec_rel (\<lambda>(s', outs) (a', outs'). rel s' a' \<and> outs = outs') (run step s is) (run spec a is)"
proof (induction "is" arbitrary: s a)
  case (Cons i "is")
  show ?case
  proof (cases "step s i")
    case Panic
    then show ?thesis
      using simulates [OF Cons.prems, of i] by (cases "spec a i") simp_all
  next
    case (Ret r)
    obtain s' out where r: "r = (s', out)" by (cases r)
    obtain a' where a: "spec a i = Ret (a', out)" "rel s' a'"
      using simulates [OF Cons.prems, of i] Ret r by (cases "spec a i") auto
    show ?thesis
      using Cons.IH [OF a(2)] a(1) Ret r
      by (cases "run step s' is"; cases "run spec a' is") auto
  qed
qed simp

lemma run_outputs: "rel s a \<Longrightarrow> exec_map snd (run step s is) = exec_map snd (run spec a is)"
  using run_simulates [of s a "is"] by (cases "run step s is"; cases "run spec a is") auto

end

section \<open>Positions in a list\<close>

text \<open>\<^verbatim>\<open>Iterator::position\<close>, \<^verbatim>\<open>Vec::remove\<close>, \<^verbatim>\<open>Vec::insert\<close> and \<^verbatim>\<open>slice::partition_point\<close> (on a slice
  the predicate partitions: the length of the prefix it holds on).\<close>

fun position :: "('a \<Rightarrow> bool) \<Rightarrow> 'a list \<Rightarrow> nat option" where
  "position P [] = None"
| "position P (x # xs) = (if P x then Some 0 else map_option Suc (position P xs))"

definition remove_at :: "nat \<Rightarrow> 'a list \<Rightarrow> 'a list" where
  "remove_at i xs = take i xs @ drop (Suc i) xs"

definition insert_at :: "nat \<Rightarrow> 'a \<Rightarrow> 'a list \<Rightarrow> 'a list" where
  "insert_at i x xs = take i xs @ x # drop i xs"

definition partition_point :: "('a \<Rightarrow> bool) \<Rightarrow> 'a list \<Rightarrow> nat" where
  "partition_point P xs = length (takeWhile P xs)"

lemma position_None: "position P xs = None \<longleftrightarrow> (\<forall>x\<in>set xs. \<not> P x)"
  by (induction xs) auto

lemma position_Some_split:
  "position P xs = Some i \<Longrightarrow>
     \<exists>ys x zs. xs = ys @ x # zs \<and> i = length ys \<and> P x \<and> (\<forall>y\<in>set ys. \<not> P y)"
proof (induction xs arbitrary: i)
  case (Cons a xs)
  show ?case
  proof (cases "P a")
    case True
    then show ?thesis using Cons.prems by force
  next
    case False
    then obtain j where "position P xs = Some j" "i = Suc j" using Cons.prems by auto
    with Cons.IH obtain ys x zs where "xs = ys @ x # zs" "j = length ys" "P x" "\<forall>y\<in>set ys. \<not> P y"
      by blast
    then show ?thesis using False \<open>i = Suc j\<close>
      by (intro exI [of _ "a # ys"] exI [of _ x] exI [of _ zs]) auto
  qed
qed simp

lemma insert_at_partition:
  "insert_at (partition_point P xs) x xs = takeWhile P xs @ x # dropWhile P xs"
  by (simp add: insert_at_def partition_point_def takeWhile_eq_take [symmetric] dropWhile_eq_drop [symmetric])

lemma remove_at_split: "remove_at (length ys) (ys @ x # zs) = ys @ zs"
  by (simp add: remove_at_def)

section \<open>Dense ascending sequences\<close>

lemma upt_suffix: "k \<le> n \<Longrightarrow> drop k [m..<m + n] = [m + k..<m + n]"
  by simp

lemma filter_upt_greater: "filter (\<lambda>x. s < x) [a..<b] = [max a (Suc s)..<b]"
  by (induction b) (auto simp: max_def not_less_eq_eq le_Suc_eq)

lemma drop_eq_filter_dense:
  assumes "map f xs = [a..<a + length xs]"
  shows "filter (\<lambda>x. s < f x) xs = drop (Suc s - a) xs"
  using assms
proof (induction xs arbitrary: a)
  case Nil
  then show ?case by simp
next
  case (Cons x xs)
  then have fx: "f x = a" and rest: "map f xs = [Suc a..<Suc a + length xs]"
    by (auto simp: upt_rec)
  from Cons.IH [OF rest] show ?case
    using fx rest
  proof (cases "s < a")
    case True
    have "\<forall>y\<in>set xs. s < f y"
    proof
      fix y assume "y \<in> set xs"
      then have "f y \<in> set [Suc a..<Suc a + length xs]"
        using rest by (metis image_eqI set_map)
      then show "s < f y" using True by auto
    qed
    then show ?thesis using True fx by (simp add: filter_id_conv)
  next
    case False
    then have "Suc s - a = Suc (Suc s - Suc a)" by simp
    then show ?thesis using False fx Cons.IH [OF rest] by simp
  qed
qed

lemma takeWhile_eq_filter_sorted:
  assumes "sorted (map f xs)" and "\<And>x y. f x \<le> f y \<Longrightarrow> P y \<Longrightarrow> P x"
  shows "takeWhile P xs = filter P xs"
  using assms
proof (induction xs)
  case (Cons x xs)
  show ?case
  proof (cases "P x")
    case True
    then show ?thesis using Cons by simp
  next
    case False
    then have "\<forall>y\<in>set xs. \<not> P y" using Cons.prems by auto
    then show ?thesis using False by (simp add: filter_empty_conv)
  qed
qed simp

lemma dropWhile_eq_filter_not:
  "takeWhile P xs = filter P xs \<Longrightarrow> dropWhile P xs = filter (\<lambda>x. \<not> P x) xs"
proof (induction xs)
  case (Cons x xs)
  show ?case
  proof (cases "P x")
    case True
    then show ?thesis using Cons by simp
  next
    case False
    then have "filter P xs = []" using Cons.prems by simp
    then show ?thesis using False by (simp add: filter_empty_conv)
  qed
qed simp

end
