(* ===== verification/Ring.thy ===== *)
theory Ring
  imports Prelude
begin

text \<open>
  The bounded drop-oldest retained ring of \<^verbatim>\<open>brenn-queue/src/ring.rs\<close>: its record, one
  definition per method, the invariant that its entries are a dense ascending run ending at
  the newest assigned sequence number, and what a replay owes a resuming subscriber.
\<close>

section \<open>Data\<close>

record 'm retained =
  r_seq :: nat
  r_message :: 'm

record 'e resume =
  rs_epoch :: 'e
  rs_seq :: nat

datatype gap_reason = EpochChanged | BeyondRetained | ResumeAhead

datatype replay_decision = Fresh | UpToDate | Exact | Gap gap_reason

record 'm replay =
  rp_messages :: "'m retained list"
  rp_decision :: replay_decision

record append_result =
  ap_seq :: nat
  ap_evicted :: nat

record ('m, 'e) retained_ring =
  rr_epoch :: 'e
  rr_depth :: nat
  rr_next_seq :: nat
  rr_entries :: "'m retained list"

section \<open>Operations\<close>

definition ring_new :: "'e \<Rightarrow> nat \<Rightarrow> ('m, 'e) retained_ring" where
  "ring_new ep d = \<lparr>rr_epoch = ep, rr_depth = d, rr_next_seq = 1, rr_entries = []\<rparr>"

text \<open>\<^verbatim>\<open>trim\<close>: the loop pops the oldest entry while the ring is over its depth.\<close>

fun trim_loop :: "nat \<Rightarrow> 'm retained list \<Rightarrow> nat \<Rightarrow> 'm retained list \<times> nat" where
  "trim_loop d [] evicted = ([], evicted)"
| "trim_loop d (e # es) evicted =
     (if length (e # es) > d then trim_loop d es (evicted + 1) else (e # es, evicted))"

definition ring_trim :: "('m, 'e) retained_ring \<Rightarrow> ('m, 'e) retained_ring \<times> nat" where
  "ring_trim r =
     (let (es, evicted) = trim_loop (rr_depth r) (rr_entries r) 0
      in (r\<lparr>rr_entries := es\<rparr>, evicted))"

definition ring_set_depth :: "nat \<Rightarrow> ('m, 'e) retained_ring \<Rightarrow> ('m, 'e) retained_ring" where
  "ring_set_depth d r = fst (ring_trim (r\<lparr>rr_depth := d\<rparr>))"

definition ring_len :: "('m, 'e) retained_ring \<Rightarrow> nat" where
  "ring_len r = length (rr_entries r)"

definition ring_is_empty :: "('m, 'e) retained_ring \<Rightarrow> bool" where
  "ring_is_empty r \<longleftrightarrow> rr_entries r = []"

definition ring_newest_seq :: "('m, 'e) retained_ring \<Rightarrow> nat" where
  "ring_newest_seq r = rr_next_seq r - 1"

definition ring_oldest_seq :: "('m, 'e) retained_ring \<Rightarrow> nat option" where
  "ring_oldest_seq r = (case rr_entries r of [] \<Rightarrow> None | e # _ \<Rightarrow> Some (r_seq e))"

definition ring_append :: "'m \<Rightarrow> ('m, 'e) retained_ring \<Rightarrow> ('m, 'e) retained_ring \<times> append_result" where
  "ring_append msg r =
     (let seq = rr_next_seq r;
          r1 = r\<lparr>rr_next_seq := rr_next_seq r + 1\<rparr>
      in if rr_depth r1 = 0 then (r1, \<lparr>ap_seq = seq, ap_evicted = 0\<rparr>)
         else let (r2, evicted) =
                    ring_trim (r1\<lparr>rr_entries := rr_entries r1 @ [\<lparr>r_seq = seq, r_message = msg\<rparr>]\<rparr>)
              in (r2, \<lparr>ap_seq = seq, ap_evicted = evicted\<rparr>))"

definition ring_tail :: "nat \<Rightarrow> ('m, 'e) retained_ring \<Rightarrow> 'm retained list" where
  "ring_tail n r =
     (let take = min n (length (rr_entries r))
      in drop (length (rr_entries r) - take) (rr_entries r))"

definition ring_offset_after :: "nat \<Rightarrow> ('m, 'e) retained_ring \<Rightarrow> nat" where
  "ring_offset_after seq r =
     (case rr_entries r of
        [] \<Rightarrow> 0
      | front # _ \<Rightarrow> min (sat_add64 seq 1 - r_seq front) (length (rr_entries r)))"

definition ring_since :: "nat \<Rightarrow> ('m, 'e) retained_ring \<Rightarrow> 'm retained list" where
  "ring_since seq r = drop (ring_offset_after seq r) (rr_entries r)"

definition ring_primed_from :: "nat \<Rightarrow> ('m, 'e) retained_ring \<Rightarrow> nat" where
  "ring_primed_from d r =
     (case ring_tail d r of first # _ \<Rightarrow> r_seq first - 1 | [] \<Rightarrow> ring_newest_seq r)"

definition ring_replay :: "'e resume option \<Rightarrow> ('m, 'e) retained_ring \<Rightarrow> 'm replay" where
  "ring_replay resume r =
     (let whole = rr_entries r
      in case resume of
           None \<Rightarrow> \<lparr>rp_messages = whole, rp_decision = Fresh\<rparr>
         | Some rs \<Rightarrow>
             if rs_epoch rs \<noteq> rr_epoch r
             then \<lparr>rp_messages = whole, rp_decision = Gap EpochChanged\<rparr>
             else let newest = ring_newest_seq r
                  in if rs_seq rs > newest
                     then \<lparr>rp_messages = whole, rp_decision = Gap ResumeAhead\<rparr>
                     else if rs_seq rs = newest
                     then \<lparr>rp_messages = [], rp_decision = UpToDate\<rparr>
                     else case rr_entries r of
                            [] \<Rightarrow> \<lparr>rp_messages = whole, rp_decision = Gap BeyondRetained\<rparr>
                          | oldest # _ \<Rightarrow>
                              if r_seq oldest \<le> rs_seq rs + 1
                              then \<lparr>rp_messages = ring_since (rs_seq rs) r, rp_decision = Exact\<rparr>
                              else \<lparr>rp_messages = whole, rp_decision = Gap BeyondRetained\<rparr>)"

section \<open>The invariant\<close>

text \<open>The sequence numbers the ring still holds, oldest first.\<close>

definition ring_seqs :: "('m, 'e) retained_ring \<Rightarrow> nat list" where
  "ring_seqs r = map r_seq (rr_entries r)"

definition ring_wf :: "('m, 'e) retained_ring \<Rightarrow> bool" where
  "ring_wf r \<longleftrightarrow>
     length (rr_entries r) < rr_next_seq r \<and>
     length (rr_entries r) \<le> rr_depth r \<and>
     ring_seqs r = [rr_next_seq r - length (rr_entries r)..<rr_next_seq r]"

lemma trim_loop_eq:
  "trim_loop d es n = (drop (length es - d) es, n + (length es - d))"
  by (induction d es n rule: trim_loop.induct) (auto simp: Suc_diff_le)

lemma ring_trim_eq:
  "ring_trim r = (r\<lparr>rr_entries := drop (length (rr_entries r) - rr_depth r) (rr_entries r)\<rparr>,
     length (rr_entries r) - rr_depth r)"
  by (simp add: ring_trim_def trim_loop_eq)

lemma ring_wf_nextD [dest]: "ring_wf r \<Longrightarrow> 0 < rr_next_seq r"
  by (auto simp: ring_wf_def)

lemma ring_seqs_length [simp]: "length (ring_seqs r) = length (rr_entries r)"
  by (simp add: ring_seqs_def)

lemma ring_seqs_empty_iff [simp]: "ring_seqs r = [] \<longleftrightarrow> rr_entries r = []"
  by (simp add: ring_seqs_def)

lemma ring_entry_seq:
  assumes "ring_wf r" and "i < length (rr_entries r)"
  shows "r_seq (rr_entries r ! i) = rr_next_seq r - length (rr_entries r) + i"
proof -
  have "ring_seqs r ! i = [rr_next_seq r - length (rr_entries r)..<rr_next_seq r] ! i"
    using assms(1) by (simp add: ring_wf_def)
  then show ?thesis using assms by (auto simp: ring_seqs_def ring_wf_def)
qed

lemma ring_oldest_seq_eq:
  assumes "ring_wf r"
  shows "ring_oldest_seq r =
    (if rr_entries r = [] then None else Some (rr_next_seq r - length (rr_entries r)))"
  using ring_entry_seq [OF assms, of 0]
  by (cases "rr_entries r") (auto simp: ring_oldest_seq_def)

lemma ring_new_wf [wf_intros]: "ring_wf (ring_new ep d)"
  by (simp add: ring_wf_def ring_new_def ring_seqs_def)

lemma ring_set_depth_wf [wf_intros]:
  assumes "ring_wf r"
  shows "ring_wf (ring_set_depth d r)"
  using assms unfolding ring_wf_def ring_set_depth_def ring_trim_eq ring_seqs_def
  by (auto simp: drop_map [symmetric])

lemma ring_append_wf [wf_intros]:
  assumes "ring_wf r"
  shows "ring_wf (fst (ring_append msg r))"
proof (cases "rr_depth r = 0")
  case True
  then show ?thesis
    using assms by (auto simp: ring_append_def ring_wf_def ring_seqs_def)
next
  case False
  let ?n = "rr_next_seq r" and ?k = "length (rr_entries r)"
  have len: "?k < ?n" "?k \<le> rr_depth r" and seqs: "map r_seq (rr_entries r) = [?n - ?k..<?n]"
    using assms by (auto simp: ring_wf_def ring_seqs_def)
  have "map r_seq (rr_entries r @ [\<lparr>r_seq = ?n, r_message = msg\<rparr>]) = [?n - ?k..<Suc ?n]"
    using seqs by simp
  then have "drop (Suc ?k - rr_depth r)
      (map r_seq (rr_entries r @ [\<lparr>r_seq = ?n, r_message = msg\<rparr>]))
      = [?n - ?k + (Suc ?k - rr_depth r)..<Suc ?n]"
    by (simp only: drop_upt)
  moreover have "Suc ?n - (Suc ?k - (Suc ?k - rr_depth r)) = ?n - ?k + (Suc ?k - rr_depth r)"
    using False len by simp
  ultimately show ?thesis
    using False len
    by (auto simp: ring_append_def ring_trim_eq ring_wf_def ring_seqs_def Let_def
        drop_map simp del: map_append upt_Suc)
qed

lemma ring_append_next_seq [simp]: "rr_next_seq (fst (ring_append msg r)) = Suc (rr_next_seq r)"
  by (simp add: ring_append_def ring_trim_eq Let_def)

lemma ring_append_seq [simp]: "ap_seq (snd (ring_append msg r)) = rr_next_seq r"
  by (simp add: ring_append_def ring_trim_eq Let_def)

lemma ring_append_depth [simp]: "rr_depth (fst (ring_append msg r)) = rr_depth r"
  and ring_append_epoch [simp]: "rr_epoch (fst (ring_append msg r)) = rr_epoch r"
  by (simp_all add: ring_append_def ring_trim_eq Let_def)

lemma ring_append_entries:
  "rr_entries (fst (ring_append msg r)) =
     drop (Suc (length (rr_entries r)) - rr_depth r)
       (rr_entries r @ [\<lparr>r_seq = rr_next_seq r, r_message = msg\<rparr>])" if "ring_wf r"
  using that by (auto simp: ring_append_def ring_trim_eq Let_def ring_wf_def)

lemma ring_append_evicted:
  "ring_wf r \<Longrightarrow> ap_evicted (snd (ring_append msg r)) =
     (if rr_depth r = 0 then 0 else Suc (length (rr_entries r)) - rr_depth r)"
  by (simp add: ring_append_def ring_trim_eq Let_def)

lemma ring_set_depth_next_seq [simp]: "rr_next_seq (ring_set_depth d r) = rr_next_seq r"
  and ring_set_depth_depth [simp]: "rr_depth (ring_set_depth d r) = d"
  and ring_set_depth_epoch [simp]: "rr_epoch (ring_set_depth d r) = rr_epoch r"
  and ring_set_depth_entries:
    "rr_entries (ring_set_depth d r) = drop (length (rr_entries r) - d) (rr_entries r)"
  by (simp_all add: ring_set_depth_def ring_trim_eq)

section \<open>Reads\<close>

lemma ring_tail_eq: "ring_tail n r = drop (length (rr_entries r) - n) (rr_entries r)"
  by (auto simp: ring_tail_def Let_def min_def)

lemma ring_tail_seqs:
  assumes "ring_wf r"
  shows "map r_seq (ring_tail n r) = [rr_next_seq r - min n (length (rr_entries r))..<rr_next_seq r]"
  using assms by (auto simp: ring_tail_eq ring_wf_def ring_seqs_def min_def drop_map [symmetric])

text \<open>
  The arithmetic starting point of \<^verbatim>\<open>since\<close> is the scan it replaces: the entries above the
  given sequence number.
\<close>

lemma ring_since_eq_filter:
  assumes wf: "ring_wf r" and width: "rr_next_seq r \<le> u64_max"
  shows "ring_since seq r = filter (\<lambda>e. seq < r_seq e) (rr_entries r)"
proof (cases "rr_entries r")
  case Nil
  then show ?thesis by (simp add: ring_since_def)
next
  case (Cons front es)
  let ?k = "length (rr_entries r)"
  define a where "a = rr_next_seq r - ?k"
  have k: "0 < ?k" "?k < rr_next_seq r" using wf Cons by (auto simp: ring_wf_def)
  have front: "r_seq front = a"
    using ring_entry_seq [OF wf, of 0] Cons by (simp add: a_def)
  have dense: "map r_seq (rr_entries r) = [a..<a + ?k]"
    using wf k by (simp add: ring_wf_def ring_seqs_def a_def)
  have "drop (min (sat_add64 seq 1 - a) ?k) (rr_entries r) = drop (Suc seq - a) (rr_entries r)"
  proof (cases "seq < u64_max")
    case True
    then show ?thesis by (auto simp: min_def)
  next
    case False
    then have "?k \<le> sat_add64 seq 1 - a" "?k \<le> Suc seq - a"
      using width k by (auto simp: sat_add64_def a_def min_def)
    then show ?thesis by simp
  qed
  then show ?thesis
    using drop_eq_filter_dense [OF dense, of seq] Cons front
    by (simp add: ring_since_def ring_offset_after_def)
qed

lemma ring_primed_from_eq:
  assumes "ring_wf r"
  shows "ring_primed_from d r = ring_newest_seq r - min d (length (rr_entries r))"
proof (cases "ring_tail d r")
  case Nil
  then have "min d (length (rr_entries r)) = 0"
    by (auto simp: ring_tail_eq min_def)
  then show ?thesis using Nil by (simp add: ring_primed_from_def)
next
  case (Cons first rest)
  have "map r_seq (ring_tail d r) = [rr_next_seq r - min d (length (rr_entries r))..<rr_next_seq r]"
    by (rule ring_tail_seqs [OF assms])
  then have "r_seq first = rr_next_seq r - min d (length (rr_entries r))"
    using Cons by (metis list.simps(9) list.sel(1) upt_rec list.distinct(1))
  then show ?thesis using Cons by (simp add: ring_primed_from_def ring_newest_seq_def)
qed

section \<open>Histories\<close>

text \<open>
  The abstract specification of a channel's retention: the list of everything ever published
  on it, numbered from one. \<open>history_entry\<close> is message number \<open>i\<close> of the history.
\<close>

definition numbered :: "'m list \<Rightarrow> 'm retained list" where
  "numbered h = map (\<lambda>(i, m). \<lparr>r_seq = Suc i, r_message = m\<rparr>) (enumerate 0 h)"

lemma numbered_length [simp]: "length (numbered h) = length h"
  by (simp add: numbered_def)

lemma numbered_nth: "i < length h \<Longrightarrow> numbered h ! i = \<lparr>r_seq = Suc i, r_message = h ! i\<rparr>"
  by (simp add: numbered_def nth_enumerate_eq)

lemma numbered_snoc:
  "numbered (h @ [m]) = numbered h @ [\<lparr>r_seq = Suc (length h), r_message = m\<rparr>]"
  by (simp add: numbered_def enumerate_append_eq)

lemma numbered_seqs: "map r_seq (numbered h) = [1..<Suc (length h)]"
  by (rule nth_equalityI) (auto simp: numbered_nth simp del: upt_Suc)

lemma numbered_messages: "map r_message (numbered h) = h"
  by (rule nth_equalityI) (auto simp: numbered_nth)

lemma numbered_above: "filter (\<lambda>e. m < r_seq e) (numbered h) = drop m (numbered h)"
proof (induction h rule: rev_induct)
  case Nil
  then show ?case by (simp add: numbered_def)
next
  case (snoc x h)
  then show ?case by (simp add: numbered_snoc)
qed

text \<open>A ring stands for a history when it holds a suffix of it and numbers on from its end.\<close>

definition ring_of_history :: "'m list \<Rightarrow> ('m, 'e) retained_ring \<Rightarrow> bool" where
  "ring_of_history h r \<longleftrightarrow>
     rr_next_seq r = Suc (length h) \<and>
     length (rr_entries r) \<le> min (rr_depth r) (length h) \<and>
     rr_entries r = drop (length h - length (rr_entries r)) (numbered h)"

lemma ring_of_history_next: "ring_of_history h r \<Longrightarrow> rr_next_seq r = Suc (length h)"
  and ring_of_history_newest: "ring_of_history h r \<Longrightarrow> ring_newest_seq r = length h"
  and ring_of_history_length: "ring_of_history h r \<Longrightarrow> length (rr_entries r) \<le> length h"
  unfolding ring_of_history_def ring_newest_seq_def by simp_all

lemma ring_of_history_entries:
  "ring_of_history h r \<Longrightarrow> length (rr_entries r) = k \<Longrightarrow> rr_entries r = drop (length h - k) (numbered h)"
  unfolding ring_of_history_def by simp

lemma ring_of_history_new: "ring_of_history [] (ring_new ep d)"
  by (simp add: ring_of_history_def ring_new_def numbered_def)

lemma ring_of_history_wf: "ring_of_history h r \<Longrightarrow> ring_wf r"
proof -
  assume a: "ring_of_history h r"
  let ?k = "length (rr_entries r)"
  have "ring_seqs r = drop (length h - ?k) (map r_seq (numbered h))"
    using a by (metis ring_of_history_def ring_seqs_def drop_map)
  then show ?thesis
    using a by (auto simp: ring_wf_def ring_of_history_def numbered_seqs Suc_diff_le simp del: upt_Suc)
qed

lemma ring_of_history_append:
  assumes h: "ring_of_history h r"
  shows "ring_of_history (h @ [m]) (fst (ring_append m r))"
proof -
  let ?k = "length (rr_entries r)" and ?d = "Suc (length (rr_entries r)) - rr_depth r"
  have k: "?k \<le> rr_depth r" "?k \<le> length h"
    and e: "rr_entries r = drop (length h - ?k) (numbered h)"
    and n: "rr_next_seq r = Suc (length h)"
    using h by (auto simp: ring_of_history_def)
  have new: "rr_entries (fst (ring_append m r)) =
      drop ?d (rr_entries r @ [\<lparr>r_seq = Suc (length h), r_message = m\<rparr>])"
    using ring_append_entries [OF ring_of_history_wf [OF h]] n by simp
  have whole: "rr_entries r @ [\<lparr>r_seq = Suc (length h), r_message = m\<rparr>] =
      drop (length h - ?k) (numbered (h @ [m]))"
    using e k by (simp add: numbered_snoc)
  then have "rr_entries (fst (ring_append m r)) =
      drop (?d + (length h - ?k)) (numbered (h @ [m]))"
    using new by simp
  moreover have "length (h @ [m]) - length (rr_entries (fst (ring_append m r)))
      = ?d + (length h - ?k)"
    using new k by simp
  ultimately show ?thesis
    using n k new by (auto simp: ring_of_history_def)
qed

lemma ring_of_history_set_depth:
  "ring_of_history h r \<Longrightarrow> ring_of_history h (ring_set_depth d r)"
proof -
  assume h: "ring_of_history h r"
  then have "drop (length (rr_entries r) - d) (rr_entries r) =
      drop (length (rr_entries r) - d + (length h - length (rr_entries r))) (numbered h)"
    by (metis ring_of_history_def drop_drop)
  then show ?thesis
    using h by (auto simp: ring_of_history_def ring_set_depth_entries add.commute)
qed

section \<open>Properties\<close>

text \<open>The ring under any sequence of its mutating methods.\<close>

datatype 'm ring_op = RAppend 'm | RSetDepth nat

fun ring_step :: "('m, 'e) retained_ring \<Rightarrow> 'm ring_op \<Rightarrow> ('m, 'e) retained_ring" where
  "ring_step r (RAppend m) = fst (ring_append m r)"
| "ring_step r (RSetDepth d) = ring_set_depth d r"

fun appended :: "'m ring_op list \<Rightarrow> 'm list" where
  "appended [] = []"
| "appended (RAppend m # ops) = m # appended ops"
| "appended (RSetDepth d # ops) = appended ops"

lemma ring_of_history_run:
  "ring_of_history h r \<Longrightarrow> ring_of_history (h @ appended ops) (foldl ring_step r ops)"
proof (induction ops arbitrary: h r rule: appended.induct)
  case (2 m ops)
  then show ?case using ring_of_history_append [OF 2(2), of m] by fastforce
next
  case (3 d ops)
  then show ?case using ring_of_history_set_depth [OF 3(2)] by simp
qed simp

text \<open>
  C14: Retention refines the channel's history. After any sequence of appends and depth
  retunings the ring holds a suffix of everything ever published, numbered densely from one,
  never more than its current depth, and the next number follows the last one assigned.
\<close>

theorem ring_refines_history:
  "ring_of_history (appended ops) (foldl ring_step (ring_new ep d) ops)"
  using ring_of_history_run [OF ring_of_history_new, of ops ep d] by simp

lemma ring_append_exact:
  assumes "ring_of_history h r" and "length (rr_entries r) = min (rr_depth r) (length h)"
  shows "length (rr_entries (fst (ring_append m r))) = min (rr_depth r) (length (h @ [m]))"
  using assms ring_append_entries [OF ring_of_history_wf [OF assms(1)], of m]
  by (auto simp: ring_of_history_def min_def)

text \<open>
  Drop-oldest keeps exactly the newest messages. A ring whose depth is never retuned
  retains, after any publishes, precisely the last \<open>depth\<close> messages of the history, each with
  its original number.
\<close>

lemma ring_keeps_newest:
  "rr_entries (foldl (\<lambda>r m. fst (ring_append m r)) (ring_new ep d) h) =
     drop (length h - d) (numbered h)"
proof -
  let ?r = "\<lambda>h. foldl (\<lambda>r m. fst (ring_append m r)) (ring_new ep d) h"
  have "ring_of_history h (?r h) \<and> rr_depth (?r h) = d
      \<and> length (rr_entries (?r h)) = min d (length h)"
  proof (induction h rule: rev_induct)
    case Nil
    have "ring_of_history [] (ring_new ep d)" by (rule ring_of_history_new)
    then show ?case by (simp add: ring_new_def)
  next
    case (snoc m h)
    then show ?case
      using ring_of_history_append [of h "?r h" m] ring_append_exact [of h "?r h" m] by simp
  qed
  then have "rr_entries (?r h) = drop (length h - min d (length h)) (numbered h)"
    by (blast intro: ring_of_history_entries)
  moreover have "length h - min d (length h) = length h - d" by simp
  ultimately show ?thesis by simp
qed

lemma ring_since_history:
  assumes h: "ring_of_history h r" and width: "length h < u64_max"
    and retained: "length h - length (rr_entries r) \<le> seq"
  shows "ring_since seq r = drop seq (numbered h)"
proof -
  define g where "g = length h - length (rr_entries r)"
  have e: "rr_entries r = drop g (numbered h)" and nx: "rr_next_seq r = Suc (length h)"
    and k': "length (rr_entries r) \<le> length h"
    using h unfolding ring_of_history_def g_def by simp_all
  have k: "length (rr_entries r) = length h - g" "g \<le> length h"
    using k' unfolding g_def by simp_all
  have "map r_seq (rr_entries r) = drop g [1..<Suc (length h)]"
    by (metis e drop_map numbered_seqs)
  then have "map r_seq (rr_entries r) = [Suc g..<Suc g + length (rr_entries r)]"
    using k by (simp del: upt_Suc)
  from drop_eq_filter_dense [OF this, of seq]
  have "ring_since seq r = drop (seq - g) (rr_entries r)"
    using ring_since_eq_filter [OF ring_of_history_wf [OF h], of seq] width nx by simp
  also have "\<dots> = drop seq (numbered h)"
    using retained [folded g_def] by (simp add: e)
  finally show ?thesis .
qed

text \<open>
  C24: A resume is answered honestly. For a subscriber presenting a position this epoch
  assigned, the replay reports \<open>BeyondRetained\<close> exactly when a message after that position is
  gone, and otherwise returns every message published after it, none missing, none repeated.
\<close>

theorem ring_replay_honest:
  assumes "ring_of_history h r" and "length h < u64_max"
    and "rs_epoch rs = rr_epoch r" and "rs_seq rs \<le> length h"
  shows "if rs_seq rs < length h - length (rr_entries r)
         then rp_decision (ring_replay (Some rs) r) = Gap BeyondRetained \<and>
              rp_messages (ring_replay (Some rs) r) = rr_entries r
         else rp_decision (ring_replay (Some rs) r) =
                (if rs_seq rs = length h then UpToDate else Exact) \<and>
              rp_messages (ring_replay (Some rs) r) = drop (rs_seq rs) (numbered h)"
proof -
  let ?k = "length (rr_entries r)"
  have n: "ring_newest_seq r = length h" and k: "?k \<le> length h"
    using assms(1) by (rule ring_of_history_newest, rule ring_of_history_length)
  show ?thesis
  proof (cases "rr_entries r")
    case Nil
    then show ?thesis using assms(3,4) n by (simp add: ring_replay_def numbered_def)
  next
    case (Cons e es)
    have "r_seq e = Suc (length h) - ?k"
      using ring_entry_seq [OF ring_of_history_wf [OF assms(1)], of 0] Cons
        ring_of_history_next [OF assms(1)] by simp
    then have old: "r_seq e \<le> Suc (rs_seq rs) \<longleftrightarrow> length h - ?k \<le> rs_seq rs"
      using k by auto
    show ?thesis
      using assms(3,4) n old ring_since_history [OF assms(1,2), of "rs_seq rs"]
      by (simp add: ring_replay_def Cons not_less)
  qed
qed

theorem ring_replay_honest_witness:
  "rp_messages (ring_replay (Some \<lparr>rs_epoch = (7::nat), rs_seq = 2\<rparr>)
     (foldl ring_step (ring_new 7 3) (map RAppend ''abcd''))) =
   drop 2 (numbered ''abcd'')"
proof -
  let ?r = "foldl ring_step (ring_new (7::nat) 3) (map RAppend ''abcd'')"
  have h: "ring_of_history ''abcd'' ?r"
    by (simp add: ring_new_def ring_append_def ring_trim_def ring_of_history_def numbered_def)
  have w: "length ''abcd'' < u64_max" by (simp add: u64_max_def)
  have ep: "rr_epoch ?r = 7" "length (rr_entries ?r) = 3"
    by (simp_all add: ring_new_def ring_append_def ring_trim_def)
  show ?thesis
    using ring_replay_honest [OF h w, of "\<lparr>rs_epoch = 7, rs_seq = 2\<rparr>"] ep by simp
qed

text \<open>
  The arithmetic start of \<^verbatim>\<open>since\<close> is exact: skipping by subtraction visits precisely the
  retained entries above the given number, including for a claimed number at the top of the
  64-bit range.
\<close>

lemma ring_since_is_scan:
  "ring_wf r \<Longrightarrow> rr_next_seq r \<le> u64_max \<Longrightarrow>
     ring_since seq r = filter (\<lambda>e. seq < r_seq e) (rr_entries r)"
  by (rule ring_since_eq_filter)

lemma ring_since_is_scan_example:
  "ring_since 1 \<lparr>rr_epoch = (), rr_depth = 2, rr_next_seq = 3,
      rr_entries = [\<lparr>r_seq = 1, r_message = CHR ''a''\<rparr>, \<lparr>r_seq = 2, r_message = CHR ''b''\<rparr>]\<rparr>
   = [\<lparr>r_seq = 2, r_message = CHR ''b''\<rparr>]"
proof -
  let ?r = "\<lparr>rr_epoch = (), rr_depth = 2, rr_next_seq = 3,
      rr_entries = [\<lparr>r_seq = 1, r_message = CHR ''a''\<rparr>, \<lparr>r_seq = 2, r_message = CHR ''b''\<rparr>]\<rparr>"
  have "ring_wf ?r" by code_simp
  moreover have "rr_next_seq ?r \<le> u64_max" by (simp add: u64_max_def)
  ultimately show ?thesis using ring_since_is_scan [of ?r 1] by simp
qed

end
