(* ===== verification/Cursor.thy ===== *)
theory Cursor
  imports Ring
begin

text \<open>
  The per-subscriber cursor of \<^verbatim>\<open>brenn-queue/src/cursor.rs\<close>: a position on a shared ring, the
  activation window cut from it, and the accounting of what an advance stepped over. What a
  cursor relies on in a ring is stated as the interface \<open>retained_log\<close>, which the ring
  provides.
\<close>

section \<open>Data and operations\<close>

record 'm window =
  w_entries :: "'m retained list"
  w_new_from :: nat
  w_push_enabled :: bool

record advance =
  adv_dropped :: nat
  adv_noise_charge :: nat

record subscriber_cursor =
  sc_next_owed :: nat
  sc_push_depth :: nat

definition window_advance_span :: "'m window \<Rightarrow> (nat \<times> nat) option" where
  "window_advance_span w =
     (if \<not> w_push_enabled w then None
      else case w_entries w of
             [] \<Rightarrow> None
           | e # es \<Rightarrow> Some (r_seq (last (e # es)), r_seq e))"

definition window_new_len :: "'m window \<Rightarrow> nat" where
  "window_new_len w = length (w_entries w) - w_new_from w"

definition window_new_entries :: "'m window \<Rightarrow> 'm retained list" where
  "window_new_entries w = drop (w_new_from w) (w_entries w)"

definition retention_frontier :: "('m, 'e) retained_ring \<Rightarrow> nat" where
  "retention_frontier r =
     (case ring_oldest_seq r of Some s \<Rightarrow> s | None \<Rightarrow> ring_newest_seq r + 1)"

definition cursor_new :: "nat \<Rightarrow> nat \<Rightarrow> subscriber_cursor" where
  "cursor_new last_seen push_depth = \<lparr>sc_next_owed = last_seen + 1, sc_push_depth = push_depth\<rparr>"

definition cursor_primed :: "('m, 'e) retained_ring \<Rightarrow> nat \<Rightarrow> subscriber_cursor" where
  "cursor_primed r push_depth = cursor_new (ring_primed_from push_depth r) push_depth"

definition cursor_primed_at_least :: "('m, 'e) retained_ring \<Rightarrow> nat \<Rightarrow> nat \<Rightarrow> subscriber_cursor" where
  "cursor_primed_at_least r push_depth floor_next_owed =
     (let cursor = cursor_primed r push_depth
      in cursor\<lparr>sc_next_owed := max (sc_next_owed cursor) floor_next_owed\<rparr>)"

definition cursor_set_push_depth :: "nat \<Rightarrow> subscriber_cursor \<Rightarrow> subscriber_cursor" where
  "cursor_set_push_depth d c = c\<lparr>sc_push_depth := d\<rparr>"

definition cursor_is_push_enabled :: "subscriber_cursor \<Rightarrow> bool" where
  "cursor_is_push_enabled c \<longleftrightarrow> sc_push_depth c > 0"

definition cursor_has_deliverable :: "subscriber_cursor \<Rightarrow> ('m, 'e) retained_ring \<Rightarrow> bool" where
  "cursor_has_deliverable c r \<longleftrightarrow>
     cursor_is_push_enabled c \<and> \<not> ring_is_empty r \<and> ring_newest_seq r \<ge> sc_next_owed c"

definition cursor_evicted_since :: "subscriber_cursor \<Rightarrow> ('m, 'e) retained_ring \<Rightarrow> nat \<Rightarrow> nat" where
  "cursor_evicted_since c r old_frontier =
     (if \<not> cursor_is_push_enabled c then 0
      else retention_frontier r - max (sc_next_owed c) old_frontier)"

text \<open>\<^verbatim>\<open>new_boundary\<close> walks the window's numbers once, counting entries and unseen ones.\<close>

fun count_unseen :: "nat list \<Rightarrow> nat \<Rightarrow> nat \<Rightarrow> nat \<Rightarrow> nat \<times> nat" where
  "count_unseen [] next_owed len unseen = (len, unseen)"
| "count_unseen (s # seqs) next_owed len unseen =
     count_unseen seqs next_owed (len + 1) (if s \<ge> next_owed then unseen + 1 else unseen)"

definition new_boundary :: "nat list \<Rightarrow> nat \<Rightarrow> nat \<Rightarrow> nat" where
  "new_boundary seqs next_owed push_limit =
     (let (len, unseen) = count_unseen seqs next_owed 0 0 in len - min unseen push_limit)"

definition cursor_window ::
  "subscriber_cursor \<Rightarrow> ('m, 'e) retained_ring \<Rightarrow> nat \<Rightarrow> nat \<Rightarrow> 'm window" where
  "cursor_window c r push_limit retain_limit =
     (let entries = ring_tail (max push_limit retain_limit) r
      in \<lparr>w_entries = entries,
          w_new_from = new_boundary (map r_seq entries) (sc_next_owed c) push_limit,
          w_push_enabled = (push_limit > 0)\<rparr>)"

definition cursor_advance ::
  "subscriber_cursor \<Rightarrow> ('m, 'e) retained_ring \<Rightarrow> nat \<Rightarrow> nat \<Rightarrow> (subscriber_cursor \<times> advance) exec" where
  "cursor_advance c r through seen_floor =
     (if \<not> cursor_is_push_enabled c then Panic
      else if \<not> (seen_floor \<le> sat_add64 through 1) then Panic
      else let adv = \<lparr>adv_dropped = seen_floor - sc_next_owed c,
                      adv_noise_charge = seen_floor - max (sc_next_owed c) (retention_frontier r)\<rparr>
           in Ret (if through \<ge> sc_next_owed c then c\<lparr>sc_next_owed := through + 1\<rparr> else c, adv))"

definition gap_suffix :: "'m retained list \<Rightarrow> nat \<Rightarrow> 'm retained list \<times> nat" where
  "gap_suffix w resume_seq =
     (let suffix = filter (\<lambda>e. r_seq e > resume_seq) w
      in (suffix, case suffix of [] \<Rightarrow> 0 | e # _ \<Rightarrow> r_seq e - resume_seq - 1))"

section \<open>What a cursor relies on in a retained log\<close>

locale retained_log =
  fixes seqs :: "'r \<Rightarrow> nat list"
    and newest :: "'r \<Rightarrow> nat"
    and front :: "'r \<Rightarrow> nat"
    and ok :: "'r \<Rightarrow> bool"
  assumes dense: "ok r \<Longrightarrow> seqs r = [front r..<Suc (newest r)]"
    and front_le: "ok r \<Longrightarrow> front r \<le> Suc (newest r)"
    and front_pos: "ok r \<Longrightarrow> 0 < front r"
begin

lemma holds_iff: "ok r \<Longrightarrow> s \<in> set (seqs r) \<longleftrightarrow> front r \<le> s \<and> s \<le> newest r"
  using dense [of r] by auto

lemma length_seqs: "ok r \<Longrightarrow> length (seqs r) = Suc (newest r) - front r"
  using dense [of r] by (simp del: upt_Suc)

text \<open>The newest number alone answers whether anything at or above a position is held.\<close>

lemma newest_answers:
  "ok r \<Longrightarrow> (seqs r \<noteq> [] \<and> n \<le> newest r) \<longleftrightarrow> (\<exists>s\<in>set (seqs r). n \<le> s)"
proof -
  assume r: "ok r"
  have ne: "seqs r \<noteq> [] \<longleftrightarrow> front r \<le> newest r"
    using dense [OF r] by simp
  show ?thesis
  proof
    assume "seqs r \<noteq> [] \<and> n \<le> newest r"
    then have "newest r \<in> set (seqs r)" "n \<le> newest r"
      using ne holds_iff [OF r] by simp_all
    then show "\<exists>s\<in>set (seqs r). n \<le> s" ..
  next
    assume "\<exists>s\<in>set (seqs r). n \<le> s"
    then obtain s where "s \<in> set (seqs r)" "n \<le> s" ..
    then show "seqs r \<noteq> [] \<and> n \<le> newest r"
      using holds_iff [OF r, of s] by auto
  qed
qed

text \<open>What lies at or above a position is either held or below the front.\<close>

lemma owed_split:
  assumes "ok r" and "n \<le> s" and "s \<le> newest r"
  shows "s \<in> set (seqs r) \<longleftrightarrow> \<not> s < front r"
  using assms(3) by (simp add: holds_iff [OF assms(1)] not_less)

end

lemma retention_frontier_eq:
  assumes "ring_wf r"
  shows "retention_frontier r = rr_next_seq r - length (rr_entries r)"
  using assms ring_oldest_seq_eq [OF assms] ring_wf_nextD [OF assms]
  by (auto simp: retention_frontier_def ring_newest_seq_def)

lemma ring_newest_Suc: "ring_wf r \<Longrightarrow> Suc (ring_newest_seq r) = rr_next_seq r"
  by (auto simp: ring_newest_seq_def dest: ring_wf_nextD)

interpretation ring_log: retained_log ring_seqs ring_newest_seq retention_frontier ring_wf
proof
  fix r :: "('m, 'e) retained_ring"
  assume wf: "ring_wf r"
  show "ring_seqs r = [retention_frontier r..<Suc (ring_newest_seq r)]"
    using wf ring_newest_Suc [OF wf] retention_frontier_eq [OF wf] by (simp add: ring_wf_def)
  show "retention_frontier r \<le> Suc (ring_newest_seq r)"
    using wf ring_newest_Suc [OF wf] retention_frontier_eq [OF wf] by (simp add: ring_wf_def)
  show "0 < retention_frontier r"
    using wf retention_frontier_eq [OF wf] by (simp add: ring_wf_def)
qed

lemma frontier_le_next: "ring_wf r \<Longrightarrow> retention_frontier r \<le> rr_next_seq r"
  using ring_log.front_le [of r] ring_newest_Suc [of r] by simp

text \<open>The frontier after an append: it moves past exactly the evicted entries.\<close>

lemma frontier_append:
  assumes "ring_wf r"
  shows "retention_frontier (fst (ring_append m r)) =
    retention_frontier r + (Suc (length (rr_entries r)) - rr_depth r)"
proof -
  have "length (rr_entries (fst (ring_append m r))) =
      Suc (length (rr_entries r)) - (Suc (length (rr_entries r)) - rr_depth r)"
    by (simp add: ring_append_entries [OF assms])
  moreover have "length (rr_entries r) < rr_next_seq r" using assms by (simp add: ring_wf_def)
  ultimately show ?thesis
    by (simp add: retention_frontier_eq [OF assms] retention_frontier_eq [OF ring_append_wf [OF assms]])
qed

lemma frontier_set_depth:
  assumes "ring_wf r"
  shows "retention_frontier (ring_set_depth d r) =
    retention_frontier r + (length (rr_entries r) - d)"
proof -
  have "length (rr_entries r) < rr_next_seq r" using assms by (simp add: ring_wf_def)
  then show ?thesis
    by (simp add: retention_frontier_eq [OF assms] ring_set_depth_entries
        retention_frontier_eq [OF ring_set_depth_wf [OF assms]])
qed

lemma frontier_append_mono:
  "ring_wf r \<Longrightarrow> retention_frontier r \<le> retention_frontier (fst (ring_append m r))"
  by (simp add: frontier_append)

lemma frontier_set_depth_mono:
  "ring_wf r \<Longrightarrow> retention_frontier r \<le> retention_frontier (ring_set_depth d r)"
  by (simp add: frontier_set_depth)

lemma frontier_append_unchanged:
  "ring_wf r \<Longrightarrow> ap_evicted (snd (ring_append m r)) = 0 \<Longrightarrow> rr_depth r \<noteq> 0 \<Longrightarrow>
     retention_frontier (fst (ring_append m r)) = retention_frontier r"
  by (simp add: frontier_append ring_append_evicted)

section \<open>Windows\<close>

lemma count_unseen_eq:
  "count_unseen seqs n len unseen = (len + length seqs, unseen + length (filter (\<lambda>s. n \<le> s) seqs))"
  by (induction seqs arbitrary: len unseen) auto

lemma new_boundary_eq:
  "new_boundary seqs n p = length seqs - min (length (filter (\<lambda>s. n \<le> s) seqs)) p"
  by (simp add: new_boundary_def count_unseen_eq)

lemma length_filter_ge_upt: "length (filter (\<lambda>s. n \<le> s) [a..<b]) = b - max a n"
  by (induction b) (auto simp: max_def)

lemma boundary_arith:
  fixes n k p q ow a :: nat
  assumes "k < n" "ow < n" "a = n - min (max p q) k"
  shows "a + ((n - a) - min (n - max a ow) p) = max (max ow (n - k)) (n - p)"
proof -
  have a: "a \<le> n" "n - k \<le> a" using assms by auto
  have 1: "a + ((n - a) - min (n - max a ow) p) = n - min (n - max a ow) p"
    using a by (simp add: min_def)
  have 2: "n - min (n - max a ow) p = max (max a ow) (n - p)"
    using a assms(2) by (auto simp: min_def max_def)
  have 3: "max a (n - p) = max (n - k) (n - p)"
    using assms(1,3) by (auto simp: min_def max_def)
  show ?thesis unfolding 1 2 using 3 by (metis max.assoc max.commute)
qed

lemma window_entries [simp]:
  "w_entries (cursor_window c r p q) = ring_tail (max p q) r"
  and window_push_enabled [simp]: "w_push_enabled (cursor_window c r p q) = (0 < p)"
  by (simp_all add: cursor_window_def Let_def)

lemma window_new_seqs:
  assumes "ring_wf r"
  shows "map r_seq (window_new_entries (cursor_window c r p q)) =
    [max (max (sc_next_owed c) (retention_frontier r)) (rr_next_seq r - p)..<rr_next_seq r]"
proof -
  define n k ow a where "n = rr_next_seq r" and "k = length (rr_entries r)"
    and "ow = sc_next_owed c" and a: "a = n - min (max p q) k"
  have k: "k < n" using assms by (simp add: ring_wf_def n_def k_def)
  have tail: "map r_seq (ring_tail (max p q) r) = [a..<n]"
    unfolding a n_def k_def by (rule ring_tail_seqs [OF assms])
  have nb: "new_boundary [a..<n] ow p = (n - a) - min (n - max a ow) p"
    by (simp add: new_boundary_eq length_filter_ge_upt)
  have "map r_seq (window_new_entries (cursor_window c r p q)) = drop (new_boundary [a..<n] ow p) [a..<n]"
    by (simp add: window_new_entries_def cursor_window_def Let_def tail drop_map [symmetric] ow_def)
  also have "\<dots> = [a + new_boundary [a..<n] ow p..<n]" by simp
  also have "\<dots> = [max (max ow (n - k)) (n - p)..<n]"
  proof (cases "ow < n")
    case True
    show ?thesis unfolding nb boundary_arith [OF k True a] ..
  next
    case False
    then have "n \<le> a + new_boundary [a..<n] ow p" by (simp add: nb)
    moreover have "n \<le> max (max ow (n - k)) (n - p)" using False by simp
    ultimately show ?thesis by (metis upt_conv_Nil)
  qed
  finally show ?thesis
    unfolding n_def k_def ow_def retention_frontier_eq [OF assms] .
qed

lemma window_span:
  assumes "ring_wf r" and "0 < p"
  shows "window_advance_span (cursor_window c r p q) =
    (if rr_entries r = [] then None
     else Some (ring_newest_seq r, rr_next_seq r - min (max p q) (length (rr_entries r))))"
proof (cases "ring_tail (max p q) r")
  case Nil
  then have "rr_entries r = []"
    using assms(2) by (cases "rr_entries r") (auto simp: ring_tail_eq max_def split: if_splits)
  then show ?thesis using Nil by (simp add: window_advance_span_def)
next
  case (Cons e es)
  let ?a = "rr_next_seq r - min (max p q) (length (rr_entries r))"
  have seqs: "map r_seq (e # es) = [?a..<rr_next_seq r]"
    using ring_tail_seqs [OF assms(1), of "max p q"] Cons by simp
  then have lt: "?a < rr_next_seq r" by (metis list.map_disc_iff neq_Nil_conv upt_eq_Nil_conv not_less)
  have "r_seq e = ?a" using seqs lt by (metis list.map(2) list.sel(1) upt_conv_Cons)
  moreover have "r_seq (last (e # es)) = rr_next_seq r - 1"
    using seqs lt by (metis last_map last_upt list.distinct(1))
  moreover have "rr_entries r \<noteq> []" using Cons by (auto simp: ring_tail_eq)
  ultimately show ?thesis
    using Cons assms(2) by (simp add: window_advance_span_def ring_newest_seq_def)
qed

section \<open>Properties\<close>

lemma cursor_deliverable_iff:
  "ring_wf r \<Longrightarrow> cursor_has_deliverable c r \<longleftrightarrow>
     cursor_is_push_enabled c \<and> (\<exists>s\<in>set (ring_seqs r). sc_next_owed c \<le> s)"
  using ring_log.newest_answers [of r "sc_next_owed c"]
  by (simp add: cursor_has_deliverable_def ring_is_empty_def)

text \<open>
  The wake question is answered exactly: a push-enabled subscriber has something
  deliverable if and only if the ring still holds a message it has not passed.
\<close>

lemma cursor_wake_exact:
  "ring_wf r \<Longrightarrow> cursor_has_deliverable c r \<longleftrightarrow>
     0 < sc_push_depth c \<and> (\<exists>e\<in>set (rr_entries r). sc_next_owed c \<le> r_seq e)"
  by (simp add: cursor_deliverable_iff cursor_is_push_enabled_def ring_seqs_def)

lemma cursor_wake_exact_example:
  "cursor_has_deliverable \<lparr>sc_next_owed = 2, sc_push_depth = 1\<rparr>
     (fst (ring_append CHR ''b'' (fst (ring_append CHR ''a'' (ring_new () 1)))))"
proof -
  let ?r = "fst (ring_append CHR ''b'' (fst (ring_append CHR ''a'' (ring_new () 1))))"
  have wf: "ring_wf ?r" by (intro ring_append_wf ring_new_wf)
  have "rr_entries ?r = [\<lparr>r_seq = 2, r_message = CHR ''b''\<rparr>]"
    by (simp add: ring_append_def ring_trim_def ring_new_def)
  then show ?thesis using cursor_wake_exact [OF wf] by simp
qed

text \<open>
  C26: An activation window presents as new exactly the newest retained messages the
  subscriber has not passed, at most the push limit of them, whatever the retain limit.
\<close>

theorem window_presents_newest_unseen:
  assumes "ring_wf r"
  shows "map r_seq (window_new_entries (cursor_window c r push retain)) =
    [max (max (sc_next_owed c) (retention_frontier r)) (rr_next_seq r - push)..<rr_next_seq r]"
  by (rule window_new_seqs [OF assms])

theorem window_presents_newest_unseen_witness:
  "map r_seq (window_new_entries (cursor_window \<lparr>sc_next_owed = 2, sc_push_depth = 5\<rparr>
     (foldl ring_step (ring_new () 4) (map RAppend ''abcdef'')) 2 3)) = [5, 6]"
proof -
  let ?r = "foldl ring_step (ring_new () 4) (map RAppend ''abcdef'')"
  have h: "ring_of_history ''abcdef'' ?r"
    using ring_of_history_run [OF ring_of_history_new, of "map RAppend ''abcdef''" "()" 4] by simp
  have "length (rr_entries ?r) = 4"
    by (simp add: ring_new_def ring_append_def ring_trim_def)
  then have "retention_frontier ?r = 3" "rr_next_seq ?r = 7"
    using retention_frontier_eq [OF ring_of_history_wf [OF h]] ring_of_history_next [OF h] by simp_all
  then show ?thesis
    using window_presents_newest_unseen [OF ring_of_history_wf [OF h],
        of "\<lparr>sc_next_owed = 2, sc_push_depth = 5\<rparr>" 2 3] by (simp add: upt_rec)
qed

lemma card_unserved: "a \<le> N \<Longrightarrow> card {s. n \<le> s \<and> s < N \<and> s \<notin> {a..<N}} = a - n"
proof -
  assume "a \<le> N"
  then have "{s. n \<le> s \<and> s < N \<and> s \<notin> {a..<N}} = {n..<a}" by auto
  then show ?thesis by simp
qed

lemma card_unserved_held:
  "a \<le> N \<Longrightarrow> card {s. n \<le> s \<and> s \<in> {f..<N} \<and> s \<notin> {a..<N}} = a - max n f"
proof -
  assume "a \<le> N"
  then have "{s. n \<le> s \<and> s \<in> {f..<N} \<and> s \<notin> {a..<N}} = {max n f..<a}" by auto
  then show ?thesis by simp
qed

text \<open>
  C23: Serving a window and advancing over it accounts for every message. The advance over a
  non-empty window of a push-enabled subscriber never panics, leaves nothing deliverable
  behind it, reports as dropped exactly the unseen messages the window did not carry, and
  charges as noise exactly those of them the ring still holds.
\<close>

theorem window_advance_accounts:
  assumes wf: "ring_wf r" and push: "0 < push" and c: "sc_push_depth c = push"
    and ne: "rr_entries r \<noteq> []" and width: "rr_next_seq r \<le> u64_max"
    and pos: "sc_next_owed c \<le> rr_next_seq r"
  shows "\<exists>through floor c' adv.
    window_advance_span (cursor_window c r push retain) = Some (through, floor) \<and>
    cursor_advance c r through floor = Ret (c', adv) \<and>
    sc_next_owed c' = rr_next_seq r \<and> \<not> cursor_has_deliverable c' r \<and>
    adv_dropped adv = card {s. sc_next_owed c \<le> s \<and> s < rr_next_seq r \<and>
      s \<notin> r_seq ` set (w_entries (cursor_window c r push retain))} \<and>
    adv_noise_charge adv = card {s. sc_next_owed c \<le> s \<and> s \<in> set (ring_seqs r) \<and>
      s \<notin> r_seq ` set (w_entries (cursor_window c r push retain))}"
proof -
  define a where "a = rr_next_seq r - min (max push retain) (length (rr_entries r))"
  have a: "a \<le> rr_next_seq r" by (simp add: a_def)
  have served: "r_seq ` set (w_entries (cursor_window c r push retain)) = {a..<rr_next_seq r}"
    using ring_tail_seqs [OF wf, of "max push retain"] unfolding a_def
    by (simp flip: set_map)
  have held: "set (ring_seqs r) = {retention_frontier r..<rr_next_seq r}"
    using ring_log.dense [OF wf] ring_newest_Suc [OF wf] by (simp del: upt_Suc)
  have span: "window_advance_span (cursor_window c r push retain) = Some (ring_newest_seq r, a)"
    using window_span [OF wf push] ne by (simp add: a_def)
  have new: "ring_newest_seq r + 1 = rr_next_seq r" using ring_newest_Suc [OF wf] by simp
  define c' where "c' = c\<lparr>sc_next_owed := rr_next_seq r\<rparr>"
  define adv where "adv = \<lparr>adv_dropped = a - sc_next_owed c,
      adv_noise_charge = a - max (sc_next_owed c) (retention_frontier r)\<rparr>"
  have "cursor_advance c r (ring_newest_seq r) a = Ret (c', adv)"
    using c push new width pos a
    by (auto simp: cursor_advance_def cursor_is_push_enabled_def c'_def adv_def)
  moreover have "\<not> cursor_has_deliverable c' r"
    using new by (simp add: cursor_has_deliverable_def c'_def)
  moreover have "adv_dropped adv = card {s. sc_next_owed c \<le> s \<and> s < rr_next_seq r \<and>
      s \<notin> {a..<rr_next_seq r}}"
    using card_unserved [OF a, of "sc_next_owed c"] by (simp add: adv_def)
  moreover have "adv_noise_charge adv = card {s. sc_next_owed c \<le> s \<and>
      s \<in> {retention_frontier r..<rr_next_seq r} \<and> s \<notin> {a..<rr_next_seq r}}"
    using card_unserved_held [OF a, of "sc_next_owed c" "retention_frontier r"] by (simp add: adv_def)
  ultimately show ?thesis
    unfolding span served held by (auto simp: c'_def)
qed

theorem window_advance_accounts_witness:
  "\<exists>through floor c' adv.
    window_advance_span (cursor_window \<lparr>sc_next_owed = 1, sc_push_depth = 1\<rparr>
      (fst (ring_append CHR ''b'' (fst (ring_append CHR ''a'' (ring_new () 2))))) 1 0) =
        Some (through, floor) \<and>
    cursor_advance \<lparr>sc_next_owed = 1, sc_push_depth = 1\<rparr>
      (fst (ring_append CHR ''b'' (fst (ring_append CHR ''a'' (ring_new () 2))))) through floor =
        Ret (c', adv) \<and> sc_next_owed c' = 3"
proof -
  let ?r = "fst (ring_append CHR ''b'' (fst (ring_append CHR ''a'' (ring_new () 2))))"
  have wf: "ring_wf ?r" by (intro ring_append_wf ring_new_wf)
  have n: "rr_next_seq ?r = 3" "rr_entries ?r \<noteq> []"
    by (simp_all add: ring_append_def ring_trim_def ring_new_def)
  have w: "rr_next_seq ?r \<le> u64_max" unfolding n by (simp add: u64_max_def)
  show ?thesis
    using window_advance_accounts [OF wf, of 1 "\<lparr>sc_next_owed = 1, sc_push_depth = 1\<rparr>" 0] n w
    by fastforce
qed

end
