(* ===== verification/Deferred.thy ===== *)
theory Deferred
  imports Prelude
begin

text \<open>
  The deferred set of \<^verbatim>\<open>brenn-queue/src/deferred.rs\<close>: messages parked until a release time,
  kept sorted by release time and, within one release time, by the order they were parked.
  The interface \<open>release_queue\<close> states what a channel relies on in it.
\<close>

section \<open>Data and operations\<close>

record 'm deferred =
  d_id :: nat
  d_sender :: string
  d_release_at :: nat
  d_message :: 'm

record 'm deferred_set =
  ds_cap :: "nat option"
  ds_next_id :: nat
  ds_entries :: "'m deferred list"

text \<open>The sort key of the source's comment: \<^verbatim>\<open>(release_at, id)\<close>, compared as a Rust tuple.\<close>

definition d_key :: "'m deferred \<Rightarrow> nat \<times> nat" where
  "d_key e = (d_release_at e, d_id e)"

definition deferred_new :: "nat option \<Rightarrow> 'm deferred_set" where
  "deferred_new cap = \<lparr>ds_cap = cap, ds_next_id = 1, ds_entries = []\<rparr>"

definition deferred_set_cap :: "nat option \<Rightarrow> 'm deferred_set \<Rightarrow> 'm deferred_set" where
  "deferred_set_cap cap s = s\<lparr>ds_cap := cap\<rparr>"

definition deferred_len :: "'m deferred_set \<Rightarrow> nat" where
  "deferred_len s = length (ds_entries s)"

definition position_for :: "'m deferred list \<Rightarrow> nat \<Rightarrow> nat \<Rightarrow> nat" where
  "position_for entries release_at i = partition_point (\<lambda>e. d_key e < (release_at, i)) entries"

definition deferred_park ::
  "string \<Rightarrow> 'm \<Rightarrow> nat \<Rightarrow> 'm deferred_set \<Rightarrow> 'm deferred_set \<times> (nat + nat)" where
  "deferred_park sender msg release_at s =
     (case (case ds_cap s of
              Some cap \<Rightarrow> if length (ds_entries s) \<ge> cap then Some cap else None
            | None \<Rightarrow> None) of
        Some cap \<Rightarrow> (s, Inl cap)
      | None \<Rightarrow>
          let i = ds_next_id s;
              entry = \<lparr>d_id = i, d_sender = sender, d_release_at = release_at, d_message = msg\<rparr>;
              at = position_for (ds_entries s) release_at i
          in (s\<lparr>ds_next_id := ds_next_id s + 1, ds_entries := insert_at at entry (ds_entries s)\<rparr>,
              Inr i))"

definition deferred_next_release :: "'m deferred_set \<Rightarrow> nat option" where
  "deferred_next_release s = (case ds_entries s of [] \<Rightarrow> None | e # _ \<Rightarrow> Some (d_release_at e))"

definition deferred_release_due :: "nat \<Rightarrow> 'm deferred_set \<Rightarrow> 'm deferred_set \<times> 'm deferred list" where
  "deferred_release_due now s =
     (let due = length (takeWhile (\<lambda>e. d_release_at e \<le> now) (ds_entries s))
      in (s\<lparr>ds_entries := drop due (ds_entries s)\<rparr>, take due (ds_entries s)))"

definition deferred_for_sender :: "string \<Rightarrow> 'm deferred_set \<Rightarrow> 'm deferred list" where
  "deferred_for_sender sender s = filter (\<lambda>e. d_sender e = sender) (ds_entries s)"

definition deferred_get :: "nat \<Rightarrow> 'm deferred_set \<Rightarrow> 'm deferred option" where
  "deferred_get i s = find (\<lambda>e. d_id e = i) (ds_entries s)"

definition deferred_cancel :: "nat \<Rightarrow> 'm deferred_set \<Rightarrow> 'm deferred_set \<times> 'm deferred option" where
  "deferred_cancel i s =
     (case position (\<lambda>e. d_id e = i) (ds_entries s) of
        None \<Rightarrow> (s, None)
      | Some at \<Rightarrow> (s\<lparr>ds_entries := remove_at at (ds_entries s)\<rparr>, Some (ds_entries s ! at)))"

definition deferred_edit ::
  "nat \<Rightarrow> 'm option \<Rightarrow> nat option \<Rightarrow> 'm deferred_set \<Rightarrow> 'm deferred_set \<times> (nat + unit)" where
  "deferred_edit i msg release_at s =
     (case position (\<lambda>e. d_id e = i) (ds_entries s) of
        None \<Rightarrow> (s, Inl i)
      | Some at \<Rightarrow>
          let es1 = (case msg of
                       None \<Rightarrow> ds_entries s
                     | Some m \<Rightarrow> (ds_entries s)[at := (ds_entries s ! at)\<lparr>d_message := m\<rparr>])
          in case release_at of
               None \<Rightarrow> (s\<lparr>ds_entries := es1\<rparr>, Inr ())
             | Some t \<Rightarrow>
                 let entry = (es1 ! at)\<lparr>d_release_at := t\<rparr>;
                     es2 = remove_at at es1;
                     to = position_for es2 t i
                 in (s\<lparr>ds_entries := insert_at to entry es2\<rparr>, Inr ()))"

section \<open>The invariant\<close>

definition deferred_wf :: "'m deferred_set \<Rightarrow> bool" where
  "deferred_wf s \<longleftrightarrow>
     sorted (map d_key (ds_entries s)) \<and> distinct (map d_id (ds_entries s)) \<and>
     (\<forall>e\<in>set (ds_entries s). d_id e < ds_next_id s)"

lemma insert_position_entries:
  assumes "sorted (map d_key es)"
  shows "sorted (map d_key (insert_at (position_for es (d_release_at x) (d_id x)) x es))"
    and "mset (insert_at (position_for es (d_release_at x) (d_id x)) x es) = add_mset x (mset es)"
proof -
  let ?P = "\<lambda>e. d_key e < d_key x"
  let ?A = "takeWhile ?P es" and ?B = "dropWhile ?P es"
  have P: "(\<lambda>e. d_key e < (d_release_at x, d_id x)) = ?P" by (simp add: d_key_def)
  have ins: "insert_at (position_for es (d_release_at x) (d_id x)) x es = ?A @ x # ?B"
    unfolding position_for_def P by (rule insert_at_partition)
  have "?A = filter ?P es" by (rule takeWhile_eq_filter_sorted [OF assms]) auto
  then have "?B = filter (\<lambda>e. \<not> ?P e) es" by (rule dropWhile_eq_filter_not)
  then have B: "\<forall>y\<in>set ?B. d_key x \<le> d_key y" by (simp add: not_less)
  have A: "\<forall>y\<in>set ?A. d_key y \<le> d_key x" by (auto dest: set_takeWhileD)
  have "es = ?A @ ?B" by simp
  then have "sorted (map d_key ?A)" "sorted (map d_key ?B)"
    "\<forall>a\<in>set ?A. \<forall>b\<in>set ?B. d_key a \<le> d_key b"
    using assms sorted_append [of "map d_key ?A" "map d_key ?B"] map_append [of d_key ?A ?B] by auto
  then show "sorted (map d_key (insert_at (position_for es (d_release_at x) (d_id x)) x es))"
    unfolding ins using A B by (auto simp: sorted_append)
  have "mset es = mset ?A + mset ?B" by (metis mset_append takeWhile_dropWhile_id)
  then show "mset (insert_at (position_for es (d_release_at x) (d_id x)) x es) = add_mset x (mset es)"
    unfolding ins by simp
qed

lemma deferred_wf_new [wf_intros]: "deferred_wf (deferred_new cap)"
  by (simp add: deferred_wf_def deferred_new_def)

lemma deferred_wf_set_cap [wf_intros]: "deferred_wf s \<Longrightarrow> deferred_wf (deferred_set_cap cap s)"
  by (simp add: deferred_wf_def deferred_set_cap_def)

text \<open>Looking an entry up by its id, in a set where ids are distinct.\<close>

lemma deferred_get_iff:
  assumes "deferred_wf s"
  shows "deferred_get i s = Some e \<longleftrightarrow> e \<in> set (ds_entries s) \<and> d_id e = i"
proof
  assume "deferred_get i s = Some e"
  then show "e \<in> set (ds_entries s) \<and> d_id e = i"
    by (auto simp: deferred_get_def find_Some_iff)
next
  assume e: "e \<in> set (ds_entries s) \<and> d_id e = i"
  then obtain x where x: "deferred_get i s = Some x"
    unfolding deferred_get_def by (metis (mono_tags, lifting) find_None_iff option.exhaust)
  then have "x \<in> set (ds_entries s)" "d_id x = i" by (auto simp: deferred_get_def find_Some_iff)
  moreover have "inj_on d_id (set (ds_entries s))"
    using assms by (simp add: deferred_wf_def distinct_map)
  ultimately show "deferred_get i s = Some e" using e x by (metis inj_onD)
qed

lemma deferred_get_None: "deferred_get i s = None \<longleftrightarrow> i \<notin> d_id ` set (ds_entries s)"
  by (auto simp: deferred_get_def find_None_iff)

lemma deferred_get_id: "deferred_get i s = Some e \<Longrightarrow> d_id e = i"
  by (auto simp: deferred_get_def find_Some_iff)

lemma deferred_get_position: "deferred_get i s = None \<longleftrightarrow> position (\<lambda>e. d_id e = i) (ds_entries s) = None"
  by (auto simp: deferred_get_def find_None_iff position_None)

lemma deferred_wf_cong:
  "deferred_wf s \<Longrightarrow> sorted (map d_key es) \<Longrightarrow> mset (map d_id es) \<subseteq># mset (map d_id (ds_entries s)) \<Longrightarrow>
     deferred_wf (s\<lparr>ds_entries := es\<rparr>)"
proof -
  assume a: "deferred_wf s" "sorted (map d_key es)" "mset (map d_id es) \<subseteq># mset (map d_id (ds_entries s))"
  then obtain M where M: "mset (map d_id (ds_entries s)) = mset (map d_id es) + M"
    by (metis mset_subset_eq_exists_conv)
  obtain ms where "mset ms = M" using ex_mset by blast
  then have m: "mset (map d_id (ds_entries s)) = mset (map d_id es @ ms)" using M by simp
  then have "distinct (map d_id es @ ms)"
    using a(1) unfolding deferred_wf_def by (metis mset_eq_imp_distinct_iff)
  moreover have "set (map d_id es) \<subseteq> set (map d_id (ds_entries s))"
    using mset_eq_setD [OF m] by simp
  ultimately show ?thesis using a unfolding deferred_wf_def by fastforce
qed

section \<open>What each operation does to the parked entries\<close>

lemma deferred_park_refused:
  "ds_cap s = Some cap \<Longrightarrow> cap \<le> length (ds_entries s) \<Longrightarrow> deferred_park sender m t s = (s, Inl cap)"
  by (simp add: deferred_park_def)

definition deferred_room :: "'m deferred_set \<Rightarrow> bool" where
  "deferred_room s \<longleftrightarrow> (case ds_cap s of None \<Rightarrow> True | Some cap \<Rightarrow> length (ds_entries s) < cap)"

lemma deferred_park_accepted:
  assumes "deferred_wf s" and "deferred_room s"
  obtains es where
    "deferred_park sender m t s = (s\<lparr>ds_next_id := Suc (ds_next_id s), ds_entries := es\<rparr>, Inr (ds_next_id s))"
    "sorted (map d_key es)"
    "mset es = add_mset \<lparr>d_id = ds_next_id s, d_sender = sender, d_release_at = t, d_message = m\<rparr>
                 (mset (ds_entries s))"
proof -
  let ?e = "\<lparr>d_id = ds_next_id s, d_sender = sender, d_release_at = t, d_message = m\<rparr>"
  have so: "sorted (map d_key (ds_entries s))" using assms by (simp add: deferred_wf_def)
  show thesis
    by (rule that [OF _ insert_position_entries [OF so, of ?e]])
      (use assms(2) in \<open>auto simp: deferred_room_def deferred_park_def Let_def split: option.splits\<close>)
qed

lemma deferred_wf_park [wf_intros]:
  assumes "deferred_wf s"
  shows "deferred_wf (fst (deferred_park sender m t s))"
proof (cases "deferred_room s")
  case True
  from deferred_park_accepted [OF assms this, of sender m t] obtain es where
    p: "deferred_park sender m t s = (s\<lparr>ds_next_id := Suc (ds_next_id s), ds_entries := es\<rparr>, Inr (ds_next_id s))"
    and so: "sorted (map d_key es)"
    and ms: "mset es = add_mset \<lparr>d_id = ds_next_id s, d_sender = sender, d_release_at = t, d_message = m\<rparr>
               (mset (ds_entries s))" .
  have "mset (map d_id es) = mset (map d_id (ds_entries s) @ [ds_next_id s])"
    using arg_cong [OF ms, of "image_mset d_id"] by simp
  then have "distinct (map d_id es) = distinct (map d_id (ds_entries s) @ [ds_next_id s])"
    by (rule mset_eq_imp_distinct_iff)
  moreover have "set es = insert \<lparr>d_id = ds_next_id s, d_sender = sender, d_release_at = t, d_message = m\<rparr>
               (set (ds_entries s))" using arg_cong [OF ms, of set_mset] by simp
  ultimately show ?thesis using assms so unfolding p deferred_wf_def by force
next
  case False
  then have "fst (deferred_park sender m t s) = s"
    by (auto simp: deferred_room_def deferred_park_def split: option.splits)
  then show ?thesis using assms by simp
qed

lemma deferred_release_due_eq:
  assumes "deferred_wf s"
  shows "deferred_release_due now s =
    (s\<lparr>ds_entries := filter (\<lambda>e. now < d_release_at e) (ds_entries s)\<rparr>,
     filter (\<lambda>e. d_release_at e \<le> now) (ds_entries s))"
proof -
  let ?P = "\<lambda>e. d_release_at e \<le> now"
  have tw: "takeWhile ?P (ds_entries s) = filter ?P (ds_entries s)"
    by (rule takeWhile_eq_filter_sorted [of d_key])
      (use assms in \<open>auto simp: deferred_wf_def d_key_def less_eq_prod_def\<close>)
  have "dropWhile ?P (ds_entries s) = filter (\<lambda>e. \<not> ?P e) (ds_entries s)"
    by (rule dropWhile_eq_filter_not [OF tw])
  then show ?thesis
    unfolding deferred_release_due_def Let_def takeWhile_eq_take [symmetric] dropWhile_eq_drop [symmetric]
    by (simp add: tw not_le)
qed

lemma deferred_wf_filter:
  "deferred_wf s \<Longrightarrow> deferred_wf (s\<lparr>ds_entries := filter P (ds_entries s)\<rparr>)"
  by (simp add: deferred_wf_def sorted_filter distinct_map_filter)

lemma deferred_wf_release_due [wf_intros]:
  "deferred_wf s \<Longrightarrow> deferred_wf (fst (deferred_release_due now s))"
  by (simp add: deferred_release_due_eq deferred_wf_filter)

lemma deferred_cancel_eq:
  assumes "deferred_wf s"
  shows "deferred_cancel i s =
    (s\<lparr>ds_entries := filter (\<lambda>e. d_id e \<noteq> i) (ds_entries s)\<rparr>, deferred_get i s)"
proof (cases "position (\<lambda>e. d_id e = i) (ds_entries s)")
  case None
  then have "deferred_get i s = None" "filter (\<lambda>e. d_id e \<noteq> i) (ds_entries s) = ds_entries s"
    by (simp_all add: deferred_get_position filter_id_conv position_None)
  then show ?thesis using None by (simp add: deferred_cancel_def)
next
  case (Some at)
  then obtain ys x zs where es: "ds_entries s = ys @ x # zs" "at = length ys" "d_id x = i"
    "\<forall>y\<in>set ys. d_id y \<noteq> i" using position_Some_split [OF Some] by auto
  have "deferred_get i s = Some x" using es assms by (simp add: deferred_get_iff)
  moreover have "i \<notin> d_id ` set zs" using assms es(1,3) by (simp add: deferred_wf_def)
  then have "filter (\<lambda>e. d_id e \<noteq> i) zs = zs" by (auto simp: filter_id_conv)
  moreover have "filter (\<lambda>e. d_id e \<noteq> i) ys = ys" using es(4) by (simp add: filter_id_conv)
  ultimately show ?thesis using Some es(1-3) by (simp add: deferred_cancel_def remove_at_split)
qed

lemma deferred_wf_cancel [wf_intros]: "deferred_wf s \<Longrightarrow> deferred_wf (fst (deferred_cancel i s))"
  by (simp add: deferred_cancel_eq deferred_wf_filter)

text \<open>The entry an edit leaves: the given payload and release time, the old id and sender.\<close>

definition edited :: "'m option \<Rightarrow> nat option \<Rightarrow> 'm deferred \<Rightarrow> 'm deferred" where
  "edited m t e =
     e\<lparr>d_message := case_option (d_message e) id m, d_release_at := case_option (d_release_at e) id t\<rparr>"

lemma edited_simps [simp]: "d_id (edited m t e) = d_id e" "d_sender (edited m t e) = d_sender e"
  by (simp_all add: edited_def)

lemma deferred_edit_missing: "deferred_get i s = None \<Longrightarrow> deferred_edit i m t s = (s, Inl i)"
  by (simp add: deferred_get_position deferred_edit_def)

lemma deferred_edit_found:
  assumes "deferred_wf s" and "deferred_get i s = Some e"
  obtains es rest where "deferred_edit i m t s = (s\<lparr>ds_entries := es\<rparr>, Inr ())"
    "sorted (map d_key es)" "mset (ds_entries s) = add_mset e rest" "mset es = add_mset (edited m t e) rest"
proof -
  from assms(2) obtain at where pos: "position (\<lambda>e. d_id e = i) (ds_entries s) = Some at"
    by (metis deferred_get_position not_None_eq)
  then obtain ys x zs where es: "ds_entries s = ys @ x # zs" "at = length ys" "d_id x = i"
    "\<forall>y\<in>set ys. d_id y \<noteq> i" using position_Some_split [OF pos] by auto
  have "deferred_get i s = Some x" using es(1,3) assms(1) by (simp add: deferred_get_iff)
  then have x: "x = e" using assms(2) by simp
  let ?x = "edited m None x"
  have es1: "(case m of None \<Rightarrow> ds_entries s
              | Some m \<Rightarrow> (ds_entries s)[at := (ds_entries s ! at)\<lparr>d_message := m\<rparr>]) = ys @ ?x # zs"
    using es by (cases m) (simp_all add: edited_def)
  have so: "sorted (map d_key (ys @ zs))" "sorted (map d_key (ys @ ?x # zs))"
    using assms(1) es by (auto simp: deferred_wf_def sorted_append d_key_def edited_def)
  have ed: "deferred_edit i m t s =
      (let es1 = ys @ ?x # zs in
       case t of None \<Rightarrow> (s\<lparr>ds_entries := es1\<rparr>, Inr ())
       | Some t \<Rightarrow> let entry = (es1 ! at)\<lparr>d_release_at := t\<rparr>; es2 = remove_at at es1; to = position_for es2 t i
                 in (s\<lparr>ds_entries := insert_at to entry es2\<rparr>, Inr ()))"
    unfolding deferred_edit_def pos option.case es1 ..
  show thesis
  proof (cases t)
    case None
    then show ?thesis
      by (intro that [of "ys @ ?x # zs" "mset (ys @ zs)"]) (use ed so x es(1) in simp_all)
  next
    case (Some r)
    let ?y = "?x\<lparr>d_release_at := r\<rparr>"
    have y: "?y = edited m t e" using Some x by (simp add: edited_def)
    have k: "d_release_at ?y = r" "d_id ?y = i" using es(3) by simp_all
    have "deferred_edit i m t s = (s\<lparr>ds_entries := insert_at (position_for (ys @ zs) r i) ?y (ys @ zs)\<rparr>, Inr ())"
      using Some es(2) ed by (simp add: Let_def remove_at_split)
    then show ?thesis
      using insert_position_entries [OF so(1), of ?y, unfolded k] x es(1) y
      by (intro that [of _ "mset (ys @ zs)"]) simp_all
  qed
qed

lemma deferred_wf_edit [wf_intros]:
  assumes "deferred_wf s"
  shows "deferred_wf (fst (deferred_edit i m t s))"
proof (cases "deferred_get i s")
  case None
  then show ?thesis using assms by (simp add: deferred_edit_missing)
next
  case (Some e)
  from deferred_edit_found [OF assms Some, of m t] obtain es rest where
    *: "deferred_edit i m t s = (s\<lparr>ds_entries := es\<rparr>, Inr ())" "sorted (map d_key es)"
      "mset (ds_entries s) = add_mset e rest" "mset es = add_mset (edited m t e) rest" .
  have "mset (map d_id es) = mset (map d_id (ds_entries s))" using *(3,4) by simp
  then show ?thesis using deferred_wf_cong [OF assms *(2)] *(1) by simp
qed

section \<open>The release interface\<close>

text \<open>What a channel relies on in a store of scheduled items: taking what is due splits the
  pending items, which stand in release order.\<close>

locale release_queue =
  fixes inv :: "'s \<Rightarrow> bool"
    and pending :: "'s \<Rightarrow> 'e list"
    and due_at :: "'e \<Rightarrow> nat"
    and take_due :: "nat \<Rightarrow> 's \<Rightarrow> 's \<times> 'e list"
    and next_due :: "'s \<Rightarrow> nat option"
  assumes take_inv: "inv s \<Longrightarrow> inv (fst (take_due now s))"
    and take_splits: "inv s \<Longrightarrow> pending s = snd (take_due now s) @ pending (fst (take_due now s))"
    and taken_due: "inv s \<Longrightarrow> e \<in> set (snd (take_due now s)) \<Longrightarrow> due_at e \<le> now"
    and left_later: "inv s \<Longrightarrow> e \<in> set (pending (fst (take_due now s))) \<Longrightarrow> now < due_at e"
    and next_due_hd: "next_due s = (if pending s = [] then None else Some (due_at (hd (pending s))))"
begin

lemma take_filter:
  assumes "inv s"
  shows "snd (take_due now s) = filter (\<lambda>e. due_at e \<le> now) (pending s)"
    and "pending (fst (take_due now s)) = filter (\<lambda>e. now < due_at e) (pending s)"
proof -
  let ?t = "snd (take_due now s)" and ?r = "pending (fst (take_due now s))"
  have t: "\<forall>e\<in>set ?t. due_at e \<le> now" and r: "\<forall>e\<in>set ?r. now < due_at e"
    using taken_due left_later assms by auto
  have "filter (\<lambda>e. due_at e \<le> now) ?t = ?t" "filter (\<lambda>e. due_at e \<le> now) ?r = []"
    "filter (\<lambda>e. now < due_at e) ?t = []" "filter (\<lambda>e. now < due_at e) ?r = ?r"
    using t r by (auto simp: filter_id_conv filter_empty_conv)
  then show "?t = filter (\<lambda>e. due_at e \<le> now) (pending s)"
    "?r = filter (\<lambda>e. now < due_at e) (pending s)"
    by (simp_all add: take_splits [OF assms, of now])
qed

text \<open>Sleeping until the deadline is exact: before it nothing is due, at it something is.\<close>

lemma due_iff_deadline:
  assumes "inv s"
  shows "snd (take_due now s) \<noteq> [] \<longleftrightarrow> (\<exists>t. next_due s = Some t \<and> t \<le> now)"
proof -
  have sp: "pending s = snd (take_due now s) @ pending (fst (take_due now s))"
    by (rule take_splits [OF assms])
  show ?thesis
  proof (cases "snd (take_due now s)")
    case Nil
    then have "\<forall>e\<in>set (pending s). now < due_at e" using left_later [OF assms, of _ now] sp by simp
    then have "pending s \<noteq> [] \<Longrightarrow> now < due_at (hd (pending s))" using hd_in_set by blast
    then show ?thesis using Nil by (auto simp: next_due_hd)
  next
    case (Cons e es)
    then have "pending s \<noteq> []" "hd (pending s) = e" using sp by simp_all
    then show ?thesis using Cons taken_due [OF assms, of e now] by (simp add: next_due_hd)
  qed
qed

lemma deadline_moves_past:
  "inv s \<Longrightarrow> next_due (fst (take_due now s)) = Some t \<Longrightarrow> now < t"
  by (auto simp: next_due_hd split: if_splits intro: left_later)

text \<open>A late wake loses nothing: waking twice takes what one wake at the later time takes.\<close>

lemma take_twice:
  assumes "inv s" and "t1 \<le> t2"
  shows "snd (take_due t1 s) @ snd (take_due t2 (fst (take_due t1 s))) = snd (take_due t2 s)"
    and "pending (fst (take_due t2 (fst (take_due t1 s)))) = pending (fst (take_due t2 s))"
proof -
  let ?s = "fst (take_due t1 s)"
  have i: "inv ?s" by (rule take_inv [OF assms(1)])
  have "snd (take_due t1 s) = filter (\<lambda>e. due_at e \<le> t2) (snd (take_due t1 s))"
    using taken_due [OF assms(1)] assms(2) by (metis (mono_tags, lifting) filter_True le_trans)
  then have "snd (take_due t1 s) @ snd (take_due t2 ?s) =
      filter (\<lambda>e. due_at e \<le> t2) (snd (take_due t1 s) @ pending ?s)"
    using take_filter(1) [OF i, of t2] by simp
  then show "snd (take_due t1 s) @ snd (take_due t2 ?s) = snd (take_due t2 s)"
    using take_filter(1) [OF assms(1), of t2] take_splits [OF assms(1), of t1] by simp
  have "filter (\<lambda>e. t2 < due_at e) (filter (\<lambda>e. t1 < due_at e) (pending s)) =
      filter (\<lambda>e. t2 < due_at e) (pending s)"
    using assms(2) by (auto intro!: filter_cong)
  then show "pending (fst (take_due t2 ?s)) = pending (fst (take_due t2 s))"
    using take_filter(2) [OF assms(1)] take_filter(2) [OF i] by simp
qed

end

interpretation parked: release_queue deferred_wf ds_entries d_release_at deferred_release_due deferred_next_release
proof
  fix s :: "'m deferred_set" and now
  assume wf: "deferred_wf s"
  show "deferred_wf (fst (deferred_release_due now s))" by (rule deferred_wf_release_due [OF wf])
  show "ds_entries s = snd (deferred_release_due now s) @ ds_entries (fst (deferred_release_due now s))"
    by (simp add: deferred_release_due_def Let_def)
  show "\<And>e. e \<in> set (snd (deferred_release_due now s)) \<Longrightarrow> d_release_at e \<le> now"
    "\<And>e. e \<in> set (ds_entries (fst (deferred_release_due now s))) \<Longrightarrow> now < d_release_at e"
    by (simp_all add: deferred_release_due_eq [OF wf])
next
  fix s :: "'m deferred_set"
  show "deferred_next_release s =
      (if ds_entries s = [] then None else Some (d_release_at (hd (ds_entries s))))"
    by (simp add: deferred_next_release_def split: list.split)
qed

section \<open>The set as a schedule\<close>

text \<open>The abstract reading: a finite map from ids to parked entries, a cap on its size and the next
  id. \<open>deferred_op\<close> lists the mutating operations, \<open>deferred_step\<close> dispatches them, and
  \<open>schedule_step\<close> says what each means on the map, without order or positions.\<close>

datatype 'm deferred_op =
    DPark string 'm nat
  | DRelease nat
  | DCancel nat
  | DEdit nat "'m option" "nat option"
  | DSetCap "nat option"

datatype 'm deferred_out =
    Parked nat
  | Over_quota nat
  | Gone "'m deferred list"
  | Edit_result "nat + unit"
  | Recapped

fun deferred_step :: "'m deferred_set \<Rightarrow> 'm deferred_op \<Rightarrow> ('m deferred_set \<times> 'm deferred_out) exec" where
  "deferred_step s (DPark sender m t) =
     (case deferred_park sender m t s of
        (s', Inl cap) \<Rightarrow> Ret (s', Over_quota cap) | (s', Inr i) \<Rightarrow> Ret (s', Parked i))"
| "deferred_step s (DRelease now) = (let (s', out) = deferred_release_due now s in Ret (s', Gone out))"
| "deferred_step s (DCancel i) =
     (let (s', out) = deferred_cancel i s
      in Ret (s', Gone (case out of None \<Rightarrow> [] | Some e \<Rightarrow> [e])))"
| "deferred_step s (DEdit i m t) = (let (s', out) = deferred_edit i m t s in Ret (s', Edit_result out))"
| "deferred_step s (DSetCap cap) = Ret (deferred_set_cap cap s, Recapped)"

record 'm schedule =
  sch_cap :: "nat option"
  sch_next :: nat
  sch_map :: "nat \<Rightarrow> 'm deferred option"

definition schedule_of :: "'m deferred_set \<Rightarrow> 'm schedule" where
  "schedule_of s = \<lparr>sch_cap = ds_cap s, sch_next = ds_next_id s, sch_map = (\<lambda>i. deferred_get i s)\<rparr>"

fun schedule_step :: "'m deferred_op \<Rightarrow> 'm schedule \<Rightarrow> 'm schedule" where
  "schedule_step (DPark sender m t) S =
     (if (\<exists>cap. sch_cap S = Some cap \<and> cap \<le> card (dom (sch_map S))) then S
      else S\<lparr>sch_next := Suc (sch_next S),
             sch_map := (sch_map S)(sch_next S \<mapsto>
               \<lparr>d_id = sch_next S, d_sender = sender, d_release_at = t, d_message = m\<rparr>)\<rparr>)"
| "schedule_step (DRelease now) S =
     S\<lparr>sch_map := (\<lambda>i. case sch_map S i of
                          None \<Rightarrow> None | Some e \<Rightarrow> if d_release_at e \<le> now then None else Some e)\<rparr>"
| "schedule_step (DCancel i) S = S\<lparr>sch_map := (sch_map S)(i := None)\<rparr>"
| "schedule_step (DEdit i m t) S =
     S\<lparr>sch_map := (sch_map S)(i := map_option (edited m t) (sch_map S i))\<rparr>"
| "schedule_step (DSetCap cap) S = S\<lparr>sch_cap := cap\<rparr>"

lemma deferred_step_wf:
  assumes "deferred_wf s" and "deferred_step s op = Ret (s', out)"
  shows "deferred_wf s'"
proof (cases op)
  case (DPark sender m t)
  then show ?thesis using assms deferred_wf_park [of s sender m t] by (auto split: prod.splits sum.splits)
next
  case (DRelease now)
  then show ?thesis using assms deferred_wf_release_due [of s now] by (auto split: prod.splits)
next
  case (DCancel i)
  then show ?thesis using assms deferred_wf_cancel [of s i] by (auto split: prod.splits)
next
  case (DEdit i m t)
  then show ?thesis using assms deferred_wf_edit [of s i m t] by (auto split: prod.splits)
next
  case (DSetCap cap)
  then show ?thesis using assms deferred_wf_set_cap [of s cap] by auto
qed

interpretation deferred_sys: total_system deferred_step deferred_wf
proof
  fix s :: "'m deferred_set" and op s' out
  assume "deferred_wf s"
  then show "deferred_step s op = Ret (s', out) \<Longrightarrow> deferred_wf s'" by (rule deferred_step_wf)
  show "returns (deferred_step s op)" by (cases op) (auto split: prod.splits sum.splits)
qed

lemma deferred_get_eqI:
  assumes "deferred_wf s"
    and "\<And>e. m = Some e \<Longrightarrow> e \<in> set (ds_entries s) \<and> d_id e = i"
    and "m = None \<Longrightarrow> i \<notin> d_id ` set (ds_entries s)"
  shows "deferred_get i s = m"
proof (cases m)
  case None
  then show ?thesis using assms(3) by (simp add: deferred_get_None)
next
  case (Some e)
  then show ?thesis using assms(2) by (simp add: deferred_get_iff [OF assms(1)])
qed

lemma dom_schedule: "dom (\<lambda>i. deferred_get i s) = d_id ` set (ds_entries s)"
  by (simp add: set_eq_iff domIff deferred_get_None)

lemma card_schedule: "deferred_wf s \<Longrightarrow> card (dom (\<lambda>i. deferred_get i s)) = length (ds_entries s)"
  unfolding dom_schedule deferred_wf_def by (metis distinct_card length_map list.set_map)

lemma schedule_park_step:
  assumes "deferred_wf s" and "deferred_step s (DPark sender m t) = Ret (s', out)"
  shows "schedule_of s' = schedule_step (DPark sender m t) (schedule_of s)"
proof (cases "deferred_room s")
  case True
  let ?e = "\<lparr>d_id = ds_next_id s, d_sender = sender, d_release_at = t, d_message = m\<rparr>"
  from deferred_park_accepted [OF assms(1) True, of sender m t] obtain es where
    p: "deferred_park sender m t s = (s\<lparr>ds_next_id := Suc (ds_next_id s), ds_entries := es\<rparr>, Inr (ds_next_id s))"
    and ms: "mset es = add_mset ?e (mset (ds_entries s))" by metis
  have s': "s' = s\<lparr>ds_next_id := Suc (ds_next_id s), ds_entries := es\<rparr>" using assms(2) p by simp
  have set: "set es = insert ?e (set (ds_entries s))" using arg_cong [OF ms, of set_mset] by simp
  have wf': "deferred_wf s'" by (rule deferred_step_wf [OF assms])
  have "deferred_get i s' = ((\<lambda>i. deferred_get i s)(ds_next_id s \<mapsto> ?e)) i" for i
    by (rule deferred_get_eqI [OF wf'])
      (use s' set in \<open>auto split: if_splits simp: deferred_get_iff [OF assms(1)] deferred_get_None\<close>)
  then have "(\<lambda>i. deferred_get i s') = (\<lambda>i. deferred_get i s)(ds_next_id s \<mapsto> ?e)" by (rule ext)
  then show ?thesis using True s'
    by (auto simp: schedule_of_def card_schedule [OF assms(1)] deferred_room_def split: option.splits)
next
  case False
  then have "s' = s" using assms(2)
    by (auto simp: deferred_room_def deferred_park_def split: option.splits)
  then show ?thesis using False
    by (auto simp: schedule_of_def card_schedule [OF assms(1)] deferred_room_def split: option.splits)
qed

lemma schedule_edit_step:
  assumes "deferred_wf s" and "deferred_step s (DEdit i m t) = Ret (s', out)"
  shows "schedule_of s' = schedule_step (DEdit i m t) (schedule_of s)"
proof (cases "deferred_get i s")
  case None
  then have "s' = s" using assms(2) by (simp add: deferred_edit_missing)
  moreover have "(\<lambda>i. deferred_get i s)(i := None) = (\<lambda>i. deferred_get i s)"
    using None by auto
  ultimately show ?thesis using None by (simp add: schedule_of_def)
next
  case (Some e)
  from deferred_edit_found [OF assms(1) Some, of m t] obtain es rest where
    *: "deferred_edit i m t s = (s\<lparr>ds_entries := es\<rparr>, Inr ())"
      "mset (ds_entries s) = add_mset e rest" "mset es = add_mset (edited m t e) rest" by metis
  have s': "s' = s\<lparr>ds_entries := es\<rparr>" using assms(2) * by simp
  have e: "d_id e = i" using Some deferred_get_iff [OF assms(1)] by blast
  have set: "set (ds_entries s) = insert e (set_mset rest)" "set es = insert (edited m t e) (set_mset rest)"
    using arg_cong [OF *(2), of set_mset] arg_cong [OF *(3), of set_mset] by simp_all
  have wf': "deferred_wf s'" by (rule deferred_step_wf [OF assms])
  have "deferred_get j s' = ((\<lambda>i. deferred_get i s)(i \<mapsto> edited m t e)) j" for j
    by (rule deferred_get_eqI [OF wf'])
      (use s' set e in \<open>auto split: if_splits simp: deferred_get_iff [OF assms(1)] deferred_get_None\<close>)
  then have "(\<lambda>i. deferred_get i s') = (\<lambda>i. deferred_get i s)(i \<mapsto> edited m t e)" by (rule ext)
  then show ?thesis using Some s' by (simp add: schedule_of_def)
qed

lemma schedule_filter:
  assumes "deferred_wf s"
  shows "deferred_get i (s\<lparr>ds_entries := filter P (ds_entries s)\<rparr>) =
    (case deferred_get i s of None \<Rightarrow> None | Some e \<Rightarrow> if P e then Some e else None)"
proof (rule deferred_get_eqI [OF deferred_wf_filter [OF assms]])
  fix e assume "(case deferred_get i s of None \<Rightarrow> None | Some e \<Rightarrow> if P e then Some e else None) = Some e"
  then show "e \<in> set (ds_entries (s\<lparr>ds_entries := filter P (ds_entries s)\<rparr>)) \<and> d_id e = i"
    by (auto split: option.splits if_splits simp: deferred_get_iff [OF assms])
next
  assume n: "(case deferred_get i s of None \<Rightarrow> None | Some e \<Rightarrow> if P e then Some e else None) = None"
  have "\<not> P e" if "e \<in> set (ds_entries s)" "d_id e = i" for e
  proof -
    have "deferred_get i s = Some e" using that by (simp add: deferred_get_iff [OF assms])
    then show ?thesis using n by (simp split: if_splits)
  qed
  then show "i \<notin> d_id ` set (ds_entries (s\<lparr>ds_entries := filter P (ds_entries s)\<rparr>))" by auto
qed

text \<open>C15. Every operation of the deferred set, on every branch, is the corresponding operation on
  the schedule: a finite map from ids to entries. A park adds exactly the new entry under the next id
  unless the cap is reached, in which case nothing changes and nothing already parked is evicted; a
  release removes exactly the due entries; a cancel or an edit touches the named entry and nothing
  else, and an edit keeps the id and the sender; a cap change touches no entry. No operation
  panics.\<close>

theorem deferred_refines_schedule:
  assumes "deferred_wf s"
  shows "\<exists>s' out. deferred_step s op = Ret (s', out) \<and>
           schedule_of s' = schedule_step op (schedule_of s) \<and> deferred_wf s'"
proof -
  from deferred_sys.step_returns [OF assms] obtain s' out where st: "deferred_step s op = Ret (s', out)"
    by (metis returnsE surj_pair)
  have "schedule_of s' = schedule_step op (schedule_of s)"
  proof (cases op)
    case (DRelease now)
    then have "s' = s\<lparr>ds_entries := filter (\<lambda>e. now < d_release_at e) (ds_entries s)\<rparr>"
      using st by (simp add: deferred_release_due_eq [OF assms])
    then show ?thesis using DRelease
      by (auto simp: schedule_of_def schedule_filter [OF assms] split: option.splits)
  next
    case (DCancel i)
    then have "s' = s\<lparr>ds_entries := filter (\<lambda>e. d_id e \<noteq> i) (ds_entries s)\<rparr>"
      using st by (simp add: deferred_cancel_eq [OF assms])
    moreover have "deferred_get j s' = ((\<lambda>i. deferred_get i s)(i := None)) j" for j
      unfolding calculation schedule_filter [OF assms]
      by (cases "deferred_get j s") (auto simp: deferred_get_id)
    then have "(\<lambda>i. deferred_get i s') = (\<lambda>i. deferred_get i s)(i := None)" by (rule ext)
    ultimately show ?thesis using DCancel by (simp add: schedule_of_def)
  next
    case (DSetCap cap)
    then show ?thesis using st by (auto simp: schedule_of_def deferred_set_cap_def deferred_get_def)
  qed (use st schedule_park_step [OF assms] schedule_edit_step [OF assms] in auto)
  then show ?thesis using st deferred_step_wf [OF assms st] by blast
qed

theorem deferred_refines_schedule_witness:
  "\<exists>s' out. deferred_step (fst (deferred_park ''a'' (7::nat) 30 (deferred_new (Some 1)))) (DEdit 1 (Some 8) (Some 10))
       = Ret (s', out) \<and>
     schedule_of s' = schedule_step (DEdit 1 (Some 8) (Some 10))
       (schedule_of (fst (deferred_park ''a'' (7::nat) 30 (deferred_new (Some 1))))) \<and> deferred_wf s'"
  by (rule deferred_refines_schedule) (intro wf_intros)

lemma sorted_keys_strict:
  assumes "deferred_wf s"
  shows "sorted_wrt (<) (map d_key (filter P (ds_entries s)))"
proof -
  have d: "distinct (map d_id (filter P (ds_entries s)))" and so: "sorted (map d_key (filter P (ds_entries s)))"
    using deferred_wf_filter [OF assms, of P] by (simp_all add: deferred_wf_def)
  have "map d_id (filter P (ds_entries s)) = map snd (map d_key (filter P (ds_entries s)))"
    by (simp add: d_key_def)
  then have "distinct (map snd (map d_key (filter P (ds_entries s))))" using d by argo
  then have "distinct (map d_key (filter P (ds_entries s)))" unfolding distinct_map by blast
  then show ?thesis using so by (simp add: strict_sorted_iff)
qed

text \<open>A release is exact and orderly: what comes out is strictly ascending in release time and,
  within one release time, in the order of parking (ids); it is exactly the entries due at \<open>now\<close>;
  what stays is exactly the later ones, and the next wake-up deadline is past \<open>now\<close>. Something comes
  out if and only if the deadline announced before had been reached.\<close>

lemma deferred_release_exact:
  assumes "deferred_wf s" and "deferred_release_due now s = (s', out)"
  shows "sorted_wrt (<) (map d_key out) \<and>
         set out = {e \<in> set (ds_entries s). d_release_at e \<le> now} \<and>
         set (ds_entries s') = {e \<in> set (ds_entries s). now < d_release_at e} \<and>
         (\<forall>t. deferred_next_release s' = Some t \<longrightarrow> now < t) \<and>
         (out \<noteq> [] \<longleftrightarrow> (\<exists>t. deferred_next_release s = Some t \<and> t \<le> now))"
proof -
  have r: "s' = fst (deferred_release_due now s)" "out = snd (deferred_release_due now s)"
    using assms(2) by simp_all
  have o: "sorted_wrt (<) (map d_key out)"
    unfolding r deferred_release_due_eq [OF assms(1)] snd_conv by (rule sorted_keys_strict [OF assms(1)])
  have d: "\<forall>t. deferred_next_release s' = Some t \<longrightarrow> now < t"
    unfolding r using parked.deadline_moves_past [OF assms(1), of now] by blast
  have w: "out \<noteq> [] \<longleftrightarrow> (\<exists>t. deferred_next_release s = Some t \<and> t \<le> now)"
    unfolding r by (rule parked.due_iff_deadline [OF assms(1)])
  have "set out = {e \<in> set (ds_entries s). d_release_at e \<le> now}"
    "set (ds_entries s') = {e \<in> set (ds_entries s). now < d_release_at e}"
    unfolding r deferred_release_due_eq [OF assms(1)] by simp_all
  then show ?thesis using o d w by blast
qed

definition two_parked :: "nat deferred_set" where
  "two_parked = fst (deferred_park ''b'' 2 20 (fst (deferred_park ''a'' 1 20 (deferred_new None))))"

lemma two_parked_wf: "deferred_wf two_parked"
  unfolding two_parked_def by (intro wf_intros)

lemma deferred_release_exact_example:
  "snd (deferred_release_due 25 two_parked) \<noteq> [] \<and>
   map d_message (snd (deferred_release_due 25 two_parked)) = [1, 2] \<and>
   sorted_wrt (<) (map d_key (snd (deferred_release_due 25 two_parked)))"
proof -
  let ?r = "deferred_release_due 25 two_parked"
  have m: "map d_message (snd ?r) = [1, 2]" by code_simp
  have "sorted_wrt (<) (map d_key (snd ?r))"
    using deferred_release_exact [OF two_parked_wf, of 25 "fst ?r" "snd ?r"] by simp
  then show ?thesis using m by auto
qed

fun parked_ids :: "'m deferred_out list \<Rightarrow> nat list" where
  "parked_ids [] = []"
| "parked_ids (Parked i # outs) = i # parked_ids outs"
| "parked_ids (_ # outs) = parked_ids outs"

fun gone_ids :: "'m deferred_out list \<Rightarrow> nat list" where
  "gone_ids [] = []"
| "gone_ids (Gone es # outs) = map d_id es @ gone_ids outs"
| "gone_ids (_ # outs) = gone_ids outs"

lemma deferred_cancel_conserves:
  "mset (ds_entries s) = mset (case snd (deferred_cancel i s) of None \<Rightarrow> [] | Some e \<Rightarrow> [e]) +
     mset (ds_entries (fst (deferred_cancel i s))) \<and>
   ds_next_id (fst (deferred_cancel i s)) = ds_next_id s"
proof (cases "position (\<lambda>e. d_id e = i) (ds_entries s)")
  case None
  then show ?thesis by (simp add: deferred_cancel_def)
next
  case (Some at)
  then obtain ys x zs where "ds_entries s = ys @ x # zs" "at = length ys"
    using position_Some_split [OF Some] by auto
  then show ?thesis using Some by (simp add: deferred_cancel_def remove_at_split)
qed

lemma deferred_step_ids:
  assumes "deferred_wf s" and "deferred_step s op = Ret (s', out)"
  shows "mset (map d_id (ds_entries s)) + mset (parked_ids [out]) =
           mset (gone_ids [out]) + mset (map d_id (ds_entries s')) \<and>
         ds_next_id s \<le> ds_next_id s' \<and>
         parked_ids [out] = [ds_next_id s..<ds_next_id s']"
proof (cases op)
  case (DPark sender m t)
  show ?thesis
  proof (cases "deferred_room s")
    case True
    from deferred_park_accepted [OF assms(1) this, of sender m t] obtain es where
      "deferred_park sender m t s = (s\<lparr>ds_next_id := Suc (ds_next_id s), ds_entries := es\<rparr>, Inr (ds_next_id s))"
      "mset es = add_mset \<lparr>d_id = ds_next_id s, d_sender = sender, d_release_at = t, d_message = m\<rparr>
         (mset (ds_entries s))" by metis
    then show ?thesis using assms(2) DPark by auto
  next
    case False
    then show ?thesis using assms(2) DPark
      by (auto simp: deferred_room_def deferred_park_def split: option.splits)
  qed
next
  case (DRelease now)
  let ?r = "deferred_release_due now s"
  have r: "s' = fst ?r" "out = Gone (snd ?r)" using assms(2) DRelease by (auto simp: split_beta)
  have "mset (map d_id (ds_entries s)) = mset (map d_id (snd ?r)) + mset (map d_id (ds_entries (fst ?r)))"
    by (subst parked.take_splits [OF assms(1), of now]) simp
  then show ?thesis unfolding r by (simp add: deferred_release_due_def Let_def)
next
  case (DCancel i)
  then show ?thesis using assms(2) deferred_cancel_conserves [of s i]
    by (auto simp: split_beta split: option.splits)
next
  case (DEdit i m t)
  show ?thesis
  proof (cases "deferred_get i s")
    case None
    then show ?thesis using assms(2) DEdit by (auto simp: deferred_edit_missing)
  next
    case (Some e)
    from deferred_edit_found [OF assms(1) Some, of m t] obtain es rest where
      "deferred_edit i m t s = (s\<lparr>ds_entries := es\<rparr>, Inr ())"
      "mset (ds_entries s) = add_mset e rest" "mset es = add_mset (edited m t e) rest" by metis
    then show ?thesis using assms(2) DEdit by auto
  qed
next
  case (DSetCap cap)
  then show ?thesis using assms(2) by (auto simp: deferred_set_cap_def)
qed

lemma out_ids_Cons:
  "parked_ids (out # outs) = parked_ids [out] @ parked_ids outs"
  "gone_ids (out # outs) = gone_ids [out] @ gone_ids outs"
  by (cases out; simp)+

lemma deferred_run_ids:
  "deferred_wf s \<Longrightarrow> run deferred_step s ops = Ret (t, outs) \<Longrightarrow>
     mset (map d_id (ds_entries s)) + mset (parked_ids outs) =
       mset (gone_ids outs) + mset (map d_id (ds_entries t)) \<and>
     ds_next_id s \<le> ds_next_id t \<and> parked_ids outs = [ds_next_id s..<ds_next_id t]"
proof (induction ops arbitrary: s outs)
  case (Cons op ops)
  from Cons.prems(2) obtain s' out outs' where st: "deferred_step s op = Ret (s', out)"
    and rest: "run deferred_step s' ops = Ret (t, outs')" and o: "outs = out # outs'"
    by (rule run_ConsE)
  note one = deferred_step_ids [OF Cons.prems(1) st]
  note more = Cons.IH [OF deferred_step_wf [OF Cons.prems(1) st] rest]
  have le: "ds_next_id s \<le> ds_next_id s'" "ds_next_id s' \<le> ds_next_id t"
    using one more by blast+
  have "parked_ids outs = [ds_next_id s..<ds_next_id s'] @ [ds_next_id s'..<ds_next_id t]"
    unfolding o out_ids_Cons(1) [of out outs'] using one more by metis
  also have "\<dots> = [ds_next_id s..<ds_next_id t]" using le by (metis le_add_diff_inverse upt_add_eq_append)
  finally have p: "parked_ids outs = [ds_next_id s..<ds_next_id t]" .
  have "mset (map d_id (ds_entries s)) + mset (parked_ids outs) =
      mset (gone_ids [out]) + (mset (map d_id (ds_entries s')) + mset (parked_ids outs'))"
    unfolding o out_ids_Cons(1) [of out outs'] mset_append
    by (simp only: one [THEN conjunct1] add.assoc [symmetric])
  also have "\<dots> = mset (gone_ids outs) + mset (map d_id (ds_entries t))"
    unfolding o out_ids_Cons(2) [of out outs'] mset_append
    by (simp only: more [THEN conjunct1] add.assoc)
  finally show ?case using p le le_trans by blast
qed auto

text \<open>C27. Scheduled work is conserved over any sequence of operations on a fresh set: the sequence
  never panics; the ids handed out are 1, 2, 3, ... in order, so none is reused; and every id handed
  out is accounted for exactly once, as an entry that left (released or cancelled) or as one still
  parked.\<close>

theorem deferred_conservation:
  "\<exists>s outs. run deferred_step (deferred_new cap) ops = Ret (s, outs) \<and>
     parked_ids outs = [1..<ds_next_id s] \<and>
     mset (parked_ids outs) = mset (gone_ids outs) + mset (map d_id (ds_entries s)) \<and>
     distinct (gone_ids outs @ map d_id (ds_entries s))"
proof -
  have wf: "deferred_wf (deferred_new cap)" by (rule deferred_wf_new)
  from deferred_sys.run_returns [OF wf] obtain s outs where
    r: "run deferred_step (deferred_new cap) ops = Ret (s, outs)" by (metis returnsE surj_pair)
  have n: "ds_next_id (deferred_new cap) = 1" "ds_entries (deferred_new cap) = []"
    by (simp_all add: deferred_new_def)
  note ids = deferred_run_ids [OF wf r, unfolded n]
  then have p: "parked_ids outs = [1..<ds_next_id s]" by blast
  from ids have m: "mset (parked_ids outs) = mset (gone_ids outs @ map d_id (ds_entries s))"
    unfolding mset_append list.map mset.simps(1) add_0_left by blast
  have "distinct (gone_ids outs @ map d_id (ds_entries s))"
    using mset_eq_imp_distinct_iff [OF m] p by simp
  then show ?thesis using r p m unfolding mset_append by blast
qed

end
