(* ===== verification/Ring_Core.thy ===== *)
theory Ring_Core
  imports Cursor Deferred
begin

text \<open>
  One non-durable channel, \<^verbatim>\<open>brenn-queue/src/store.rs\<close>: the retained ring, one cursor per
  subscriber and the deferred set composed. The lemmas show that the composition keeps every part's
  invariant, that a release reports what a sequence of appends would, and that the two ways a lost
  message is accounted for, the eviction report and the charge of an advance, never overlap and leave
  nothing out.
\<close>

section \<open>Data and operations\<close>

record 's cursor_overflow =
  co_subscriber :: 's
  co_evicted :: nat

record 's append_report =
  ar_seq :: nat
  ar_overflow :: "'s cursor_overflow list"

record ('m, 's) release_report =
  rl_released :: "'m retained list"
  rl_overflow :: "'s cursor_overflow list"

datatype attached = Created | Existing

datatype 'm owned_deferred =
    Owned nat "'m deferred"
  | WrongSender string
  | PastCutoff nat
  | NotFound

fun merge_one :: "'s cursor_overflow list \<Rightarrow> 's cursor_overflow \<Rightarrow> 's cursor_overflow list" where
  "merge_one [] event = [event]"
| "merge_one (e # into) event =
     (if co_subscriber e = co_subscriber event
      then e\<lparr>co_evicted := co_evicted e + co_evicted event\<rparr> # into
      else e # merge_one into event)"

definition merge_overflow ::
  "'s cursor_overflow list \<Rightarrow> 's cursor_overflow list \<Rightarrow> 's cursor_overflow list" where
  "merge_overflow into events = foldl merge_one into events"

record ('m, 'e, 's) ring_core =
  rc_ring :: "('m, 'e) retained_ring"
  rc_deferred :: "'m deferred_set"
  rc_cursors :: "('s \<times> subscriber_cursor) list"

definition core_new :: "'e \<Rightarrow> nat \<Rightarrow> ('m, 'e, 's) ring_core" where
  "core_new epoch depth =
     \<lparr>rc_ring = ring_new epoch depth, rc_deferred = deferred_new (Some depth), rc_cursors = []\<rparr>"

fun overflow_loop :: "('m, 'e) retained_ring \<Rightarrow> nat \<Rightarrow> ('s \<times> subscriber_cursor) list \<Rightarrow>
    's cursor_overflow list \<Rightarrow> 's cursor_overflow list" where
  "overflow_loop r frontier [] overflow = overflow"
| "overflow_loop r frontier ((subscriber, cursor) # rest) overflow =
     (let evicted = cursor_evicted_since cursor r frontier
      in overflow_loop r frontier rest
           (if evicted > 0 then overflow @ [\<lparr>co_subscriber = subscriber, co_evicted = evicted\<rparr>]
            else overflow))"

definition core_overflow_since :: "nat \<Rightarrow> ('m, 'e, 's) ring_core \<Rightarrow> 's cursor_overflow list" where
  "core_overflow_since frontier c = overflow_loop (rc_ring c) frontier (rc_cursors c) []"

definition core_set_depth ::
  "nat \<Rightarrow> ('m, 'e, 's) ring_core \<Rightarrow> ('m, 'e, 's) ring_core \<times> 's cursor_overflow list" where
  "core_set_depth depth c =
     (let frontier = retention_frontier (rc_ring c);
          c1 = c\<lparr>rc_ring := ring_set_depth depth (rc_ring c)\<rparr>;
          c2 = c1\<lparr>rc_deferred := deferred_set_cap (Some depth) (rc_deferred c1)\<rparr>
      in (c2, core_overflow_since frontier c2))"

definition core_append ::
  "'m \<Rightarrow> ('m, 'e, 's) ring_core \<Rightarrow> ('m, 'e, 's) ring_core \<times> 's append_report" where
  "core_append msg c =
     (let frontier = retention_frontier (rc_ring c);
          (r, appended) = ring_append msg (rc_ring c);
          c1 = c\<lparr>rc_ring := r\<rparr>
      in if ap_evicted appended = 0 then (c1, \<lparr>ar_seq = ap_seq appended, ar_overflow = []\<rparr>)
         else (c1, \<lparr>ar_seq = ap_seq appended, ar_overflow = core_overflow_since frontier c1\<rparr>))"

definition core_attach :: "'s \<Rightarrow> nat \<Rightarrow> ('m, 'e, 's) ring_core \<Rightarrow> ('m, 'e, 's) ring_core \<times> attached" where
  "core_attach subscriber push_depth c =
     (if push_depth = 0
      then (c\<lparr>rc_cursors := AList.delete subscriber (rc_cursors c)\<rparr>, Existing)
      else case map_of (rc_cursors c) subscriber of
             Some cursor \<Rightarrow>
               (c\<lparr>rc_cursors := AList.update subscriber (cursor_set_push_depth push_depth cursor)
                                 (rc_cursors c)\<rparr>, Existing)
           | None \<Rightarrow>
               (c\<lparr>rc_cursors := AList.update subscriber (cursor_primed (rc_ring c) push_depth)
                                 (rc_cursors c)\<rparr>, Created))"

definition core_attach_from ::
  "'s \<Rightarrow> nat \<Rightarrow> nat \<Rightarrow> ('m, 'e, 's) ring_core \<Rightarrow> (('m, 'e, 's) ring_core \<times> attached) exec" where
  "core_attach_from subscriber push_depth floor_next_owed c =
     (if \<not> push_depth > 0 then Panic
      else if \<not> floor_next_owed \<le> ring_newest_seq (rc_ring c) + 1 then Panic
      else case map_of (rc_cursors c) subscriber of
             Some cursor \<Rightarrow>
               Ret (c\<lparr>rc_cursors := AList.update subscriber (cursor_set_push_depth push_depth cursor)
                                     (rc_cursors c)\<rparr>, Existing)
           | None \<Rightarrow>
               Ret (c\<lparr>rc_cursors := AList.update subscriber
                                     (cursor_primed_at_least (rc_ring c) push_depth floor_next_owed)
                                     (rc_cursors c)\<rparr>, Created))"

definition core_detach ::
  "'s \<Rightarrow> ('m, 'e, 's) ring_core \<Rightarrow> ('m, 'e, 's) ring_core \<times> subscriber_cursor option" where
  "core_detach subscriber c =
     (c\<lparr>rc_cursors := AList.delete subscriber (rc_cursors c)\<rparr>, map_of (rc_cursors c) subscriber)"

definition core_is_attached :: "'s \<Rightarrow> ('m, 'e, 's) ring_core \<Rightarrow> bool" where
  "core_is_attached subscriber c \<longleftrightarrow> map_of (rc_cursors c) subscriber \<noteq> None"

definition core_has_deliverable :: "'s \<Rightarrow> ('m, 'e, 's) ring_core \<Rightarrow> bool" where
  "core_has_deliverable subscriber c =
     (case map_of (rc_cursors c) subscriber of
        None \<Rightarrow> False
      | Some cursor \<Rightarrow> cursor_has_deliverable cursor (rc_ring c))"

definition core_window ::
  "'s \<Rightarrow> nat \<Rightarrow> nat \<Rightarrow> ('m, 'e, 's) ring_core \<Rightarrow> ('m, 'e, 's) ring_core \<times> 'm window option" where
  "core_window subscriber push_limit retain_limit c =
     (case map_of (rc_cursors c) subscriber of
        None \<Rightarrow>
          if push_limit > 0 then (c, None)
          else let entries = ring_tail retain_limit (rc_ring c)
               in (c, Some \<lparr>w_entries = entries, w_new_from = length entries, w_push_enabled = False\<rparr>)
      | Some cursor \<Rightarrow>
          let cursor' = (if push_limit > 0 then cursor_set_push_depth push_limit cursor else cursor)
          in (c\<lparr>rc_cursors := AList.update subscriber cursor' (rc_cursors c)\<rparr>,
              Some (cursor_window cursor' (rc_ring c) push_limit retain_limit)))"

definition core_advance ::
  "'s \<Rightarrow> nat \<Rightarrow> nat \<Rightarrow> ('m, 'e, 's) ring_core \<Rightarrow> (('m, 'e, 's) ring_core \<times> advance option) exec" where
  "core_advance subscriber through seen_floor c =
     (case map_of (rc_cursors c) subscriber of
        None \<Rightarrow> Ret (c, None)
      | Some cursor \<Rightarrow>
          exec_map (\<lambda>(cursor', adv).
              (c\<lparr>rc_cursors := AList.update subscriber cursor' (rc_cursors c)\<rparr>, Some adv))
            (cursor_advance cursor (rc_ring c) through seen_floor))"

definition core_park ::
  "string \<Rightarrow> 'm \<Rightarrow> nat \<Rightarrow> ('m, 'e, 's) ring_core \<Rightarrow> ('m, 'e, 's) ring_core \<times> (nat + nat)" where
  "core_park sender msg release_at c =
     (let (d, res) = deferred_park sender msg release_at (rc_deferred c)
      in (c\<lparr>rc_deferred := d\<rparr>, res))"

definition core_next_release :: "('m, 'e, 's) ring_core \<Rightarrow> nat option" where
  "core_next_release c = deferred_next_release (rc_deferred c)"

fun release_loop :: "'m deferred list \<Rightarrow> ('m, 'e, 's) ring_core \<Rightarrow> 'm retained list \<Rightarrow>
    's cursor_overflow list \<Rightarrow> ('m, 'e, 's) ring_core \<times> ('m, 's) release_report" where
  "release_loop [] c released overflow = (c, \<lparr>rl_released = released, rl_overflow = overflow\<rparr>)"
| "release_loop (entry # due) c released overflow =
     (let (c', report) = core_append (d_message entry) c
      in release_loop due c'
           (released @ [\<lparr>r_seq = ar_seq report, r_message = d_message entry\<rparr>])
           (merge_overflow overflow (ar_overflow report)))"

definition core_release_due ::
  "nat \<Rightarrow> ('m, 'e, 's) ring_core \<Rightarrow> ('m, 'e, 's) ring_core \<times> ('m, 's) release_report" where
  "core_release_due now c =
     (let (d, due) = deferred_release_due now (rc_deferred c)
      in release_loop due (c\<lparr>rc_deferred := d\<rparr>) [] [])"

definition core_deferred_for_sender :: "string \<Rightarrow> ('m, 'e, 's) ring_core \<Rightarrow> 'm deferred list" where
  "core_deferred_for_sender sender c = deferred_for_sender sender (rc_deferred c)"

definition core_deferred_at :: "nat \<Rightarrow> ('m, 'e, 's) ring_core \<Rightarrow> 'm deferred list" where
  "core_deferred_at now c = filter (\<lambda>e. d_release_at e > now) (ds_entries (rc_deferred c))"

definition core_deferred_len :: "('m, 'e, 's) ring_core \<Rightarrow> nat" where
  "core_deferred_len c = deferred_len (rc_deferred c)"

definition core_owned_deferred ::
  "string \<Rightarrow> ('m \<Rightarrow> bool) \<Rightarrow> nat \<Rightarrow> ('m, 'e, 's) ring_core \<Rightarrow> 'm owned_deferred" where
  "core_owned_deferred sender matches cutoff c =
     (case find (\<lambda>e. matches (d_message e)) (ds_entries (rc_deferred c)) of
        None \<Rightarrow> NotFound
      | Some entry \<Rightarrow>
          if d_sender entry \<noteq> sender then WrongSender (d_sender entry)
          else if d_release_at entry \<le> cutoff then PastCutoff (d_release_at entry)
          else Owned (d_id entry) entry)"

definition core_deferred_entry :: "nat \<Rightarrow> ('m, 'e, 's) ring_core \<Rightarrow> 'm deferred option" where
  "core_deferred_entry i c = deferred_get i (rc_deferred c)"

definition core_cancel_deferred ::
  "nat \<Rightarrow> ('m, 'e, 's) ring_core \<Rightarrow> ('m, 'e, 's) ring_core \<times> 'm deferred option" where
  "core_cancel_deferred i c =
     (let (d, res) = deferred_cancel i (rc_deferred c) in (c\<lparr>rc_deferred := d\<rparr>, res))"

definition core_edit_deferred ::
  "nat \<Rightarrow> 'm option \<Rightarrow> nat option \<Rightarrow> ('m, 'e, 's) ring_core \<Rightarrow> ('m, 'e, 's) ring_core \<times> (nat + unit)" where
  "core_edit_deferred i msg release_at c =
     (let (d, res) = deferred_edit i msg release_at (rc_deferred c) in (c\<lparr>rc_deferred := d\<rparr>, res))"

section \<open>The invariant\<close>

text \<open>Every part is well formed, every held position is push-enabled (a sampled subscriber holds
  none) and none is past the next number the ring will assign.\<close>

definition core_wf :: "('m, 'e, 's) ring_core \<Rightarrow> bool" where
  "core_wf c \<longleftrightarrow>
     ring_wf (rc_ring c) \<and> deferred_wf (rc_deferred c) \<and> hm_ok (rc_cursors c) \<and>
     (\<forall>s cu. map_of (rc_cursors c) s = Some cu \<longrightarrow>
        0 < sc_push_depth cu \<and> sc_next_owed cu \<le> rr_next_seq (rc_ring c))"

lemma core_wfD [dest]:
  assumes "core_wf c"
  shows "ring_wf (rc_ring c)" "deferred_wf (rc_deferred c)" "hm_ok (rc_cursors c)"
  using assms by (simp_all add: core_wf_def)

lemma core_wf_cursorD:
  "core_wf c \<Longrightarrow> map_of (rc_cursors c) s = Some cu \<Longrightarrow>
     0 < sc_push_depth cu \<and> sc_next_owed cu \<le> rr_next_seq (rc_ring c)"
  by (simp add: core_wf_def)

lemma core_wf_new [wf_intros]: "core_wf (core_new ep d)"
  by (simp add: core_wf_def core_new_def ring_new_wf deferred_wf_new hm_ok_def)

lemma core_wf_ring:
  "core_wf c \<Longrightarrow> ring_wf r \<Longrightarrow> rr_next_seq (rc_ring c) \<le> rr_next_seq r \<Longrightarrow> core_wf (c\<lparr>rc_ring := r\<rparr>)"
  by (fastforce simp: core_wf_def)

lemma core_wf_deferred: "core_wf c \<Longrightarrow> deferred_wf d \<Longrightarrow> core_wf (c\<lparr>rc_deferred := d\<rparr>)"
  by (simp add: core_wf_def)

lemma core_wf_put:
  "core_wf c \<Longrightarrow> 0 < sc_push_depth cu \<Longrightarrow> sc_next_owed cu \<le> rr_next_seq (rc_ring c) \<Longrightarrow>
     core_wf (c\<lparr>rc_cursors := AList.update s cu (rc_cursors c)\<rparr>)"
  by (auto simp: core_wf_def hm.ok_put hm.get_put split: if_splits)

lemma core_wf_del: "core_wf c \<Longrightarrow> core_wf (c\<lparr>rc_cursors := AList.delete s (rc_cursors c)\<rparr>)"
  by (auto simp: core_wf_def hm.ok_del hm.get_del split: if_splits)

lemma core_append_state: "fst (core_append m c) = c\<lparr>rc_ring := fst (ring_append m (rc_ring c))\<rparr>"
  and core_append_seq: "ar_seq (snd (core_append m c)) = rr_next_seq (rc_ring c)"
  by (simp_all add: core_append_def Let_def split_beta)

lemma core_wf_append [wf_intros]: "core_wf c \<Longrightarrow> core_wf (fst (core_append m c))"
  unfolding core_append_state by (rule core_wf_ring) (auto intro: ring_append_wf)

lemma core_wf_set_depth [wf_intros]: "core_wf c \<Longrightarrow> core_wf (fst (core_set_depth d c))"
proof -
  assume c: "core_wf c"
  have "core_wf (c\<lparr>rc_ring := ring_set_depth d (rc_ring c)\<rparr>)"
    by (rule core_wf_ring [OF c]) (use core_wfD(1) [OF c] in \<open>auto intro: ring_set_depth_wf\<close>)
  then show ?thesis
    unfolding core_set_depth_def Let_def fst_conv
    by (rule core_wf_deferred) (use core_wfD(2) [OF c] in \<open>auto intro: deferred_wf_set_cap\<close>)
qed

lemma primed_bounds:
  assumes "ring_wf r"
  shows "sc_push_depth (cursor_primed r d) = d" "sc_next_owed (cursor_primed r d) \<le> rr_next_seq r"
    "retention_frontier r \<le> sc_next_owed (cursor_primed r d)"
  using ring_primed_from_eq [OF assms, of d] ring_wf_nextD [OF assms] retention_frontier_eq [OF assms]
  by (simp_all add: cursor_primed_def cursor_new_def ring_newest_seq_def)

lemma core_wf_attach [wf_intros]: "core_wf c \<Longrightarrow> core_wf (fst (core_attach s d c))"
  by (auto simp: core_attach_def cursor_set_push_depth_def core_wf_del
      intro!: core_wf_put dest: core_wf_cursorD split: option.splits)
    (auto simp: primed_bounds dest: core_wfD)

lemma core_wf_attach_from [wf_intros]:
  "core_wf c \<Longrightarrow> core_attach_from s d f c = Ret (c', a) \<Longrightarrow> core_wf c'"
  by (auto simp: core_attach_from_def cursor_set_push_depth_def cursor_primed_at_least_def Let_def
        ring_newest_Suc primed_bounds core_wfD
      intro!: core_wf_put dest: core_wf_cursorD split: option.splits if_splits)

lemma core_wf_window [wf_intros]: "core_wf c \<Longrightarrow> core_wf (fst (core_window s p q c))"
  by (auto simp: core_window_def cursor_set_push_depth_def Let_def
      intro!: core_wf_put dest: core_wf_cursorD split: option.splits)

lemma core_wf_advance:
  assumes "core_wf c" and "core_advance s through f c = Ret (c', a)"
    and "through \<le> ring_newest_seq (rc_ring c)"
  shows "core_wf c'"
proof (cases "map_of (rc_cursors c) s")
  case None
  then show ?thesis using assms by (simp add: core_advance_def)
next
  case (Some cu)
  then obtain cu' adv where adv: "cursor_advance cu (rc_ring c) through f = Ret (cu', adv)"
    and c': "c' = c\<lparr>rc_cursors := AList.update s cu' (rc_cursors c)\<rparr>"
    using assms(2) by (auto simp: core_advance_def exec_map_Ret_iff)
  have "cu' = (if sc_next_owed cu \<le> through then cu\<lparr>sc_next_owed := through + 1\<rparr> else cu)"
    using adv by (auto simp: cursor_advance_def Let_def split: if_splits)
  then have "0 < sc_push_depth cu' \<and> sc_next_owed cu' \<le> rr_next_seq (rc_ring c)"
    using core_wf_cursorD [OF assms(1) Some] assms(3) ring_newest_Suc [OF core_wfD(1) [OF assms(1)]]
    by auto
  then show ?thesis unfolding c' by (intro core_wf_put [OF assms(1)]) auto
qed

section \<open>Reports\<close>

text \<open>The total an overflow list charges to one subscriber, and what retention moving from an old
  frontier to the present one costs the position a subscriber holds.\<close>

definition reported_for :: "'s \<Rightarrow> 's cursor_overflow list \<Rightarrow> nat" where
  "reported_for s ov = sum_list (map co_evicted (filter (\<lambda>e. co_subscriber e = s) ov))"

definition core_charge :: "'s \<Rightarrow> nat \<Rightarrow> ('m, 'e, 's) ring_core \<Rightarrow> nat" where
  "core_charge s frontier c =
     (case map_of (rc_cursors c) s of
        None \<Rightarrow> 0
      | Some cu \<Rightarrow> retention_frontier (rc_ring c) - max (sc_next_owed cu) frontier)"

lemma reported_for_simps [simp]:
  "reported_for s [] = 0"
  "reported_for s (e # ov) = (if co_subscriber e = s then co_evicted e else 0) + reported_for s ov"
  "reported_for s (ov @ ov') = reported_for s ov + reported_for s ov'"
  by (simp_all add: reported_for_def)

lemma overflow_loop_eq:
  "overflow_loop r f cs ov = ov @ map (\<lambda>(s, cu). \<lparr>co_subscriber = s, co_evicted = cursor_evicted_since cu r f\<rparr>)
     (filter (\<lambda>(s, cu). 0 < cursor_evicted_since cu r f) cs)"
  by (induction r f cs ov rule: overflow_loop.induct) (auto simp: Let_def)

lemma reported_overflow_loop:
  "hm_ok cs \<Longrightarrow> reported_for s (overflow_loop r f cs []) =
     (case map_of cs s of None \<Rightarrow> 0 | Some cu \<Rightarrow> cursor_evicted_since cu r f)"
proof (induction cs)
  case (Cons x cs)
  obtain k cu where x: "x = (k, cu)" by (cases x)
  have ok: "hm_ok cs" and k: "k \<notin> fst ` set cs" using Cons.prems x by (simp_all add: hm_ok_def)
  have "map_of cs k = None" using k by (simp add: map_of_eq_None_iff)
  then show ?case using Cons.IH [OF ok] x by (auto simp: overflow_loop_eq)
qed simp

lemma overflow_loop_names:
  assumes "hm_ok cs"
  shows "distinct (map co_subscriber (overflow_loop r f cs []))"
proof -
  have "map co_subscriber (overflow_loop r f cs []) =
      map fst (filter (\<lambda>(s, cu). 0 < cursor_evicted_since cu r f) cs)"
    by (auto simp: overflow_loop_eq)
  then show ?thesis using assms by (simp add: hm_ok_def distinct_map_filter)
qed

lemma reported_overflow_since:
  assumes "core_wf c"
  shows "reported_for s (core_overflow_since f c) = core_charge s f c"
  using assms reported_overflow_loop [OF core_wfD(3) [OF assms], of s] core_wf_cursorD [OF assms, of s]
  by (auto simp: core_overflow_since_def core_charge_def cursor_evicted_since_def
      cursor_is_push_enabled_def split: option.splits)

lemma merge_one_names:
  "set (map co_subscriber (merge_one ov e)) = insert (co_subscriber e) (set (map co_subscriber ov))"
  by (induction ov e rule: merge_one.induct) auto

lemma merge_one_distinct:
  "distinct (map co_subscriber ov) \<Longrightarrow> distinct (map co_subscriber (merge_one ov e))"
proof (induction ov e rule: merge_one.induct)
  case (2 e into event)
  then show ?case using merge_one_names [of into event] by auto
qed simp

lemma merge_overflow_distinct:
  "distinct (map co_subscriber ov) \<Longrightarrow> distinct (map co_subscriber (merge_overflow ov ev))"
  unfolding merge_overflow_def by (induction ev arbitrary: ov) (auto simp: merge_one_distinct)

lemma reported_merge_one: "reported_for s (merge_one ov e) = reported_for s ov + reported_for s [e]"
  by (induction ov e rule: merge_one.induct) auto

lemma reported_merge [simp]:
  "reported_for s (merge_overflow ov ev) = reported_for s ov + reported_for s ev"
  unfolding merge_overflow_def
  by (induction ev arbitrary: ov) (auto simp: reported_merge_one)

lemma charge_compose:
  fixes f0 f1 f2 n :: nat
  assumes "f0 \<le> f1" "f1 \<le> f2"
  shows "(f1 - max n f0) + (f2 - max n f1) = f2 - max n f0"
  using assms by (auto simp: max_def)

text \<open>An append to a channel that retains anything at all reports exactly what it cost.\<close>

lemma reported_append:
  assumes "core_wf c" and "rr_depth (rc_ring c) \<noteq> 0"
  shows "reported_for s (ar_overflow (snd (core_append m c))) =
    core_charge s (retention_frontier (rc_ring c)) (fst (core_append m c))"
proof (cases "ap_evicted (snd (ring_append m (rc_ring c))) = 0")
  case True
  have "retention_frontier (fst (ring_append m (rc_ring c))) = retention_frontier (rc_ring c)"
    by (rule frontier_append_unchanged [OF core_wfD(1) [OF assms(1)] True assms(2)])
  then show ?thesis using True
    by (simp add: core_append_def Let_def split_beta core_charge_def split: option.split)
next
  case False
  then have "ar_overflow (snd (core_append m c)) =
      core_overflow_since (retention_frontier (rc_ring c)) (fst (core_append m c))"
    by (simp add: core_append_def Let_def split_beta)
  then show ?thesis using reported_overflow_since [OF core_wf_append [OF assms(1)]] by simp
qed

lemma core_charge_trivial: "core_charge s (retention_frontier (rc_ring c)) c = 0"
  by (simp add: core_charge_def split: option.split)

lemma core_charge_compose:
  assumes "rc_cursors c2 = rc_cursors c1"
    and "f0 \<le> retention_frontier (rc_ring c1)"
    and "retention_frontier (rc_ring c1) \<le> retention_frontier (rc_ring c2)"
  shows "core_charge s f0 c1 + core_charge s (retention_frontier (rc_ring c1)) c2 = core_charge s f0 c2"
proof (cases "map_of (rc_cursors c1) s")
  case (Some cu)
  show ?thesis unfolding core_charge_def assms(1) Some option.case by (rule charge_compose [OF assms(2,3)])
qed (simp add: core_charge_def assms(1))

text \<open>The release pass, entry by entry.\<close>

definition append_all :: "'m list \<Rightarrow> ('m, 'e) retained_ring \<Rightarrow> ('m, 'e) retained_ring" where
  "append_all ms r = foldl (\<lambda>r m. fst (ring_append m r)) r ms"

lemma append_all_simps [simp]:
  "append_all [] r = r" "append_all (m # ms) r = append_all ms (fst (ring_append m r))"
  by (simp_all add: append_all_def)

lemma append_all_ring:
  "ring_wf r \<Longrightarrow> ring_wf (append_all ms r) \<and> rr_next_seq (append_all ms r) = rr_next_seq r + length ms \<and>
     rr_depth (append_all ms r) = rr_depth r \<and> retention_frontier r \<le> retention_frontier (append_all ms r)"
proof (induction ms arbitrary: r)
  case (Cons m ms)
  from Cons.IH [OF ring_append_wf [OF Cons.prems, of m]] frontier_append_mono [OF Cons.prems, of m]
  show ?case by simp
qed simp

lemma release_loop_state:
  "fst (release_loop due c rel ov) = c\<lparr>rc_ring := append_all (map d_message due) (rc_ring c)\<rparr>"
  by (induction due arbitrary: c rel ov) (simp_all add: split_beta core_append_state)

lemma release_loop_released:
  "rl_released (snd (release_loop due c rel ov)) =
     rel @ map (\<lambda>(q, e). \<lparr>r_seq = q, r_message = d_message e\<rparr>)
             (zip [rr_next_seq (rc_ring c)..<rr_next_seq (rc_ring c) + length due] due)"
proof (induction due arbitrary: c rel ov)
  case (Cons entry due)
  show ?case
    by (simp add: split_beta Cons.IH core_append_seq core_append_state upt_conv_Cons del: upt_Suc)
qed simp

lemma numbered_zip:
  "length qs = length es \<Longrightarrow>
     map r_message (map (\<lambda>(q, e). \<lparr>r_seq = q, r_message = d_message e\<rparr>) (zip qs es)) = map d_message es"
  "length qs = length es \<Longrightarrow>
     map r_seq (map (\<lambda>(q, e). \<lparr>r_seq = q, r_message = d_message e\<rparr>) (zip qs es)) = qs"
  by (induction qs es rule: list_induct2) simp_all

lemma release_loop_names:
  "distinct (map co_subscriber ov) \<Longrightarrow>
     distinct (map co_subscriber (rl_overflow (snd (release_loop due c rel ov))))"
  by (induction due arbitrary: c rel ov) (simp_all add: split_beta merge_overflow_distinct)

lemma release_loop_reported:
  "core_wf c \<Longrightarrow> rr_depth (rc_ring c) \<noteq> 0 \<Longrightarrow>
     reported_for s (rl_overflow (snd (release_loop due c rel ov))) =
       reported_for s ov +
       core_charge s (retention_frontier (rc_ring c)) (fst (release_loop due c rel ov))"
proof (induction due arbitrary: c rel ov)
  case Nil
  then show ?case by (simp add: core_charge_trivial)
next
  case (Cons entry due)
  let ?m = "d_message entry"
  let ?c = "fst (core_append ?m c)"
  let ?fin = "fst (release_loop (entry # due) c rel ov)"
  have wf: "ring_wf (rc_ring c)" using Cons.prems(1) by auto
  have cur: "rc_cursors ?fin = rc_cursors ?c" "rc_ring ?fin = append_all (map d_message due) (rc_ring ?c)"
    by (simp_all only: release_loop_state core_append_state) simp_all
  have "retention_frontier (rc_ring c) \<le> retention_frontier (rc_ring ?c)"
    by (simp add: core_append_state frontier_append_mono [OF wf])
  moreover have "retention_frontier (rc_ring ?c) \<le> retention_frontier (rc_ring ?fin)"
    unfolding cur using append_all_ring core_wf_append [OF Cons.prems(1)] by blast
  ultimately have "core_charge s (retention_frontier (rc_ring c)) ?c +
      core_charge s (retention_frontier (rc_ring ?c)) ?fin = core_charge s (retention_frontier (rc_ring c)) ?fin"
    by (rule core_charge_compose [OF cur(1)])
  then show ?case
    using Cons.IH [OF core_wf_append [OF Cons.prems(1), of ?m]] Cons.prems(2)
      reported_append [OF Cons.prems, of s ?m]
    by (simp add: split_beta core_append_state)
qed

lemma core_release_due_eq:
  assumes "core_wf c"
  shows "core_release_due now c =
    release_loop (filter (\<lambda>e. d_release_at e \<le> now) (ds_entries (rc_deferred c)))
      (c\<lparr>rc_deferred := (rc_deferred c)\<lparr>ds_entries :=
          filter (\<lambda>e. now < d_release_at e) (ds_entries (rc_deferred c))\<rparr>\<rparr>) [] []"
  using deferred_release_due_eq [OF core_wfD(2) [OF assms], of now]
  by (simp add: core_release_due_def)

lemma core_wf_release [wf_intros]:
  assumes "core_wf c"
  shows "core_wf (fst (core_release_due now c))"
proof -
  let ?d = "(rc_deferred c)\<lparr>ds_entries := filter (\<lambda>e. now < d_release_at e) (ds_entries (rc_deferred c))\<rparr>"
  have "core_wf (c\<lparr>rc_deferred := ?d\<rparr>)"
    by (rule core_wf_deferred [OF assms]) (rule deferred_wf_filter [OF core_wfD(2) [OF assms]])
  then show ?thesis
    unfolding core_release_due_eq [OF assms] release_loop_state
    by (rule core_wf_ring) (use append_all_ring [OF core_wfD(1) [OF assms]] in simp_all)
qed

section \<open>A channel driven by its host\<close>

datatype ('m, 's) core_op =
    CAppend 'm
  | CSetDepth nat
  | CAttach 's nat
  | CAttachFrom 's nat nat
  | CDetach 's
  | CWindow 's nat nat
  | CAdvance 's nat nat
  | CPark string 'm nat
  | CRelease nat
  | CCancel nat
  | CEdit nat "'m option" "nat option"

datatype ('m, 's) core_out =
    OAppend "'s append_report"
  | OOverflow "'s cursor_overflow list"
  | OAttached attached
  | ODetached "subscriber_cursor option"
  | OWindow "'m window option"
  | OAdvance "advance option"
  | OParked "nat + nat"
  | OReleased "('m, 's) release_report"
  | OCancelled "'m deferred option"
  | OEdited "nat + unit"

fun core_step ::
  "('m, 'e, 's) ring_core \<Rightarrow> ('m, 's) core_op \<Rightarrow> (('m, 'e, 's) ring_core \<times> ('m, 's) core_out) exec" where
  "core_step c (CAppend m) = Ret (map_prod id OAppend (core_append m c))"
| "core_step c (CSetDepth d) = Ret (map_prod id OOverflow (core_set_depth d c))"
| "core_step c (CAttach s d) = Ret (map_prod id OAttached (core_attach s d c))"
| "core_step c (CAttachFrom s d f) = exec_map (map_prod id OAttached) (core_attach_from s d f c)"
| "core_step c (CDetach s) = Ret (map_prod id ODetached (core_detach s c))"
| "core_step c (CWindow s p q) = Ret (map_prod id OWindow (core_window s p q c))"
| "core_step c (CAdvance s t f) = exec_map (map_prod id OAdvance) (core_advance s t f c)"
| "core_step c (CPark sender m t) = Ret (map_prod id OParked (core_park sender m t c))"
| "core_step c (CRelease now) = Ret (map_prod id OReleased (core_release_due now c))"
| "core_step c (CCancel i) = Ret (map_prod id OCancelled (core_cancel_deferred i c))"
| "core_step c (CEdit i m t) = Ret (map_prod id OEdited (core_edit_deferred i m t c))"

text \<open>What the documented panics ask of a host: an inherited floor the ring has reached, with a push
  depth; an advance over numbers the ring has assigned, whose floor is not past its end.\<close>

fun core_legal :: "('m, 'e, 's) ring_core \<Rightarrow> ('m, 's) core_op \<Rightarrow> bool" where
  "core_legal c (CAttachFrom s d f) \<longleftrightarrow> 0 < d \<and> f \<le> rr_next_seq (rc_ring c)"
| "core_legal c (CAdvance s t f) \<longleftrightarrow> t \<le> ring_newest_seq (rc_ring c) \<and> f \<le> sat_add64 t 1"
| "core_legal c _ \<longleftrightarrow> True"

lemma core_advance_returns:
  assumes "core_wf c" and "f \<le> sat_add64 t 1"
  shows "returns (core_advance s t f c)"
  using assms core_wf_cursorD [OF assms(1), of s]
  by (auto simp: core_advance_def cursor_advance_def cursor_is_push_enabled_def Let_def split: option.splits)

lemma core_step_wf:
  assumes "core_wf c" and "core_legal c op"
  shows "\<exists>c' out. core_step c op = Ret (c', out) \<and> core_wf c'"
proof (cases op)
  case (CAttachFrom s d f)
  then have "returns (core_attach_from s d f c)"
    using assms ring_newest_Suc [OF core_wfD(1) [OF assms(1)]]
    by (auto simp: core_attach_from_def split: option.splits)
  then obtain c' a where r: "core_attach_from s d f c = Ret (c', a)" by (metis returnsE surj_pair)
  then show ?thesis using CAttachFrom core_wf_attach_from [OF assms(1) r] by simp
next
  case (CAdvance s t f)
  then obtain c' a where r: "core_advance s t f c = Ret (c', a)"
    using assms(2) core_advance_returns [OF assms(1), of f t s] by (metis core_legal.simps(2) returnsE surj_pair)
  then show ?thesis using CAdvance assms(2) core_wf_advance [OF assms(1) r] by simp
next
  case (CDetach s)
  then show ?thesis using core_wf_del [OF assms(1)] by (simp add: core_detach_def)
next
  case (CPark sender m t)
  then show ?thesis
    using core_wf_deferred [OF assms(1) deferred_wf_park [OF core_wfD(2) [OF assms(1)]]]
    by (simp add: core_park_def split_beta)
next
  case (CCancel i)
  then show ?thesis
    using core_wf_deferred [OF assms(1) deferred_wf_cancel [OF core_wfD(2) [OF assms(1)]]]
    by (simp add: core_cancel_deferred_def split_beta)
next
  case (CEdit i m t)
  then show ?thesis
    using core_wf_deferred [OF assms(1) deferred_wf_edit [OF core_wfD(2) [OF assms(1)]]]
    by (simp add: core_edit_deferred_def split_beta)
qed (use assms in \<open>simp_all add: core_wf_append core_wf_set_depth core_wf_attach core_wf_window
    core_wf_release map_prod_def split_beta\<close>)

interpretation core_sys: contract_system core_step core_wf core_legal
  by unfold_locales (rule core_step_wf)

section \<open>The two books\<close>



text \<open>What a quiet operation does from one subscriber's point of view: its position stays, the
  frontier only rises, and the report names exactly what the rise cost it.\<close>

definition quiet_effect ::
  "'s \<Rightarrow> ('m, 'e, 's) ring_core \<Rightarrow> ('m, 'e, 's) ring_core \<Rightarrow> 's cursor_overflow list \<Rightarrow> bool" where
  "quiet_effect s c c' ov \<longleftrightarrow>
     rr_depth (rc_ring c') \<noteq> 0 \<and> map_of (rc_cursors c') s = map_of (rc_cursors c) s \<and>
     retention_frontier (rc_ring c) \<le> retention_frontier (rc_ring c') \<and>
     reported_for s ov = core_charge s (retention_frontier (rc_ring c)) c'"




lemma quiet_release:
  assumes "core_wf c" and "rr_depth (rc_ring c) \<noteq> 0"
  shows "quiet_effect s c (fst (core_release_due now c)) (rl_overflow (snd (core_release_due now c)))"
proof -
  let ?d = "(rc_deferred c)\<lparr>ds_entries := filter (\<lambda>e. now < d_release_at e) (ds_entries (rc_deferred c))\<rparr>"
  have wf: "core_wf (c\<lparr>rc_deferred := ?d\<rparr>)"
    by (rule core_wf_deferred [OF assms(1)]) (rule deferred_wf_filter [OF core_wfD(2) [OF assms(1)]])
  show ?thesis
    using release_loop_reported [OF wf, of s] assms append_all_ring [OF core_wfD(1) [OF assms(1)]]
    by (simp add: quiet_effect_def core_release_due_eq release_loop_state)
qed



section \<open>Properties\<close>


definition example_core :: "(nat, unit, string) ring_core" where
  "example_core = fst (core_attach ''s'' 2 (fst (core_append 7 (core_new () 2))))"

lemma example_core_wf: "core_wf example_core"
  unfolding example_core_def by (intro wf_intros)




text \<open>C29. A release pass is a batch of appends: it empties the deferred set of exactly the due
  entries; their messages enter retention in release order under the next consecutive numbers, the
  ring being the one those appends produce and no cursor moving; and on a channel that retains
  anything, the merged report names each subscriber at most once, with exactly what the whole batch
  cost its position.\<close>

theorem core_release_is_appends:
  assumes "core_wf c" and "core_release_due now c = (c', rep)"
    and "due = filter (\<lambda>e. d_release_at e \<le> now) (ds_entries (rc_deferred c))"
  shows "rc_ring c' = append_all (map d_message due) (rc_ring c) \<and>
         rc_cursors c' = rc_cursors c \<and>
         set (ds_entries (rc_deferred c')) = set (ds_entries (rc_deferred c)) - set due \<and>
         sorted_wrt (<) (map d_key due) \<and>
         map r_message (rl_released rep) = map d_message due \<and>
         map r_seq (rl_released rep) = [rr_next_seq (rc_ring c)..<rr_next_seq (rc_ring c) + length due] \<and>
         distinct (map co_subscriber (rl_overflow rep)) \<and>
         (rr_depth (rc_ring c) \<noteq> 0 \<longrightarrow> (\<forall>s. reported_for s (rl_overflow rep) =
            core_charge s (retention_frontier (rc_ring c)) c'))"
proof -
  let ?c = "c\<lparr>rc_deferred := (rc_deferred c)\<lparr>ds_entries :=
          filter (\<lambda>e. now < d_release_at e) (ds_entries (rc_deferred c))\<rparr>\<rparr>"
  have e: "c' = fst (release_loop due ?c [] [])" "rep = snd (release_loop due ?c [] [])"
    using assms(2) unfolding core_release_due_eq [OF assms(1)] assms(3) by simp_all
  have rel: "rl_released rep = map (\<lambda>(q, e). \<lparr>r_seq = q, r_message = d_message e\<rparr>)
      (zip [rr_next_seq (rc_ring c)..<rr_next_seq (rc_ring c) + length due] due)"
    unfolding e release_loop_released by simp
  have "rr_depth (rc_ring c) \<noteq> 0 \<longrightarrow>
      (\<forall>s. reported_for s (rl_overflow rep) = core_charge s (retention_frontier (rc_ring c)) c')"
  proof (intro impI allI)
    fix s assume "rr_depth (rc_ring c) \<noteq> 0"
    from quiet_release [OF assms(1) this, of s now]
    show "reported_for s (rl_overflow rep) = core_charge s (retention_frontier (rc_ring c)) c'"
      using assms(2) by (simp add: quiet_effect_def)
  qed
  moreover have "sorted_wrt (<) (map d_key due)"
    unfolding assms(3) by (rule sorted_keys_strict [OF core_wfD(2) [OF assms(1)]])
  moreover have "distinct (map co_subscriber (rl_overflow rep))"
    unfolding e by (rule release_loop_names) simp
  moreover have "set (ds_entries (rc_deferred c')) = set (ds_entries (rc_deferred c)) - set due"
    unfolding e release_loop_state assms(3) by auto
  moreover have "map r_message (rl_released rep) = map d_message due"
    "map r_seq (rl_released rep) = [rr_next_seq (rc_ring c)..<rr_next_seq (rc_ring c) + length due]"
    unfolding rel by (rule numbered_zip, simp)+
  moreover have "rc_ring c' = append_all (map d_message due) (rc_ring c)" "rc_cursors c' = rc_cursors c"
    unfolding e release_loop_state by simp_all
  ultimately show ?thesis by blast
qed

theorem core_release_is_appends_witness:
  "let c = fst (core_park ''a'' 5 10 (fst (core_park ''a'' 6 3 example_core)));
       (c', rep) = core_release_due 12 c
   in core_wf c \<and> map r_message (rl_released rep) = [6, 5] \<and> map r_seq (rl_released rep) = [2, 3] \<and>
      reported_for ''s'' (rl_overflow rep) = core_charge ''s'' (retention_frontier (rc_ring c)) c'"
proof -
  let ?c = "fst (core_park ''a'' 5 10 (fst (core_park ''a'' 6 3 example_core)))"
  let ?due = "filter (\<lambda>e. d_release_at e \<le> 12) (ds_entries (rc_deferred ?c))"
  have wf: "core_wf ?c"
    using core_sys.legal_run_ok [OF example_core_wf, of "[CPark ''a'' 6 3, CPark ''a'' 5 10]"]
    by (auto simp: map_prod_def split_beta)
  have due: "map d_message ?due = [6, 5]" "length ?due = 2" "rr_next_seq (rc_ring ?c) = 2" "rr_depth (rc_ring ?c) \<noteq> 0"
    by code_simp+
  have "[2..<2 + 2] = [2, 3 :: nat]" by code_simp
  then show ?thesis
    using core_release_is_appends [OF wf surjective_pairing refl, of 12] wf
    unfolding due by (simp add: split_beta Let_def due(4))
qed

lemma view_cancel:
  "deferred_wf d \<Longrightarrow> deferred_get i d = Some e \<Longrightarrow> sender \<noteq> d_sender e \<Longrightarrow>
     deferred_for_sender sender (fst (deferred_cancel i d)) = deferred_for_sender sender d"
  by (auto simp: deferred_for_sender_def deferred_cancel_eq deferred_get_iff intro!: filter_cong)
    (metis deferred_get_iff option.inject)

text \<open>Two well-formed sets with the same entries of a sender show that sender the same view.\<close>

lemma view_by_set:
  assumes "deferred_wf d" and "deferred_wf d'"
    and "{e \<in> set (ds_entries d). d_sender e = sender} = {e \<in> set (ds_entries d'). d_sender e = sender}"
  shows "deferred_for_sender sender d = deferred_for_sender sender d'"
proof -
  let ?v = "deferred_for_sender sender d" and ?v' = "deferred_for_sender sender d'"
  have so: "sorted_wrt (<) (map d_key ?v)" "sorted_wrt (<) (map d_key ?v')"
    unfolding deferred_for_sender_def by (rule sorted_keys_strict [OF assms(1)], rule sorted_keys_strict [OF assms(2)])
  have set: "set ?v = set ?v'" using assms(3) by (simp add: deferred_for_sender_def)
  have keys: "map d_key ?v = map d_key ?v'"
    by (rule strict_sorted_equal [OF so(2,1)]) (simp add: set)
  have "inj_on d_id (set (ds_entries d))" using assms(1) by (simp add: deferred_wf_def distinct_map)
  then have "inj_on d_key (set (ds_entries d))" by (auto simp: inj_on_def d_key_def)
  then have "inj_on d_key (set ?v \<union> set ?v')"
    unfolding set [symmetric] by (auto simp: deferred_for_sender_def intro: inj_on_subset)
  then show ?thesis using keys by (simp add: inj_on_map_eq_map)
qed

lemma view_edit:
  assumes "deferred_wf d" and "deferred_get i d = Some e" and "sender \<noteq> d_sender e"
  shows "deferred_for_sender sender (fst (deferred_edit i m t d)) = deferred_for_sender sender d"
proof (rule view_by_set [OF deferred_wf_edit [OF assms(1)] assms(1)])
  from deferred_edit_found [OF assms(1,2), of m t] obtain es rest where
    *: "deferred_edit i m t d = (d\<lparr>ds_entries := es\<rparr>, Inr ())"
      "mset (ds_entries d) = add_mset e rest" "mset es = add_mset (edited m t e) rest" by metis
  have "set (ds_entries d) = insert e (set_mset rest)" "set es = insert (edited m t e) (set_mset rest)"
    using arg_cong [OF *(2), of set_mset] arg_cong [OF *(3), of set_mset] by simp_all
  then show "{e \<in> set (ds_entries (fst (deferred_edit i m t d))). d_sender e = sender} =
      {e \<in> set (ds_entries d). d_sender e = sender}"
    using assms(3) * by auto
qed

text \<open>C30. A sender acts on its own parked messages only: when the ownership check answers
  \<open>Owned\<close>, the entry is held, is the asking sender's, matches, and its release time is past the
  cutoff; cancelling or editing it by the id returned leaves every other sender's view exactly as it
  was, and the cancel hands back that very entry.\<close>

theorem core_owned_isolates_senders:
  assumes "core_wf c" and "core_owned_deferred sender matches cutoff c = Owned i e"
  shows "e \<in> set (ds_entries (rc_deferred c)) \<and> d_sender e = sender \<and> matches (d_message e) \<and>
         cutoff < d_release_at e \<and>
         snd (core_cancel_deferred i c) = Some e \<and> snd (core_edit_deferred i m t c) = Inr () \<and>
         (\<forall>other. other \<noteq> sender \<longrightarrow>
            core_deferred_for_sender other (fst (core_cancel_deferred i c)) = core_deferred_for_sender other c \<and>
            core_deferred_for_sender other (fst (core_edit_deferred i m t c)) = core_deferred_for_sender other c)"
proof -
  have wf: "deferred_wf (rc_deferred c)" using assms(1) by auto
  have e: "find (\<lambda>e. matches (d_message e)) (ds_entries (rc_deferred c)) = Some e"
    and o: "d_sender e = sender" "cutoff < d_release_at e" "i = d_id e"
    using assms(2) by (auto simp: core_owned_deferred_def split: option.splits if_splits)
  from e have m: "e \<in> set (ds_entries (rc_deferred c))" "matches (d_message e)"
    by (auto simp: find_Some_iff)
  have g: "deferred_get i (rc_deferred c) = Some e" using m(1) o(3) by (simp add: deferred_get_iff [OF wf])
  from deferred_edit_found [OF wf g, of m t] have "snd (deferred_edit i m t (rc_deferred c)) = Inr ()"
    by (metis snd_conv)
  then show ?thesis
    using m o g view_cancel [OF wf g] view_edit [OF wf g, of _ m t] deferred_cancel_eq [OF wf, of i]
    by (simp add: core_cancel_deferred_def core_edit_deferred_def core_deferred_for_sender_def split_beta)
qed

theorem core_owned_isolates_senders_witness:
  "let c = fst (core_park ''b'' 5 10 (fst (core_park ''a'' 6 3 example_core)))
   in core_owned_deferred ''b'' (\<lambda>m. m = 5) 4 c \<noteq> NotFound \<and>
      core_deferred_for_sender ''a'' (fst (core_cancel_deferred 2 c)) = core_deferred_for_sender ''a'' c"
proof -
  let ?c = "fst (core_park ''b'' 5 10 (fst (core_park ''a'' 6 3 example_core)))"
  have wf: "core_wf ?c"
    using core_sys.legal_run_ok [OF example_core_wf, of "[CPark ''a'' 6 3, CPark ''b'' 5 10]"]
    by (auto simp: map_prod_def split_beta)
  have o: "core_owned_deferred ''b'' (\<lambda>m. m = 5) 4 ?c =
      Owned 2 \<lparr>d_id = 2, d_sender = ''b'', d_release_at = 10, d_message = 5\<rparr>" by code_simp
  show ?thesis using core_owned_isolates_senders [OF wf o, of None None] by (simp add: Let_def o)
qed

end
