(* ===== verification/Envelope.thy ===== *)
theory Envelope
  imports Prelude
begin

text \<open>
  The address vocabulary every part of the system shares, \<^verbatim>\<open>brenn-envelope/src/lib.rs\<close> and
  \<^verbatim>\<open>brenn-envelope/src/addressing.rs\<close>: the one classifier of channel addresses, the capability
  axes derived from it, urgency and noise levels, reserved namespaces, canonical addresses and
  the derived channel identities.

  A Rust string is the list of its UTF-8 bytes, on which prefixes, suffixes, equality and
  \<^verbatim>\<open>str\<close>'s ordering are what they are on \<open>string\<close>. UUIDs and UTC instants belong to
  third-party crates: their types are type variables and the two functions the sources call,
  \<^verbatim>\<open>Uuid::new_v5\<close> and \<^verbatim>\<open>DateTime::from_timestamp_millis\<close>, are parameters.
\<close>

section \<open>String operations of the standard library\<close>

definition strip_prefix :: "string \<Rightarrow> string \<Rightarrow> string option" where
  "strip_prefix p s = (if take (length p) s = p then Some (drop (length p) s) else None)"

definition starts_with :: "char \<Rightarrow> string \<Rightarrow> bool" where
  "starts_with c s \<longleftrightarrow> s \<noteq> [] \<and> hd s = c"

definition ends_with :: "char \<Rightarrow> string \<Rightarrow> bool" where
  "ends_with c s \<longleftrightarrow> s \<noteq> [] \<and> last s = c"

fun join :: "string \<Rightarrow> string list \<Rightarrow> string" where
  "join sep [] = []"
| "join sep [s] = s"
| "join sep (s # ss) = s @ sep @ join sep ss"

lemma strip_prefix_append [simp]: "strip_prefix p (p @ s) = Some s"
  by (simp add: strip_prefix_def)

lemma strip_prefix_Some_iff: "strip_prefix p s = Some r \<longleftrightarrow> s = p @ r"
  by (auto simp: strip_prefix_def) (metis append_take_drop_id)

lemma strip_prefix_None_iff: "strip_prefix p s = None \<longleftrightarrow> (\<nexists>r. s = p @ r)"
  by (metis not_None_eq strip_prefix_Some_iff)

section \<open>Address schemes\<close>

definition brenn_address_prefix :: string where "brenn_address_prefix = ''brenn:''"
definition webhook_address_prefix :: string where "webhook_address_prefix = ''webhook:''"
definition mqtt_address_prefix :: string where "mqtt_address_prefix = ''mqtt:''"
definition ephemeral_address_prefix :: string where "ephemeral_address_prefix = ''ephemeral:''"
definition pwa_push_address_prefix :: string where "pwa_push_address_prefix = ''pwa_push:''"
definition local_address_prefix :: string where "local_address_prefix = ''local:''"

lemmas prefix_defs = brenn_address_prefix_def webhook_address_prefix_def mqtt_address_prefix_def
  ephemeral_address_prefix_def pwa_push_address_prefix_def local_address_prefix_def

definition surface_sub_identity_sep :: char where
  "surface_sub_identity_sep = CHR ''#''"

definition surface_sub_identity :: "string \<Rightarrow> string \<Rightarrow> string" where
  "surface_sub_identity participant inst = participant @ [surface_sub_identity_sep] @ inst"

datatype channel_scheme = Brenn | Ephemeral | Local | Mqtt | Webhook | PwaPush

record channel_capabilities =
  cc_durable :: bool
  cc_transportable :: bool

definition durable_transportable :: channel_capabilities where
  "durable_transportable = \<lparr>cc_durable = True, cc_transportable = True\<rparr>"

definition transportable_only :: channel_capabilities where
  "transportable_only = \<lparr>cc_durable = False, cc_transportable = True\<rparr>"

definition confined :: channel_capabilities where
  "confined = \<lparr>cc_durable = False, cc_transportable = False\<rparr>"

definition scheme_split :: "string \<Rightarrow> (channel_scheme \<times> string) option" where
  "scheme_split address =
     (case strip_prefix brenn_address_prefix address of Some rest \<Rightarrow> Some (Brenn, rest)
      | None \<Rightarrow> (case strip_prefix ephemeral_address_prefix address of Some rest \<Rightarrow> Some (Ephemeral, rest)
      | None \<Rightarrow> (case strip_prefix local_address_prefix address of Some rest \<Rightarrow> Some (Local, rest)
      | None \<Rightarrow> (case strip_prefix mqtt_address_prefix address of Some rest \<Rightarrow> Some (Mqtt, rest)
      | None \<Rightarrow> (case strip_prefix webhook_address_prefix address of Some rest \<Rightarrow> Some (Webhook, rest)
      | None \<Rightarrow> map_option (Pair PwaPush) (strip_prefix pwa_push_address_prefix address))))))"

definition scheme_of :: "string \<Rightarrow> channel_scheme option" where
  "scheme_of address = map_option fst (scheme_split address)"

fun scheme_prefix :: "channel_scheme \<Rightarrow> string" where
  "scheme_prefix Brenn = brenn_address_prefix"
| "scheme_prefix Ephemeral = ephemeral_address_prefix"
| "scheme_prefix Local = local_address_prefix"
| "scheme_prefix Mqtt = mqtt_address_prefix"
| "scheme_prefix Webhook = webhook_address_prefix"
| "scheme_prefix PwaPush = pwa_push_address_prefix"

fun scheme_as_str :: "channel_scheme \<Rightarrow> string" where
  "scheme_as_str Brenn = ''brenn''"
| "scheme_as_str Ephemeral = ''ephemeral''"
| "scheme_as_str Local = ''local''"
| "scheme_as_str Mqtt = ''mqtt''"
| "scheme_as_str Webhook = ''webhook''"
| "scheme_as_str PwaPush = ''pwa_push''"

definition scheme_parse :: "string \<Rightarrow> channel_scheme option" where
  "scheme_parse s =
     (if s = ''brenn'' then Some Brenn
      else if s = ''ephemeral'' then Some Ephemeral
      else if s = ''local'' then Some Local
      else if s = ''mqtt'' then Some Mqtt
      else if s = ''webhook'' then Some Webhook
      else if s = ''pwa_push'' then Some PwaPush
      else None)"

fun scheme_capabilities :: "channel_scheme \<Rightarrow> channel_capabilities option" where
  "scheme_capabilities Brenn = Some durable_transportable"
| "scheme_capabilities Mqtt = Some durable_transportable"
| "scheme_capabilities Webhook = Some durable_transportable"
| "scheme_capabilities Ephemeral = Some transportable_only"
| "scheme_capabilities Local = Some confined"
| "scheme_capabilities PwaPush = None"

definition channel_capabilities_of :: "string \<Rightarrow> channel_capabilities option" where
  "channel_capabilities_of address = Option.bind (scheme_of address) scheme_capabilities"

definition is_local_channel :: "string \<Rightarrow> bool" where
  "is_local_channel address =
     (case channel_capabilities_of address of None \<Rightarrow> False | Some caps \<Rightarrow> \<not> cc_transportable caps)"

section \<open>Urgency, noise and impetus\<close>

datatype urgency = VeryLow | Low | Normal | High

fun urgency_as_str :: "urgency \<Rightarrow> string" where
  "urgency_as_str VeryLow = ''very-low''"
| "urgency_as_str Low = ''low''"
| "urgency_as_str Normal = ''normal''"
| "urgency_as_str High = ''high''"

definition urgency_parse :: "string \<Rightarrow> urgency option" where
  "urgency_parse s =
     (if s = ''very-low'' then Some VeryLow
      else if s = ''low'' then Some Low
      else if s = ''normal'' then Some Normal
      else if s = ''high'' then Some High
      else None)"

fun urgency_rank :: "urgency \<Rightarrow> int" where
  "urgency_rank VeryLow = 0"
| "urgency_rank Low = 1"
| "urgency_rank Normal = 2"
| "urgency_rank High = 3"

text \<open>The derived order of the enum is declaration order.\<close>

instantiation urgency :: linorder
begin

definition less_eq_urgency :: "urgency \<Rightarrow> urgency \<Rightarrow> bool" where
  "less_eq_urgency a b \<longleftrightarrow> urgency_rank a \<le> urgency_rank b"

definition less_urgency :: "urgency \<Rightarrow> urgency \<Rightarrow> bool" where
  "less_urgency a b \<longleftrightarrow> urgency_rank a < urgency_rank b"

instance
proof
  fix x y :: urgency
  show "x \<le> y \<Longrightarrow> y \<le> x \<Longrightarrow> x = y"
    by (cases x; cases y) (simp_all add: less_eq_urgency_def)
qed (auto simp: less_eq_urgency_def less_urgency_def)

end

datatype noise_level = Silent | Metered | Alarm | Fatal

definition noise_from_str :: "string \<Rightarrow> unit + noise_level" where
  "noise_from_str s =
     (if s = ''silent'' then Inr Silent
      else if s = ''metered'' then Inr Metered
      else if s = ''alarm'' then Inr Alarm
      else if s = ''fatal'' then Inr Fatal
      else Inl ())"

fun noise_as_str :: "noise_level \<Rightarrow> string" where
  "noise_as_str Silent = ''silent''"
| "noise_as_str Metered = ''metered''"
| "noise_as_str Alarm = ''alarm''"
| "noise_as_str Fatal = ''fatal''"

definition is_backend_enactable :: "noise_level \<Rightarrow> bool" where
  "is_backend_enactable l \<longleftrightarrow> l \<noteq> Fatal"

definition i64_max :: nat where
  "i64_max = 2 ^ 63 - 1"

definition utc_from_epoch_ms :: "(int \<Rightarrow> 't option) \<Rightarrow> nat \<Rightarrow> 't option" where
  "utc_from_epoch_ms from_timestamp_millis ms =
     (if ms \<le> i64_max then from_timestamp_millis (int ms) else None)"

datatype impetus = Replenish

fun impetus_as_str :: "impetus \<Rightarrow> string" where
  "impetus_as_str Replenish = ''replenish''"

definition impetus_parse :: "string \<Rightarrow> impetus option" where
  "impetus_parse s = (if s = ''replenish'' then Some Replenish else None)"

record ('u, 't) message_envelope =
  me_message_id :: 'u
  me_source :: string
  me_channel :: string
  me_sender :: string
  me_publish_ts :: 't
  me_body :: string
  me_reply_to :: "string option"
  me_delivery_deadline :: "'t option"
  me_deliver_after :: "'t option"
  me_impetus :: "impetus option"
  me_urgency :: urgency
  me_envelope_type :: channel_scheme

section \<open>Addressing\<close>

text \<open>The derived identities: \<open>v5\<close> is \<^verbatim>\<open>Uuid::new_v5\<close>, \<open>dns\<close> the DNS namespace.\<close>

definition webhook_channel_uuid_from_slug :: "('u \<Rightarrow> string \<Rightarrow> 'u) \<Rightarrow> 'u \<Rightarrow> string \<Rightarrow> 'u" where
  "webhook_channel_uuid_from_slug v5 dns slug = v5 (v5 dns ''brenn.webhook-channel'') slug"

definition mqtt_channel_uuid_from_address :: "('u \<Rightarrow> string \<Rightarrow> 'u) \<Rightarrow> 'u \<Rightarrow> string \<Rightarrow> 'u" where
  "mqtt_channel_uuid_from_address v5 dns address = v5 (v5 dns ''brenn.mqtt-channel'') address"

definition ephemeral_channel_uuid_from_name :: "('u \<Rightarrow> string \<Rightarrow> 'u) \<Rightarrow> 'u \<Rightarrow> string \<Rightarrow> 'u" where
  "ephemeral_channel_uuid_from_name v5 dns name = v5 (v5 dns ''brenn.ephemeral-channel'') name"

definition local_channel_uuid_from_name :: "('u \<Rightarrow> string \<Rightarrow> 'u) \<Rightarrow> 'u \<Rightarrow> string \<Rightarrow> 'u" where
  "local_channel_uuid_from_name v5 dns name = v5 (v5 dns ''brenn.local-channel'') name"

fun nondurable_channel_uuid ::
  "('u \<Rightarrow> string \<Rightarrow> 'u) \<Rightarrow> 'u \<Rightarrow> channel_scheme \<Rightarrow> string \<Rightarrow> 'u exec" where
  "nondurable_channel_uuid v5 dns Ephemeral name = Ret (ephemeral_channel_uuid_from_name v5 dns name)"
| "nondurable_channel_uuid v5 dns Local name = Ret (local_channel_uuid_from_name v5 dns name)"
| "nondurable_channel_uuid v5 dns _ name = Panic"

definition reserved_channel_segments :: "string list" where
  "reserved_channel_segments = [''tools'', ''tool-results'', ''tool-requests'']"

definition is_reserved_channel :: "string \<Rightarrow> bool" where
  "is_reserved_channel address =
     list_ex (\<lambda>seg. address = seg \<or>
         (case strip_prefix seg address of
            None \<Rightarrow> False
          | Some rest \<Rightarrow> starts_with CHR ''.'' rest \<or> starts_with CHR ''/'' rest))
       reserved_channel_segments"

definition in_a_tool_namespace :: "string \<Rightarrow> bool" where
  "in_a_tool_namespace name =
     list_ex (\<lambda>seg. case strip_prefix seg name of
                      None \<Rightarrow> False | Some rest \<Rightarrow> starts_with CHR ''/'' rest)
       reserved_channel_segments"

definition auto_channel_segment :: string where
  "auto_channel_segment = ''auto''"

definition is_auto_channel_name :: "string \<Rightarrow> bool" where
  "is_auto_channel_name name \<longleftrightarrow>
     name = auto_channel_segment \<or>
     (case strip_prefix auto_channel_segment name of
        None \<Rightarrow> False
      | Some rest \<Rightarrow> starts_with CHR ''.'' rest \<or> starts_with CHR ''/'' rest)"

definition is_reserved_channel_name :: "string \<Rightarrow> bool" where
  "is_reserved_channel_name name \<longleftrightarrow> is_reserved_channel name \<or> is_auto_channel_name name"

definition auto_channel_cid :: "('u \<Rightarrow> string \<Rightarrow> 'u) \<Rightarrow> 'u \<Rightarrow> string list \<Rightarrow> 'u" where
  "auto_channel_cid v5 dns endpoint_refs =
     (let sorted = sort endpoint_refs;
          key = join [CHR 0x0A] sorted;
          ns = v5 dns ''brenn.auto-channel''
      in v5 ns key)"

definition auto_channel_name :: "('u \<Rightarrow> string) \<Rightarrow> 'u \<Rightarrow> string" where
  "auto_channel_name show_uuid cid = auto_channel_segment @ ''.'' @ show_uuid cid"

definition durable_auto_channel_uuid :: "('u \<Rightarrow> string \<Rightarrow> 'u) \<Rightarrow> 'u \<Rightarrow> string \<Rightarrow> 'u" where
  "durable_auto_channel_uuid v5 dns bare_name = v5 (v5 dns ''brenn.auto-channel-durable'') bare_name"

definition tool_channel_uuid_from_address :: "('u \<Rightarrow> string \<Rightarrow> 'u) \<Rightarrow> 'u \<Rightarrow> string \<Rightarrow> 'u" where
  "tool_channel_uuid_from_address v5 dns address = v5 (v5 dns ''brenn.tool-channel'') address"

definition chat_channel_uuid_from_address :: "('u \<Rightarrow> string \<Rightarrow> 'u) \<Rightarrow> 'u \<Rightarrow> string \<Rightarrow> 'u" where
  "chat_channel_uuid_from_address v5 dns address = v5 (v5 dns ''brenn.chat-channel'') address"

definition matcher_boundaries :: "char list" where
  "matcher_boundaries = [CHR ''/'', CHR ''.'']"

definition tuning_boundaries :: "char list" where
  "tuning_boundaries = [CHR ''/'', CHR ''.'', CHR '':'']"

definition ends_at_matcher_boundary :: "string \<Rightarrow> bool" where
  "ends_at_matcher_boundary pattern = list_ex (\<lambda>b. ends_with b pattern) matcher_boundaries"

definition ends_at_tuning_boundary :: "string \<Rightarrow> bool" where
  "ends_at_tuning_boundary pattern = list_ex (\<lambda>b. ends_with b pattern) tuning_boundaries"

definition quoted_list :: "string list \<Rightarrow> string" where
  "quoted_list items =
     (let quoted = map (\<lambda>b. ''`'' @ b @ ''`'') items
      in if quoted = [] then ''''
         else if butlast quoted \<noteq> [] then join '', '' (butlast quoted) @ '' or '' @ last quoted
         else last quoted)"

definition is_unreserved_char :: "char \<Rightarrow> bool" where
  "is_unreserved_char c \<longleftrightarrow>
     (CHR ''A'' \<le> c \<and> c \<le> CHR ''Z'') \<or> (CHR ''a'' \<le> c \<and> c \<le> CHR ''z'') \<or>
     (CHR ''0'' \<le> c \<and> c \<le> CHR ''9'') \<or> c \<in> {CHR ''.'', CHR ''_'', CHR ''~'', CHR ''-''}"

definition is_unreserved_name :: "string \<Rightarrow> bool" where
  "is_unreserved_name name \<longleftrightarrow> name \<noteq> [] \<and> list_all is_unreserved_char name"

definition canonical_address :: "string \<Rightarrow> string" where
  "canonical_address name = brenn_address_prefix @ name"

definition canonicalize_channel_address :: "string \<Rightarrow> string" where
  "canonicalize_channel_address address =
     (case scheme_of address of Some _ \<Rightarrow> address | None \<Rightarrow> canonical_address address)"

section \<open>Lemmas\<close>

lemma scheme_split_prefix [simp]: "scheme_split (scheme_prefix s @ rest) = Some (s, rest)"
  by (cases s) (simp_all add: scheme_split_def prefix_defs strip_prefix_def)

lemma scheme_split_Some: "scheme_split a = Some (s, rest) \<Longrightarrow> a = scheme_prefix s @ rest"
  by (auto simp: scheme_split_def strip_prefix_Some_iff split: option.splits)

lemma scheme_of_Some_iff: "scheme_of a = Some s \<longleftrightarrow> (\<exists>rest. a = scheme_prefix s @ rest)"
proof
  assume "scheme_of a = Some s"
  then obtain rest where "scheme_split a = Some (s, rest)" by (auto simp: scheme_of_def)
  then show "\<exists>rest. a = scheme_prefix s @ rest" using scheme_split_Some by blast
next
  assume "\<exists>rest. a = scheme_prefix s @ rest"
  then show "scheme_of a = Some s" by (auto simp: scheme_of_def)
qed

lemma scheme_capabilities_confined:
  "(case scheme_capabilities s of None \<Rightarrow> False | Some caps \<Rightarrow> \<not> cc_transportable caps) \<longleftrightarrow> s = Local"
  by (cases s) (simp_all add: durable_transportable_def transportable_only_def confined_def)

text \<open>The name up to its first \<open>.\<close> or \<open>/\<close>.\<close>

definition first_segment :: "string \<Rightarrow> string" where
  "first_segment name = takeWhile (\<lambda>c. c \<noteq> CHR ''.'' \<and> c \<noteq> CHR ''/'') name"

lemma segment_match:
  assumes "\<forall>c\<in>set seg. c \<noteq> CHR ''.'' \<and> c \<noteq> CHR ''/''"
  shows "(name = seg \<or> (case strip_prefix seg name of
            None \<Rightarrow> False
          | Some rest \<Rightarrow> starts_with CHR ''.'' rest \<or> starts_with CHR ''/'' rest)) \<longleftrightarrow>
         first_segment name = seg"
  (is "?match \<longleftrightarrow> _")
proof
  let ?P = "\<lambda>c. c \<noteq> CHR ''.'' \<and> c \<noteq> CHR ''/''"
  assume ?match
  then obtain rest where n: "name = seg @ rest" and r: "rest = [] \<or> \<not> ?P (hd rest)"
    by (auto simp: strip_prefix_Some_iff starts_with_def split: option.splits)
  have "takeWhile ?P rest = []" using r by (cases rest) auto
  then show "first_segment name = seg"
    using assms unfolding n first_segment_def by (subst takeWhile_append2) auto
next
  let ?P = "\<lambda>c. c \<noteq> CHR ''.'' \<and> c \<noteq> CHR ''/''"
  assume f: "first_segment name = seg"
  then have n: "name = seg @ dropWhile ?P name" unfolding first_segment_def by (metis takeWhile_dropWhile_id)
  show ?match
  proof (cases "dropWhile ?P name")
    case Nil
    have "name = seg" using n [unfolded Nil append_Nil2] .
    then show ?thesis ..
  next
    case (Cons c cs)
    have "\<not> ?P (hd (dropWhile ?P name))" by (rule hd_dropWhile) (simp add: Cons)
    then have "\<not> ?P c" unfolding Cons list.sel .
    moreover have "strip_prefix seg name = Some (c # cs)"
      unfolding strip_prefix_Some_iff by (rule n [unfolded Cons])
    ultimately show ?thesis by (auto simp: starts_with_def)
  qed
qed

lemma reserved_segments_clean:
  "seg \<in> set (auto_channel_segment # reserved_channel_segments) \<Longrightarrow>
     \<forall>c\<in>set seg. c \<noteq> CHR ''.'' \<and> c \<noteq> CHR ''/''"
  by (auto simp: auto_channel_segment_def reserved_channel_segments_def)

lemma is_reserved_channel_iff: "is_reserved_channel name \<longleftrightarrow> first_segment name \<in> set reserved_channel_segments"
proof -
  have "is_reserved_channel name \<longleftrightarrow> (\<exists>seg\<in>set reserved_channel_segments. first_segment name = seg)"
    unfolding is_reserved_channel_def list_ex_iff
    by (intro bex_cong refl segment_match reserved_segments_clean) simp
  then show ?thesis by auto
qed

lemma is_auto_channel_name_iff: "is_auto_channel_name name \<longleftrightarrow> first_segment name = auto_channel_segment"
  unfolding is_auto_channel_name_def by (rule segment_match) (rule reserved_segments_clean, simp)

section \<open>Properties\<close>

text \<open>Classifying an address is exact: an address is split into a scheme and a remainder if
  and only if it is that scheme's prefix followed by that remainder, so no prefix hides another
  whatever the order of the tests; and an address is confined to its host exactly when it carries the
  \<open>local:\<close> prefix.\<close>

lemma scheme_split_exact:
  "(scheme_split a = Some (s, rest) \<longleftrightarrow> a = scheme_prefix s @ rest) \<and>
   (is_local_channel a \<longleftrightarrow> (\<exists>name. a = local_address_prefix @ name))"
proof -
  have "is_local_channel a \<longleftrightarrow> scheme_of a = Some Local"
    using scheme_capabilities_confined
    by (cases "scheme_of a") (auto simp: is_local_channel_def channel_capabilities_of_def)
  then show ?thesis using scheme_split_Some [of a s rest] by (auto simp: scheme_of_Some_iff)
qed

text \<open>Tags survive the database and the wire: parsing what a scheme, an urgency, a noise level
  or an impetus prints gives it back, and anything that parses prints as it was read.\<close>

lemma tag_roundtrips:
  "(scheme_parse str = Some s \<longleftrightarrow> str = scheme_as_str s) \<and>
   (urgency_parse str = Some u \<longleftrightarrow> str = urgency_as_str u) \<and>
   (noise_from_str str = Inr l \<longleftrightarrow> str = noise_as_str l) \<and>
   (impetus_parse str = Some i \<longleftrightarrow> str = impetus_as_str i)"
proof (intro conjI)
  show "scheme_parse str = Some s \<longleftrightarrow> str = scheme_as_str s" by (cases s) (auto simp: scheme_parse_def)
  show "urgency_parse str = Some u \<longleftrightarrow> str = urgency_as_str u" by (cases u) (auto simp: urgency_parse_def)
  show "noise_from_str str = Inr l \<longleftrightarrow> str = noise_as_str l" by (cases l) (auto simp: noise_from_str_def)
  show "impetus_parse str = Some i \<longleftrightarrow> str = impetus_as_str i" by (cases i) (auto simp: impetus_parse_def)
qed

text \<open>A channel name is reserved to the host exactly when its first segment, the text before
  its first \<open>.\<close> or \<open>/\<close>, is one of the reserved words: a sibling such as \<open>toolsmith\<close> or \<open>autobahn\<close>
  is not caught, and no spelling of a reserved name below its segment escapes.\<close>

lemma reserved_iff_first_segment:
  "is_reserved_channel_name name \<longleftrightarrow>
     first_segment name \<in> {''tools'', ''tool-results'', ''tool-requests'', ''auto''}"
  by (auto simp: is_reserved_channel_name_def is_reserved_channel_iff is_auto_channel_name_iff
      reserved_channel_segments_def auto_channel_segment_def)

text \<open>Canonicalising an address always yields a classified one, leaves a qualified address
  alone, qualifies a bare one with \<open>brenn:\<close>, and is idempotent.\<close>

lemma canonicalize_idempotent:
  "scheme_of (canonicalize_channel_address a) \<noteq> None \<and>
   canonicalize_channel_address (canonicalize_channel_address a) = canonicalize_channel_address a \<and>
   canonicalize_channel_address a = (if scheme_of a = None then ''brenn:'' @ a else a)"
proof -
  have b: "scheme_of (canonical_address a) = Some Brenn"
    unfolding scheme_of_Some_iff by (simp add: canonical_address_def)
  show ?thesis
    by (cases "scheme_of a")
      (simp_all add: canonicalize_channel_address_def b, simp add: canonical_address_def brenn_address_prefix_def)
qed

text \<open>An anonymous channel's identity depends only on which endpoints it joins, not on the
  order they were declared in, and its name is always inside the reserved \<open>auto\<close> namespace.\<close>

lemma auto_channel_cid_order_free:
  "mset refs = mset refs' \<Longrightarrow>
     auto_channel_cid v5 dns refs = auto_channel_cid v5 dns refs' \<and>
     is_reserved_channel_name (auto_channel_name show_uuid (auto_channel_cid v5 dns refs))"
proof -
  assume m: "mset refs = mset refs'"
  then have "sort refs = sort refs'" by (metis mset_sort properties_for_sort sorted_sort)
  moreover have "first_segment (auto_channel_segment @ ''.'' @ r) = auto_channel_segment" for r
    by (simp add: first_segment_def auto_channel_segment_def)
  ultimately show ?thesis
    by (simp add: auto_channel_cid_def auto_channel_name_def is_reserved_channel_name_def is_auto_channel_name_iff)
qed

theorem auto_channel_cid_order_free_witness:
  "auto_channel_cid (\<lambda>ns s. ns @ s) '''' [''b'', ''a''] = auto_channel_cid (\<lambda>ns s. ns @ s) '''' [''a'', ''b''] \<and>
   is_reserved_channel_name (auto_channel_name id (auto_channel_cid (\<lambda>ns s. ns @ s) '''' [''b'', ''a'']))"
  by (rule auto_channel_cid_order_free) simp

end
