(* ===== verification/Ring_Store.thy ===== *)
theory Ring_Store
  imports Ring_Core Envelope
begin

text \<open>
  The messaging store of a non-durable channel, \<^verbatim>\<open>brenn-messaging-store/src/store/ring.rs\<close>, with
  the parts of \<^verbatim>\<open>store/mod.rs\<close> it uses and the \<^verbatim>\<open>Depth\<close> of \<^verbatim>\<open>brenn-lib/src/messaging/config.rs\<close>. A
  \<^verbatim>\<open>RingStore\<close> is the shared channel core of \<open>Ring_Core\<close> plus a map from each subscriber to the
  application it serves; the second map is a copy of the first one's keys that the code keeps by hand
  and panics on when they differ.

  An instant is a value of type \<open>'t\<close>; the two readings chrono gives of it, \<^verbatim>\<open>timestamp_millis\<close> and
  \<^verbatim>\<open>from_timestamp_millis\<close>, are parameters. The one fact about chrono used is \<open>chrono_ok\<close>: an instant's
  milliseconds fit an \<^verbatim>\<open>i64\<close> and give an instant with those milliseconds back. The mutex around the state is
  left out, each operation holding it from its first access to its last.
\<close>

section \<open>Depths\<close>

datatype depth = Bounded nat | Unbounded

fun depth_is_push_enabled :: "depth \<Rightarrow> bool" where
  "depth_is_push_enabled (Bounded n) \<longleftrightarrow> n \<noteq> 0"
| "depth_is_push_enabled Unbounded \<longleftrightarrow> True"

fun narrowed_by :: "depth \<Rightarrow> depth \<Rightarrow> depth" where
  "narrowed_by Unbounded narrower = narrower"
| "narrowed_by wider Unbounded = wider"
| "narrowed_by (Bounded a) (Bounded b) = Bounded (min a b)"

fun widened_by :: "depth \<Rightarrow> depth \<Rightarrow> depth" where
  "widened_by (Bounded a) (Bounded b) = Bounded (max a b)"
| "widened_by _ _ = Unbounded"

fun depth_bound :: "depth \<Rightarrow> nat" where
  "depth_bound (Bounded n) = n"
| "depth_bound Unbounded = u64_max"

text \<open>The derived \<^verbatim>\<open>Ord\<close>: declaration order, then the payload.\<close>

instantiation depth :: linorder
begin

fun less_eq_depth :: "depth \<Rightarrow> depth \<Rightarrow> bool" where
  "less_eq_depth (Bounded a) (Bounded b) \<longleftrightarrow> a \<le> b"
| "less_eq_depth _ Unbounded \<longleftrightarrow> True"
| "less_eq_depth Unbounded (Bounded _) \<longleftrightarrow> False"

definition less_depth :: "depth \<Rightarrow> depth \<Rightarrow> bool" where
  "less_depth a b \<longleftrightarrow> a \<le> b \<and> \<not> b \<le> (a :: depth)"

instance
proof
  fix x y z :: depth
  show "x < y \<longleftrightarrow> x \<le> y \<and> \<not> y \<le> x" by (rule less_depth_def)
  show "x \<le> x" by (cases x) simp_all
  show "x \<le> y \<Longrightarrow> y \<le> z \<Longrightarrow> x \<le> z" by (cases x; cases y; cases z) simp_all
  show "x \<le> y \<Longrightarrow> y \<le> x \<Longrightarrow> x = y" by (cases x; cases y) simp_all
  show "x \<le> y \<or> y \<le> x" by (cases x; cases y) auto
qed

end

section \<open>Data\<close>

definition max_ring_retain_depth :: nat where
  "max_ring_retain_depth = 4096"

record ('u, 't) retained_message =
  rm_seq :: nat
  rm_envelope :: "('u, 't) message_envelope"

record overflow_event =
  oe_subscriber :: string
  oe_dropped :: nat
  oe_app_slug :: "string option"

record ('u, 't) appended =
  ad_retained :: "('u, 't) retained_message"
  ad_overflow :: "overflow_event list"

record ('u, 't) released_batch =
  rb_messages :: "('u, 't) retained_message list"
  rb_overflow :: "overflow_event list"

record 't deliverable_subscriber =
  ds_subscriber :: string
  ds_app_slug :: "string option"
  ds_max_unseen_urgency :: urgency
  ds_earliest_unseen_deadline :: "'t option"

record ('u, 't) deferred_message =
  dm_release_at :: 't
  dm_envelope :: "('u, 't) message_envelope"

datatype 't deferral_outcome = DeferApplied | NotDeferred "'t option" | DeferWrongSender

record ('u, 't) store_replay =
  sr_epoch :: 'u
  sr_messages :: "('u, 't) message_envelope retained list"
  sr_decision :: replay_decision

record ('u, 't) ring_state =
  rg_core :: "(('u, 't) message_envelope, 'u, string) ring_core"
  rg_app_slugs :: "(string \<times> string) list"

record ('u, 't) ring_store =
  rst_epoch :: 'u
  rst_channel_uuid :: 'u
  rst_address :: string
  rst_capabilities :: channel_capabilities
  rst_publishes :: nat
  rst_state :: "('u, 't) ring_state"

text \<open>A publish as the bus hands it over: every field of the envelope the store does not fill itself.\<close>

record 'u reply_target =
  rt_uuid :: 'u
  rt_address :: string

record ('u, 't) new_message =
  nm_source :: string
  nm_sender :: string
  nm_body :: string
  nm_urgency :: urgency
  nm_envelope_type :: channel_scheme
  nm_reply_to :: "'u reply_target option"
  nm_delivery_deadline :: "'t option"
  nm_impetus :: "impetus option"
  nm_publish_ts_ns :: int

section \<open>Release times\<close>

definition release_time_of :: "('t \<Rightarrow> int) \<Rightarrow> 't \<Rightarrow> nat exec" where
  "release_time_of ts_ms ts = (if 0 \<le> ts_ms ts then Ret (nat (ts_ms ts)) else Panic)"

definition instant_of :: "(int \<Rightarrow> 't option) \<Rightarrow> nat \<Rightarrow> 't exec" where
  "instant_of from_ms release_time =
     (if release_time \<le> i64_max
      then case from_ms (int release_time) of Some t \<Rightarrow> Ret t | None \<Rightarrow> Panic
      else Panic)"

definition chrono_ok :: "('t \<Rightarrow> int) \<Rightarrow> (int \<Rightarrow> 't option) \<Rightarrow> bool" where
  "chrono_ok ts_ms from_ms \<longleftrightarrow>
     (\<forall>t. ts_ms t \<le> int i64_max \<and> (\<exists>t'. from_ms (ts_ms t) = Some t' \<and> ts_ms t' = ts_ms t))"

section \<open>Retention\<close>

definition with_epoch :: "'u \<Rightarrow> string \<Rightarrow> depth \<Rightarrow> 'u \<Rightarrow> ('u, 't) ring_store exec" where
  "with_epoch channel_uuid address retain_depth epoch =
     (case Option.bind (scheme_of address) scheme_capabilities of
        None \<Rightarrow> Panic
      | Some capabilities \<Rightarrow>
          if cc_durable capabilities then Panic
          else case retain_depth of
                 Unbounded \<Rightarrow> Panic
               | Bounded d \<Rightarrow>
                   if d \<le> max_ring_retain_depth
                   then Ret \<lparr>rst_epoch = epoch, rst_channel_uuid = channel_uuid, rst_address = address,
                             rst_capabilities = capabilities, rst_publishes = 0,
                             rst_state = \<lparr>rg_core = core_new epoch d, rg_app_slugs = []\<rparr>\<rparr>
                   else Panic)"

definition announce :: "('u, 't) ring_store \<Rightarrow> ('u, 't) ring_store" where
  "announce s = s\<lparr>rst_publishes := (rst_publishes s + 1) mod 2 ^ 64\<rparr>"

definition app_slug :: "('u, 't) ring_state \<Rightarrow> string \<Rightarrow> string exec" where
  "app_slug st subscriber = (case map_of (rg_app_slugs st) subscriber of Some slug \<Rightarrow> Ret slug | None \<Rightarrow> Panic)"

definition overflow_events :: "('u, 't) ring_state \<Rightarrow> string cursor_overflow list \<Rightarrow> overflow_event list exec" where
  "overflow_events st overflow =
     exec_traverse (\<lambda>event. exec_map (\<lambda>slug. \<lparr>oe_subscriber = co_subscriber event, oe_dropped = co_evicted event, oe_app_slug = Some slug\<rparr>)
         (app_slug st (co_subscriber event))) overflow"

definition rstore_append :: "('u, 't) message_envelope \<Rightarrow> ('u, 't) ring_store \<Rightarrow> (('u, 't) ring_store \<times> ('u, 't) appended) exec" where
  "rstore_append envelope s =
     (let (core, report) = core_append envelope (rg_core (rst_state s));
          st = (rst_state s)\<lparr>rg_core := core\<rparr>
      in exec_map (\<lambda>overflow.
             (announce (s\<lparr>rst_state := st\<rparr>),
              \<lparr>ad_retained = \<lparr>rm_seq = ar_seq report, rm_envelope = envelope\<rparr>, ad_overflow = overflow\<rparr>))
           (overflow_events st (ar_overflow report)))"

definition retained_tail :: "nat \<Rightarrow> ('u, 't) ring_store \<Rightarrow> ('u, 't) retained_message list" where
  "retained_tail n s =
     map (\<lambda>e. \<lparr>rm_seq = r_seq e, rm_envelope = r_message e\<rparr>) (ring_tail n (rc_ring (rg_core (rst_state s))))"

definition retained_len :: "('u, 't) ring_store \<Rightarrow> nat" where
  "retained_len s = ring_len (rc_ring (rg_core (rst_state s)))"

definition rstore_newest_seq :: "('u, 't) ring_store \<Rightarrow> nat" where
  "rstore_newest_seq s = ring_newest_seq (rc_ring (rg_core (rst_state s)))"

definition rstore_replay :: "'u resume option \<Rightarrow> ('u, 't) ring_store \<Rightarrow> ('u, 't) message_envelope replay" where
  "rstore_replay resume s = ring_replay resume (rc_ring (rg_core (rst_state s)))"

text \<open>\<^verbatim>\<open>usize::try_from\<close> of a bound that fits \<^verbatim>\<open>u64\<close> succeeds on a 64-bit host.\<close>

definition clamp_replay :: "('u, 't) store_replay \<Rightarrow> depth \<Rightarrow> ('u, 't) store_replay" where
  "clamp_replay replay limit =
     (case limit of
        Unbounded \<Rightarrow> replay
      | Bounded n \<Rightarrow>
          if length (sr_messages replay) \<le> n then replay
          else replay\<lparr>sr_messages := drop (length (sr_messages replay) - n) (sr_messages replay),
                      sr_decision := (if sr_decision replay = Exact then Gap BeyondRetained else sr_decision replay)\<rparr>)"

definition replay_from :: "'u resume option \<Rightarrow> depth \<Rightarrow> ('u, 't) ring_store \<Rightarrow> ('u, 't) store_replay" where
  "replay_from cursor limit s =
     (let replay = rstore_replay cursor s
      in clamp_replay \<lparr>sr_epoch = rst_epoch s, sr_messages = rp_messages replay, sr_decision = rp_decision replay\<rparr> limit)"

section \<open>Subscribers\<close>

definition rstore_attach :: "string \<Rightarrow> string \<Rightarrow> nat \<Rightarrow> ('u, 't) ring_store \<Rightarrow> ('u, 't) ring_store \<times> attached" where
  "rstore_attach subscriber slug push_depth s =
     (let (core, attached) = core_attach subscriber push_depth (rg_core (rst_state s));
          slugs = (if core_is_attached subscriber core
                   then AList.update subscriber slug (rg_app_slugs (rst_state s))
                   else AList.delete subscriber (rg_app_slugs (rst_state s)))
      in (s\<lparr>rst_state := \<lparr>rg_core = core, rg_app_slugs = slugs\<rparr>\<rparr>, attached))"

definition rstore_attach_from ::
  "string \<Rightarrow> string \<Rightarrow> nat \<Rightarrow> nat \<Rightarrow> ('u, 't) ring_store \<Rightarrow> (('u, 't) ring_store \<times> attached) exec" where
  "rstore_attach_from subscriber slug push_depth floor_next_owed s =
     exec_map (\<lambda>(core, attached).
         (s\<lparr>rst_state := \<lparr>rg_core = core, rg_app_slugs = AList.update subscriber slug (rg_app_slugs (rst_state s))\<rparr>\<rparr>, attached))
       (core_attach_from subscriber push_depth floor_next_owed (rg_core (rst_state s)))"

definition rstore_detach :: "string \<Rightarrow> ('u, 't) ring_store \<Rightarrow> ('u, 't) ring_store \<times> nat option" where
  "rstore_detach subscriber s =
     (let (core, cursor) = core_detach subscriber (rg_core (rst_state s))
      in (s\<lparr>rst_state := \<lparr>rg_core = core, rg_app_slugs = AList.delete subscriber (rg_app_slugs (rst_state s))\<rparr>\<rparr>,
          map_option sc_next_owed cursor))"

definition rstore_is_attached :: "string \<Rightarrow> ('u, 't) ring_store \<Rightarrow> bool" where
  "rstore_is_attached subscriber s = core_is_attached subscriber (rg_core (rst_state s))"

definition attached_subscribers :: "('u, 't) ring_store \<Rightarrow> string list" where
  "attached_subscribers s = map fst (rc_cursors (rg_core (rst_state s)))"

text \<open>The walk from the newest entry back, pushing at each entry the loudest urgency and the earliest
  deadline of it and everything newer. \<^verbatim>\<open>last\<close> reads what the previous entry pushed.\<close>

fun from_newest ::
  "(nat \<times> urgency \<times> 't::linorder option) list \<Rightarrow> urgency list \<Rightarrow> 't option list \<Rightarrow> urgency list \<times> 't option list" where
  "from_newest [] loudest earliest = (loudest, earliest)"
| "from_newest ((_, urgency, deadline) # older) loudest earliest =
     (let running = (if loudest = [] then urgency else max (last loudest) urgency);
          soonest = (case (if earliest = [] then None else last earliest, deadline) of
                       (Some a, Some b) \<Rightarrow> Some (min a b)
                     | (Some a, None) \<Rightarrow> Some a
                     | (None, b) \<Rightarrow> b)
      in from_newest older (loudest @ [running]) (earliest @ [soonest]))"

definition deliverable_subscribers :: "('u, 't::linorder) ring_store \<Rightarrow> 't deliverable_subscriber list exec" where
  "deliverable_subscribers s =
     (let st = rst_state s;
          ring = rc_ring (rg_core st);
          retained = map (\<lambda>e. (r_seq e, me_urgency (r_message e), me_delivery_deadline (r_message e))) (ring_tail u64_max ring);
          (loudest, earliest) = map_prod rev rev (from_newest (rev retained) [] [])
      in exec_traverse (\<lambda>(subscriber, cursor).
             let first_unseen = partition_point (\<lambda>(seq, _, _). seq < sc_next_owed cursor) retained
             in exec_bind (app_slug st subscriber) (\<lambda>slug.
                  if first_unseen < length loudest
                  then Ret \<lparr>ds_subscriber = subscriber, ds_app_slug = Some slug,
                            ds_max_unseen_urgency = loudest ! first_unseen,
                            ds_earliest_unseen_deadline =
                              (if first_unseen < length earliest then earliest ! first_unseen else None)\<rparr>
                  else Panic))
           (filter (\<lambda>(_, cursor). cursor_has_deliverable cursor ring) (rc_cursors (rg_core st))))"

definition rstore_has_deliverable :: "string \<Rightarrow> ('u, 't) ring_store \<Rightarrow> bool exec" where
  "rstore_has_deliverable subscriber s =
     (if core_is_attached subscriber (rg_core (rst_state s))
      then Ret (core_has_deliverable subscriber (rg_core (rst_state s)))
      else Panic)"

definition rstore_window ::
  "string \<Rightarrow> nat \<Rightarrow> nat \<Rightarrow> ('u, 't) ring_store \<Rightarrow> ('u, 't) ring_store \<times> ('u, 't) message_envelope window option" where
  "rstore_window subscriber push_limit retain_limit s =
     (let (core, w) = core_window subscriber push_limit retain_limit (rg_core (rst_state s))
      in (s\<lparr>rst_state := (rst_state s)\<lparr>rg_core := core\<rparr>\<rparr>, w))"

definition rstore_advance :: "string \<Rightarrow> nat \<Rightarrow> nat \<Rightarrow> ('u, 't) ring_store \<Rightarrow> (('u, 't) ring_store \<times> advance option) exec" where
  "rstore_advance subscriber through seen_floor s =
     exec_map (\<lambda>(core, a). (s\<lparr>rst_state := (rst_state s)\<lparr>rg_core := core\<rparr>\<rparr>, a))
       (core_advance subscriber through seen_floor (rg_core (rst_state s)))"

section \<open>Deferral\<close>

definition rstore_park ::
  "('t \<Rightarrow> int) \<Rightarrow> ('u, 't) message_envelope \<Rightarrow> 't \<Rightarrow> ('u, 't) ring_store \<Rightarrow> (('u, 't) ring_store \<times> (nat + 'u)) exec" where
  "rstore_park ts_ms envelope release_at s =
     exec_map (\<lambda>at.
         case core_park (me_sender envelope) envelope at (rg_core (rst_state s)) of
           (core, Inl cap) \<Rightarrow> (s\<lparr>rst_state := (rst_state s)\<lparr>rg_core := core\<rparr>\<rparr>, Inl cap)
         | (core, Inr _) \<Rightarrow> (s\<lparr>rst_state := (rst_state s)\<lparr>rg_core := core\<rparr>\<rparr>, Inr (me_message_id envelope)))
       (release_time_of ts_ms release_at)"

definition rstore_next_release :: "(int \<Rightarrow> 't option) \<Rightarrow> ('u, 't) ring_store \<Rightarrow> 't option exec" where
  "rstore_next_release from_ms s =
     (case core_next_release (rg_core (rst_state s)) of
        None \<Rightarrow> Ret None
      | Some at \<Rightarrow> exec_map Some (instant_of from_ms at))"

definition rstore_release_due ::
  "('t \<Rightarrow> int) \<Rightarrow> 't \<Rightarrow> ('u, 't) ring_store \<Rightarrow> (('u, 't) ring_store \<times> ('u, 't) released_batch) exec" where
  "rstore_release_due ts_ms now s =
     exec_bind (release_time_of ts_ms now) (\<lambda>at.
       let (core, report) = core_release_due at (rg_core (rst_state s));
           st = (rst_state s)\<lparr>rg_core := core\<rparr>;
           messages = map (\<lambda>e. \<lparr>rm_seq = r_seq e, rm_envelope = r_message e\<rparr>) (rl_released report)
       in exec_map (\<lambda>overflow.
              (fold (\<lambda>_. announce) messages (s\<lparr>rst_state := st\<rparr>), \<lparr>rb_messages = messages, rb_overflow = overflow\<rparr>))
            (overflow_events st (rl_overflow report)))"

definition deferred_view :: "(int \<Rightarrow> 't option) \<Rightarrow> ('u, 't) message_envelope deferred \<Rightarrow> ('u, 't) deferred_message exec" where
  "deferred_view from_ms entry =
     exec_map (\<lambda>at. \<lparr>dm_release_at = at, dm_envelope = d_message entry\<rparr>) (instant_of from_ms (d_release_at entry))"

definition rstore_deferred_for_sender ::
  "(int \<Rightarrow> 't option) \<Rightarrow> string \<Rightarrow> ('u, 't) ring_store \<Rightarrow> ('u, 't) deferred_message list exec" where
  "rstore_deferred_for_sender from_ms sender s =
     exec_traverse (deferred_view from_ms) (core_deferred_for_sender sender (rg_core (rst_state s)))"

definition rstore_deferred_senders :: "('t \<Rightarrow> int) \<Rightarrow> 't \<Rightarrow> ('u, 't) ring_store \<Rightarrow> string list exec" where
  "rstore_deferred_senders ts_ms now s =
     exec_map (\<lambda>at. remdups_adj (sort (map d_sender (core_deferred_at at (rg_core (rst_state s)))))) (release_time_of ts_ms now)"

definition rstore_deferred ::
  "('t \<Rightarrow> int) \<Rightarrow> (int \<Rightarrow> 't option) \<Rightarrow> 't \<Rightarrow> ('u, 't) ring_store \<Rightarrow> ('u, 't) deferred_message list exec" where
  "rstore_deferred ts_ms from_ms now s =
     exec_bind (release_time_of ts_ms now) (\<lambda>at.
       exec_traverse (deferred_view from_ms) (core_deferred_at at (rg_core (rst_state s))))"

definition rstore_deferred_len :: "('u, 't) ring_store \<Rightarrow> nat" where
  "rstore_deferred_len s = core_deferred_len (rg_core (rst_state s))"

definition owned_id ::
  "('t \<Rightarrow> int) \<Rightarrow> (int \<Rightarrow> 't option) \<Rightarrow> string \<Rightarrow> 'u \<Rightarrow> 't \<Rightarrow> ('u, 't) ring_state \<Rightarrow> ('t deferral_outcome + nat) exec" where
  "owned_id ts_ms from_ms sender message_uuid now st =
     exec_bind (release_time_of ts_ms now) (\<lambda>at.
       case core_owned_deferred sender (\<lambda>m. me_message_id m = message_uuid) at (rg_core st) of
         Owned i _ \<Rightarrow> Ret (Inr i)
       | WrongSender _ \<Rightarrow> Ret (Inl DeferWrongSender)
       | PastCutoff release_at \<Rightarrow> exec_map (\<lambda>t. Inl (NotDeferred (Some t))) (instant_of from_ms release_at)
       | NotFound \<Rightarrow> Ret (Inl (NotDeferred None)))"

definition rstore_cancel_deferred ::
  "('t \<Rightarrow> int) \<Rightarrow> (int \<Rightarrow> 't option) \<Rightarrow> string \<Rightarrow> 'u \<Rightarrow> 't \<Rightarrow> ('u, 't) ring_store \<Rightarrow>
     (('u, 't) ring_store \<times> 't deferral_outcome) exec" where
  "rstore_cancel_deferred ts_ms from_ms sender message_uuid now s =
     exec_map (\<lambda>found.
         case found of
           Inl outcome \<Rightarrow> (s, outcome)
         | Inr i \<Rightarrow>
             (case core_cancel_deferred i (rg_core (rst_state s)) of
                (core, Some _) \<Rightarrow> (s\<lparr>rst_state := (rst_state s)\<lparr>rg_core := core\<rparr>\<rparr>, DeferApplied)
              | (core, None) \<Rightarrow> (s\<lparr>rst_state := (rst_state s)\<lparr>rg_core := core\<rparr>\<rparr>, NotDeferred None)))
       (owned_id ts_ms from_ms sender message_uuid now (rst_state s))"

definition rstore_edit_deferred ::
  "('t \<Rightarrow> int) \<Rightarrow> (int \<Rightarrow> 't option) \<Rightarrow> string \<Rightarrow> 'u \<Rightarrow> string option \<Rightarrow> 't option \<Rightarrow> 't \<Rightarrow> ('u, 't) ring_store \<Rightarrow>
     (('u, 't) ring_store \<times> 't deferral_outcome) exec" where
  "rstore_edit_deferred ts_ms from_ms sender message_uuid body release_at now s =
     exec_bind (owned_id ts_ms from_ms sender message_uuid now (rst_state s)) (\<lambda>found.
       case found of
         Inl outcome \<Rightarrow> Ret (s, outcome)
       | Inr i \<Rightarrow>
           exec_bind
             (case body of
                None \<Rightarrow> Ret None
              | Some b \<Rightarrow>
                  (case core_deferred_entry i (rg_core (rst_state s)) of
                     None \<Rightarrow> Panic
                   | Some entry \<Rightarrow> Ret (Some ((d_message entry)\<lparr>me_body := b\<rparr>))))
             (\<lambda>edited.
               exec_map (\<lambda>at.
                   case core_edit_deferred i edited at (rg_core (rst_state s)) of
                     (core, Inr _) \<Rightarrow> (s\<lparr>rst_state := (rst_state s)\<lparr>rg_core := core\<rparr>\<rparr>, DeferApplied)
                   | (core, Inl _) \<Rightarrow> (s\<lparr>rst_state := (rst_state s)\<lparr>rg_core := core\<rparr>\<rparr>, NotDeferred None))
                 (case release_at of None \<Rightarrow> Ret None | Some t \<Rightarrow> exec_map Some (release_time_of ts_ms t))))"

text \<open>\<^verbatim>\<open>Uuid::new_v4\<close> is the argument \<open>fresh\<close>, \<^verbatim>\<open>ns_to_utc\<close> the argument \<open>ns_to_utc\<close>.\<close>

definition envelope_of :: "'u \<Rightarrow> (int \<Rightarrow> 't) \<Rightarrow> ('u, 't) ring_store \<Rightarrow> ('u, 't) new_message \<Rightarrow> ('u, 't) message_envelope" where
  "envelope_of fresh ns_to_utc s msg =
     \<lparr>me_message_id = fresh, me_source = nm_source msg, me_channel = rst_address s, me_sender = nm_sender msg,
      me_publish_ts = ns_to_utc (nm_publish_ts_ns msg), me_body = nm_body msg,
      me_reply_to = map_option rt_address (nm_reply_to msg), me_delivery_deadline = nm_delivery_deadline msg,
      me_deliver_after = None, me_impetus = nm_impetus msg, me_urgency = nm_urgency msg,
      me_envelope_type = nm_envelope_type msg\<rparr>"

section \<open>The store contract\<close>

text \<open>The \<^verbatim>\<open>RetentionStore\<close> face of the same operations, where it does more than pass a call on: depths become
  bounds, a publish becomes an envelope, results lose what the bus has no use for.\<close>

record 'u committed =
  cm_message_uuid :: 'u
  cm_seq :: nat

record 'u append_outcome =
  ao_committed :: "'u committed"
  ao_overflow :: "overflow_event list"

record ('u, 't) subscriber_window =
  swn_entries :: "(nat \<times> ('u, 't) message_envelope) list"
  swn_new_from :: nat
  swn_push_enabled :: bool

record ('u, 't) released =
  rd_seq :: nat
  rd_envelope :: "('u, 't) message_envelope"

record ('u, 't) release_outcome =
  ro_released :: "('u, 't) released list"
  ro_overflow :: "overflow_event list"

definition swn_empty :: "('u, 't) subscriber_window" where
  "swn_empty = \<lparr>swn_entries = [], swn_new_from = 0, swn_push_enabled = False\<rparr>"

definition swn_new_entries :: "('u, 't) subscriber_window \<Rightarrow> (nat \<times> ('u, 't) message_envelope) list" where
  "swn_new_entries w = drop (swn_new_from w) (swn_entries w)"

definition swn_advance_span :: "('u, 't) subscriber_window \<Rightarrow> (nat \<times> nat) option" where
  "swn_advance_span w =
     (if \<not> swn_push_enabled w then None
      else case swn_entries w of
             [] \<Rightarrow> None
           | e # es \<Rightarrow> Some (fst (last (e # es)), fst e))"

definition compose_window :: "(nat \<times> ('u, 't) message_envelope) list \<Rightarrow> nat \<Rightarrow> depth \<Rightarrow> ('u, 't) subscriber_window" where
  "compose_window entries next_owed push_limit =
     \<lparr>swn_entries = entries, swn_new_from = new_boundary (map fst entries) next_owed (depth_bound push_limit),
      swn_push_enabled = depth_is_push_enabled push_limit\<rparr>"

definition retention_window ::
  "string \<Rightarrow> depth \<Rightarrow> depth \<Rightarrow> ('u, 't) ring_store \<Rightarrow> ('u, 't) ring_store \<times> ('u, 't) subscriber_window option" where
  "retention_window subscriber push_limit retain_limit s =
     (let (s', w) = rstore_window subscriber (depth_bound push_limit) (depth_bound retain_limit) s
      in (s', map_option (\<lambda>w. \<lparr>swn_entries = map (\<lambda>e. (r_seq e, r_message e)) (w_entries w), swn_new_from = w_new_from w,
                                swn_push_enabled = w_push_enabled w\<rparr>) w))"

definition retention_append ::
  "'u \<Rightarrow> (int \<Rightarrow> 't) \<Rightarrow> ('u, 't) new_message \<Rightarrow> ('u, 't) ring_store \<Rightarrow> (('u, 't) ring_store \<times> 'u append_outcome) exec" where
  "retention_append fresh ns_to_utc msg s =
     (let envelope = envelope_of fresh ns_to_utc s msg
      in exec_map (\<lambda>(s', appended).
             (s', \<lparr>ao_committed = \<lparr>cm_message_uuid = me_message_id envelope, cm_seq = rm_seq (ad_retained appended)\<rparr>,
                   ao_overflow = ad_overflow appended\<rparr>))
           (rstore_append envelope s))"

definition retention_park ::
  "('t \<Rightarrow> int) \<Rightarrow> 'u \<Rightarrow> (int \<Rightarrow> 't) \<Rightarrow> ('u, 't) new_message \<Rightarrow> 't \<Rightarrow> ('u, 't) ring_store \<Rightarrow> (('u, 't) ring_store \<times> (nat + 'u)) exec" where
  "retention_park ts_ms fresh ns_to_utc msg release_at s = rstore_park ts_ms (envelope_of fresh ns_to_utc s msg) release_at s"

definition retention_tail :: "depth \<Rightarrow> ('u, 't) ring_store \<Rightarrow> ('u, 't) message_envelope list" where
  "retention_tail limit s = map rm_envelope (retained_tail (depth_bound limit) s)"

definition retention_release_due ::
  "('t \<Rightarrow> int) \<Rightarrow> 't \<Rightarrow> ('u, 't) ring_store \<Rightarrow> (('u, 't) ring_store \<times> ('u, 't) release_outcome) exec" where
  "retention_release_due ts_ms now s =
     exec_map (\<lambda>(s', batch).
         (s', \<lparr>ro_released = map (\<lambda>m. \<lparr>rd_seq = rm_seq m, rd_envelope = rm_envelope m\<rparr>) (rb_messages batch),
               ro_overflow = rb_overflow batch\<rparr>))
       (rstore_release_due ts_ms now s)"

text \<open>The window a ring serves is the one the database store composes from the same rows.\<close>

lemma ring_window_composed:
  assumes "map_of (rc_cursors (rg_core (rst_state s))) k = Some cu"
  shows "map_option (\<lambda>w. (swn_entries w, swn_new_from w, swn_push_enabled w)) (snd (retention_window k push retain s)) =
    (let w = compose_window (map (\<lambda>e. (r_seq e, r_message e))
           (ring_tail (max (depth_bound push) (depth_bound retain)) (rc_ring (rg_core (rst_state s))))) (sc_next_owed cu) push
     in Some (swn_entries w, swn_new_from w, swn_push_enabled w))"
proof -
  have "0 < depth_bound push \<longleftrightarrow> depth_is_push_enabled push" by (cases push) (simp_all add: u64_max_def)
  then show ?thesis
    using assms
    by (simp add: retention_window_def rstore_window_def core_window_def cursor_window_def compose_window_def cursor_set_push_depth_def
        Let_def comp_def)
qed

section \<open>A store driven by the bus\<close>

datatype ('u, 't) rstore_op =
    RsAppend "('u, 't) message_envelope"
  | RsAttach string string nat
  | RsAttachFrom string string nat nat
  | RsDetach string
  | RsDeliverable
  | RsHasDeliverable string
  | RsWindow string nat nat
  | RsAdvance string nat nat
  | RsPark "('u, 't) message_envelope" 't
  | RsNextRelease
  | RsReleaseDue 't
  | RsViewSender string
  | RsViewAll 't
  | RsCancel string 'u 't
  | RsEdit string 'u "string option" "'t option" 't

datatype ('u, 't) rstore_out =
    RoAppended "('u, 't) appended"
  | RoAttached attached
  | RoDetached "nat option"
  | RoDeliverable "'t deliverable_subscriber list"
  | RoBool bool
  | RoWindow "('u, 't) message_envelope window option"
  | RoAdvance "advance option"
  | RoParked "nat + 'u"
  | RoInstant "'t option"
  | RoReleased "('u, 't) released_batch"
  | RoView "('u, 't) deferred_message list"
  | RoDeferral "'t deferral_outcome"

fun rstore_step ::
  "('t::linorder \<Rightarrow> int) \<Rightarrow> (int \<Rightarrow> 't option) \<Rightarrow> ('u, 't) ring_store \<Rightarrow> ('u, 't) rstore_op \<Rightarrow>
     (('u, 't) ring_store \<times> ('u, 't) rstore_out) exec" where
  "rstore_step tm fm s (RsAppend e) = exec_map (map_prod id RoAppended) (rstore_append e s)"
| "rstore_step tm fm s (RsAttach k slug d) = Ret (map_prod id RoAttached (rstore_attach k slug d s))"
| "rstore_step tm fm s (RsAttachFrom k slug d f) = exec_map (map_prod id RoAttached) (rstore_attach_from k slug d f s)"
| "rstore_step tm fm s (RsDetach k) = Ret (map_prod id RoDetached (rstore_detach k s))"
| "rstore_step tm fm s RsDeliverable = exec_map (\<lambda>ds. (s, RoDeliverable ds)) (deliverable_subscribers s)"
| "rstore_step tm fm s (RsHasDeliverable k) = exec_map (\<lambda>b. (s, RoBool b)) (rstore_has_deliverable k s)"
| "rstore_step tm fm s (RsWindow k p q) = Ret (map_prod id RoWindow (rstore_window k p q s))"
| "rstore_step tm fm s (RsAdvance k t f) = exec_map (map_prod id RoAdvance) (rstore_advance k t f s)"
| "rstore_step tm fm s (RsPark e t) = exec_map (map_prod id RoParked) (rstore_park tm e t s)"
| "rstore_step tm fm s RsNextRelease = exec_map (\<lambda>t. (s, RoInstant t)) (rstore_next_release fm s)"
| "rstore_step tm fm s (RsReleaseDue t) = exec_map (map_prod id RoReleased) (rstore_release_due tm t s)"
| "rstore_step tm fm s (RsViewSender k) = exec_map (\<lambda>v. (s, RoView v)) (rstore_deferred_for_sender fm k s)"
| "rstore_step tm fm s (RsViewAll t) = exec_map (\<lambda>v. (s, RoView v)) (rstore_deferred tm fm t s)"
| "rstore_step tm fm s (RsCancel k i t) = exec_map (map_prod id RoDeferral) (rstore_cancel_deferred tm fm k i t s)"
| "rstore_step tm fm s (RsEdit k i b at t) = exec_map (map_prod id RoDeferral) (rstore_edit_deferred tm fm k i b at t s)"

text \<open>What the documented panics ask of the bus: a clock past 1970, positions the ring has reached, and
  \<^verbatim>\<open>has_deliverable\<close> of attached subscribers only.\<close>

fun rstore_legal :: "('t \<Rightarrow> int) \<Rightarrow> ('u, 't) ring_store \<Rightarrow> ('u, 't) rstore_op \<Rightarrow> bool" where
  "rstore_legal tm s (RsAttachFrom k slug d f) \<longleftrightarrow> 0 < d \<and> f \<le> rr_next_seq (rc_ring (rg_core (rst_state s)))"
| "rstore_legal tm s (RsHasDeliverable k) \<longleftrightarrow> rstore_is_attached k s"
| "rstore_legal tm s (RsAdvance k t f) \<longleftrightarrow> t \<le> rstore_newest_seq s \<and> f \<le> sat_add64 t 1"
| "rstore_legal tm s (RsPark e t) \<longleftrightarrow> 0 \<le> tm t"
| "rstore_legal tm s (RsReleaseDue t) \<longleftrightarrow> 0 \<le> tm t"
| "rstore_legal tm s (RsViewAll t) \<longleftrightarrow> 0 \<le> tm t"
| "rstore_legal tm s (RsCancel k i t) \<longleftrightarrow> 0 \<le> tm t"
| "rstore_legal tm s (RsEdit k i b at t) \<longleftrightarrow> 0 \<le> tm t \<and> (case at of None \<Rightarrow> True | Some t' \<Rightarrow> 0 \<le> tm t')"
| "rstore_legal tm s _ \<longleftrightarrow> True"

abbreviation the_core :: "('u, 't) ring_store \<Rightarrow> (('u, 't) message_envelope, 'u, string) ring_core" where
  "the_core s \<equiv> rg_core (rst_state s)"

abbreviation the_slugs :: "('u, 't) ring_store \<Rightarrow> (string \<times> string) list" where
  "the_slugs s \<equiv> rg_app_slugs (rst_state s)"

definition slugs_mirror :: "('u, 't) ring_state \<Rightarrow> bool" where
  "slugs_mirror st \<longleftrightarrow> hm_ok (rg_app_slugs st) \<and> dom (map_of (rg_app_slugs st)) = dom (map_of (rc_cursors (rg_core st)))"

definition times_readable :: "(int \<Rightarrow> 't option) \<Rightarrow> 'm deferred_set \<Rightarrow> bool" where
  "times_readable fm d \<longleftrightarrow> (\<forall>e\<in>set (ds_entries d). returns (instant_of fm (d_release_at e)))"

definition rstore_wf :: "(int \<Rightarrow> 't option) \<Rightarrow> ('u, 't) ring_store \<Rightarrow> bool" where
  "rstore_wf fm s \<longleftrightarrow>
     core_wf (the_core s) \<and> slugs_mirror (rst_state s) \<and> times_readable fm (rc_deferred (the_core s)) \<and>
     rr_depth (rc_ring (the_core s)) \<le> max_ring_retain_depth \<and> rr_epoch (rc_ring (the_core s)) = rst_epoch s"

section \<open>The two maps agree\<close>

lemma overflow_loop_subset:
  "e \<in> set (overflow_loop r f cs acc) \<Longrightarrow> co_subscriber e \<in> fst ` set cs \<or> e \<in> set acc"
  by (induction r f cs acc rule: overflow_loop.induct) (auto simp: Let_def split: if_splits)

lemma append_overflow_names:
  "e \<in> set (ar_overflow (snd (core_append m c))) \<Longrightarrow> co_subscriber e \<in> dom (map_of (rc_cursors c))"
  using overflow_loop_subset [of e _ _ "rc_cursors c" "[]"]
  by (auto simp: core_append_def core_overflow_since_def Let_def split_beta dom_map_of_conv_image_fst split: if_splits)

lemma merge_one_subset:
  "e \<in> set (merge_one ov new) \<Longrightarrow> co_subscriber e = co_subscriber new \<or> co_subscriber e \<in> co_subscriber ` set ov"
  by (induction ov new rule: merge_one.induct) (auto split: if_splits)

lemma merge_overflow_names:
  "e \<in> set (merge_overflow ov new) \<Longrightarrow> co_subscriber e \<in> co_subscriber ` set ov \<union> co_subscriber ` set new"
proof (induction new arbitrary: ov)
  case (Cons x new)
  have "e \<in> set (merge_overflow (merge_one ov x) new)" using Cons.prems by (simp add: merge_overflow_def)
  from Cons.IH [OF this] show ?case by (auto dest: merge_one_subset)
qed (auto simp: merge_overflow_def)

lemma release_overflow_names:
  "e \<in> set (rl_overflow (snd (release_loop due c rel ov))) \<Longrightarrow>
     co_subscriber e \<in> dom (map_of (rc_cursors c)) \<union> co_subscriber ` set ov"
proof (induction due arbitrary: c rel ov)
  case (Cons d due)
  let ?r = "core_append (d_message d) c"
  have cs: "rc_cursors (fst ?r) = rc_cursors c" by (simp add: core_append_state)
  obtain rel' where "e \<in> set (rl_overflow (snd (release_loop due (fst ?r) rel' (merge_overflow ov (ar_overflow (snd ?r))))))"
    using Cons.prems by (auto simp: split_beta)
  from Cons.IH [OF this] cs
  have "co_subscriber e \<in> dom (map_of (rc_cursors c)) \<union> co_subscriber ` set (merge_overflow ov (ar_overflow (snd ?r)))" by simp
  then show ?case by (auto dest!: merge_overflow_names append_overflow_names)
qed simp

lemma overflow_events_returns:
  assumes "slugs_mirror st" "\<And>e. e \<in> set ov \<Longrightarrow> co_subscriber e \<in> dom (map_of (rc_cursors (rg_core st)))"
  shows "returns (overflow_events st ov)"
proof -
  have "app_slug st (co_subscriber e) = Ret (the (map_of (rg_app_slugs st) (co_subscriber e)))" if "e \<in> set ov" for e
    using assms(1) assms(2) [OF that] by (auto simp: slugs_mirror_def app_slug_def domD split: option.split)
  then show ?thesis unfolding overflow_events_def by (subst exec_traverse_pure) auto
qed

lemma times_readable_keep: "times_readable fm d \<Longrightarrow> set (ds_entries d') \<subseteq> set (ds_entries d) \<Longrightarrow> times_readable fm d'"
  by (auto simp: times_readable_def)

lemma release_time_readable:
  assumes "chrono_ok tm fm" "release_time_of tm t = Ret at"
  shows "returns (instant_of fm at)"
proof -
  have at: "0 \<le> tm t" "at = nat (tm t)" using assms(2) by (auto simp: release_time_of_def split: if_splits)
  moreover from assms(1) obtain t' where "tm t \<le> int i64_max" "fm (tm t) = Some t'" by (auto simp: chrono_ok_def)
  ultimately show ?thesis by (simp add: instant_of_def nat_le_iff)
qed

section \<open>The wake summary\<close>

text \<open>What the walk stands for: the loudest urgency and the earliest deadline of a run of entries.\<close>

definition loudest_of :: "(nat \<times> urgency \<times> 't::linorder option) list \<Rightarrow> urgency" where
  "loudest_of xs = Max (set (map (\<lambda>(_, u, _). u) xs))"

definition soonest_of :: "(nat \<times> urgency \<times> 't::linorder option) list \<Rightarrow> 't option" where
  "soonest_of xs = (let ds = {d. Some d \<in> set (map (\<lambda>(_, _, d). d) xs)} in if ds = {} then None else Some (Min ds))"

fun suffix_summaries :: "('a list \<Rightarrow> 'b) \<Rightarrow> 'a list \<Rightarrow> 'b list" where
  "suffix_summaries f [] = []"
| "suffix_summaries f (x # xs) = f (x # xs) # suffix_summaries f xs"

lemma suffix_summaries_nth: "i < length xs \<Longrightarrow> suffix_summaries f xs ! i = f (drop i xs)"
  by (induction f xs arbitrary: i rule: suffix_summaries.induct) (auto simp: nth_Cons' drop_Cons')

lemma suffix_summaries_length [simp]: "length (suffix_summaries f xs) = length xs"
  by (induction f xs rule: suffix_summaries.induct) auto

lemma suffix_summaries_hd: "xs \<noteq> [] \<Longrightarrow> suffix_summaries f xs \<noteq> [] \<and> hd (suffix_summaries f xs) = f xs"
  by (cases xs) auto

lemma loudest_of_Cons: "loudest_of (x # xs) = (if xs = [] then fst (snd x) else max (loudest_of xs) (fst (snd x)))"
  by (cases xs) (auto simp: loudest_of_def split_beta max.commute)

lemma soonest_of_Cons:
  "soonest_of (x # xs) =
     (case (soonest_of xs, snd (snd x)) of
        (Some a, Some b) \<Rightarrow> Some (min a b) | (Some a, None) \<Rightarrow> Some a | (None, b) \<Rightarrow> b)"
proof -
  let ?ds = "{d. Some d \<in> (\<lambda>(_, _, d). d) ` set xs}"
  have "finite (the ` ((\<lambda>(_, _, d). d) ` set xs))" by simp
  moreover have "?ds \<subseteq> the ` ((\<lambda>(_, _, d). d) ` set xs)" by force
  ultimately have fin: "finite ?ds" by (rule rev_finite_subset)
  show ?thesis
  proof (cases "snd (snd x)")
    case None
    then have "{d. Some d \<in> (\<lambda>(_, _, d). d) ` set (x # xs)} = ?ds" by (auto simp: split_beta)
    then show ?thesis using None by (simp add: soonest_of_def split: option.split)
  next
    case (Some b)
    then have "{d. Some d \<in> (\<lambda>(_, _, d). d) ` set (x # xs)} = insert b ?ds" by (auto simp: split_beta)
    then show ?thesis using Some fin by (simp add: soonest_of_def min.commute)
  qed
qed

lemma from_newest_eq:
  "from_newest (rev xs) (rev (suffix_summaries loudest_of ys)) (rev (suffix_summaries soonest_of ys)) =
     (rev (suffix_summaries loudest_of (xs @ ys)), rev (suffix_summaries soonest_of (xs @ ys)))"
proof (induction xs arbitrary: ys rule: rev_induct)
  case (snoc x xs)
  obtain q u d where x: "x = (q, u, d)" by (cases x)
  have l: "(if suffix_summaries loudest_of ys = [] then u else max (last (rev (suffix_summaries loudest_of ys))) u) =
      loudest_of (x # ys)"
    using suffix_summaries_hd [of ys loudest_of] by (cases "ys = []") (simp_all add: loudest_of_Cons x last_rev)
  have e: "(case (if suffix_summaries soonest_of ys = [] then None else last (rev (suffix_summaries soonest_of ys)), d) of
        (Some a, Some b) \<Rightarrow> Some (min a b) | (Some a, None) \<Rightarrow> Some a | (None, b) \<Rightarrow> b) = soonest_of (x # ys)"
    using suffix_summaries_hd [of ys soonest_of] soonest_of_Cons [of x ys]
    by (cases "ys = []") (simp_all add: x last_rev soonest_of_def)
  show ?case
    using snoc.IH [of "x # ys"] l e by (simp add: x Let_def)
qed simp

lemma partition_unseen:
  assumes "ring_wf r"
  shows "drop (partition_point (\<lambda>(seq, _, _). seq < ow) (map (\<lambda>e. (r_seq e, f e, g e)) (rr_entries r))) (map (\<lambda>e. (r_seq e, f e, g e)) (rr_entries r)) =
    map (\<lambda>e. (r_seq e, f e, g e)) (filter (\<lambda>e. ow \<le> r_seq e) (rr_entries r))"
proof -
  let ?xs = "map (\<lambda>e. (r_seq e, f e, g e)) (rr_entries r)" and ?P = "\<lambda>(seq, _, _). seq < ow"
  have "sorted (map r_seq (rr_entries r))" using assms by (simp add: ring_wf_def ring_seqs_def)
  then have "takeWhile (\<lambda>e. r_seq e < ow) (rr_entries r) = filter (\<lambda>e. r_seq e < ow) (rr_entries r)"
    by (rule takeWhile_eq_filter_sorted) simp
  then have "dropWhile (\<lambda>e. r_seq e < ow) (rr_entries r) = filter (\<lambda>e. ow \<le> r_seq e) (rr_entries r)"
    by (simp add: dropWhile_eq_filter_not not_less)
  then show ?thesis by (simp add: partition_point_def dropWhile_eq_drop [symmetric] dropWhile_map comp_def)
qed

definition unseen_summary ::
  "('u, 't::linorder) ring_store \<Rightarrow> string \<times> subscriber_cursor \<Rightarrow> 't deliverable_subscriber" where
  "unseen_summary s = (\<lambda>(k, cursor).
     let unseen = map (\<lambda>e. (r_seq e, me_urgency (r_message e), me_delivery_deadline (r_message e)))
           (filter (\<lambda>e. sc_next_owed cursor \<le> r_seq e) (rr_entries (rc_ring (the_core s))))
     in \<lparr>ds_subscriber = k, ds_app_slug = map_of (the_slugs s) k, ds_max_unseen_urgency = loudest_of unseen,
         ds_earliest_unseen_deadline = soonest_of unseen\<rparr>)"

lemma deliverable_has_unseen:
  assumes "ring_wf r" "cursor_has_deliverable cu r"
  shows "filter (\<lambda>e. sc_next_owed cu \<le> r_seq e) (rr_entries r) \<noteq> []"
proof -
  have ne: "rr_entries r \<noteq> []" and n: "sc_next_owed cu \<le> ring_newest_seq r"
    using assms(2) by (auto simp: cursor_has_deliverable_def ring_is_empty_def)
  have "map r_seq (rr_entries r) = [rr_next_seq r - length (rr_entries r)..<rr_next_seq r]"
    using assms(1) by (simp add: ring_wf_def ring_seqs_def)
  moreover have "rr_next_seq r - length (rr_entries r) < rr_next_seq r" using assms(1) ne by (simp add: ring_wf_def)
  ultimately have "last (map r_seq (rr_entries r)) = rr_next_seq r - 1" by (simp only: last_upt)
  then have "r_seq (last (rr_entries r)) = ring_newest_seq r" using ne by (simp add: last_map ring_newest_seq_def)
  then show ?thesis using n by (auto simp: filter_empty_conv intro!: bexI [OF _ last_in_set [OF ne]])
qed

lemma deliverable_eq:
  assumes "rstore_wf fm s"
  shows "deliverable_subscribers s =
    Ret (map (unseen_summary s) (filter (\<lambda>(_, cu). cursor_has_deliverable cu (rc_ring (the_core s))) (rc_cursors (the_core s))))"
proof -
  let ?r = "rc_ring (the_core s)" and ?st = "rst_state s"
  let ?row = "\<lambda>e. (r_seq e, me_urgency (r_message e), me_delivery_deadline (r_message e))"
  let ?xs = "map ?row (rr_entries ?r)"
  have wf: "ring_wf ?r" using assms by (auto simp: rstore_wf_def)
  have "length (rr_entries ?r) \<le> u64_max"
    using assms wf by (simp add: rstore_wf_def ring_wf_def max_ring_retain_depth_def u64_max_def)
  then have tail: "ring_tail u64_max ?r = rr_entries ?r" by (simp add: ring_tail_eq)
  have walk: "map_prod rev rev (from_newest (rev ?xs) [] []) = (suffix_summaries loudest_of ?xs, suffix_summaries soonest_of ?xs)"
    using from_newest_eq [of ?xs "[]"] by simp
  have one: "exec_bind (app_slug ?st k) (\<lambda>slug.
        if partition_point (\<lambda>(seq, _, _). seq < sc_next_owed cu) ?xs < length (suffix_summaries loudest_of ?xs)
        then Ret \<lparr>ds_subscriber = k, ds_app_slug = Some slug,
            ds_max_unseen_urgency = suffix_summaries loudest_of ?xs ! partition_point (\<lambda>(seq, _, _). seq < sc_next_owed cu) ?xs,
            ds_earliest_unseen_deadline =
              (if partition_point (\<lambda>(seq, _, _). seq < sc_next_owed cu) ?xs < length (suffix_summaries soonest_of ?xs)
               then suffix_summaries soonest_of ?xs ! partition_point (\<lambda>(seq, _, _). seq < sc_next_owed cu) ?xs else None)\<rparr>
        else Panic) = Ret (unseen_summary s (k, cu))"
    if "(k, cu) \<in> set (rc_cursors (the_core s))" "cursor_has_deliverable cu ?r" for k cu
  proof -
    let ?p = "partition_point (\<lambda>(seq, _, _). seq < sc_next_owed cu) ?xs"
    have d: "drop ?p ?xs = map ?row (filter (\<lambda>e. sc_next_owed cu \<le> r_seq e) (rr_entries ?r))" by (rule partition_unseen [OF wf])
    then have "drop ?p ?xs \<noteq> []" using deliverable_has_unseen [OF wf that(2)] by (simp only: list.map_disc_iff not_False_eq_True)
    then have p: "?p < length ?xs" by (simp only: drop_eq_Nil not_le)
    have "k \<in> dom (map_of (the_slugs s))"
      using assms that(1) by (auto simp: rstore_wf_def slugs_mirror_def dom_map_of_conv_image_fst intro: rev_image_eqI)
    then obtain slug where "map_of (the_slugs s) k = Some slug" by auto
    then show ?thesis using p by (simp add: app_slug_def suffix_summaries_nth [OF p] d unseen_summary_def Let_def)
  qed
  show ?thesis
    unfolding deliverable_subscribers_def Let_def tail walk prod.case
    by (rule exec_traverse_pure) (use one in auto)
qed

section \<open>The invariant\<close>

lemma rstore_wfD:
  assumes "rstore_wf fm s"
  shows "core_wf (the_core s)" "slugs_mirror (rst_state s)" "times_readable fm (rc_deferred (the_core s))"
  using assms by (simp_all add: rstore_wf_def)

lemma rstore_wf_core:
  assumes "rstore_wf fm s" "core_wf c" "dom (map_of (rc_cursors c)) = dom (map_of (rc_cursors (the_core s)))"
    "times_readable fm (rc_deferred c)" "rr_depth (rc_ring c) = rr_depth (rc_ring (the_core s))"
    "rr_epoch (rc_ring c) = rr_epoch (rc_ring (the_core s))"
  shows "rstore_wf fm (s\<lparr>rst_state := (rst_state s)\<lparr>rg_core := c\<rparr>\<rparr>)"
  using assms by (simp add: rstore_wf_def slugs_mirror_def)

lemma rstore_wf_announce [simp]: "rstore_wf fm (announce s) = rstore_wf fm s"
  by (simp add: rstore_wf_def announce_def)

lemma rstore_wf_announced [simp]: "rstore_wf fm (fold (\<lambda>_. announce) xs s) = rstore_wf fm s"
  by (induction xs arbitrary: s) simp_all

lemma ring_append_epoch [simp]: "rr_epoch (fst (ring_append m r)) = rr_epoch r"
  by (simp add: ring_append_def ring_trim_def Let_def split_beta)

lemma append_all_kept: "rr_depth (append_all ms r) = rr_depth r" "rr_epoch (append_all ms r) = rr_epoch r"
  by (induction ms arbitrary: r) simp_all

definition stays_wf :: "(int \<Rightarrow> 't option) \<Rightarrow> (('u, 't) ring_store \<times> 'o) exec \<Rightarrow> bool" where
  "stays_wf fm m \<longleftrightarrow> (\<exists>s out. m = Ret (s, out) \<and> rstore_wf fm s)"

lemma stays_wf_Ret [simp]: "stays_wf fm (Ret p) = rstore_wf fm (fst p)"
  by (cases p) (simp add: stays_wf_def)

lemma stays_wf_out [simp]: "stays_wf fm (exec_map (map_prod id f) m) = stays_wf fm m"
  by (cases m) (auto simp: stays_wf_def)

lemma append_stays: "rstore_wf fm s \<Longrightarrow> stays_wf fm (rstore_append e s)"
proof -
  assume wf: "rstore_wf fm s"
  let ?r = "core_append e (the_core s)" and ?st = "(rst_state s)\<lparr>rg_core := fst (core_append e (the_core s))\<rparr>"
  have w: "rstore_wf fm (s\<lparr>rst_state := ?st\<rparr>)"
    by (rule rstore_wf_core [OF wf core_wf_append [OF rstore_wfD(1) [OF wf]]])
      (use rstore_wfD(3) [OF wf] in \<open>simp_all add: core_append_state\<close>)
  moreover have "returns (overflow_events ?st (ar_overflow (snd ?r)))"
  proof (rule overflow_events_returns)
    show "slugs_mirror ?st" using rstore_wfD(2) [OF w] by simp
    show "co_subscriber x \<in> dom (map_of (rc_cursors (rg_core ?st)))" if "x \<in> set (ar_overflow (snd ?r))" for x
      using append_overflow_names [OF that] by (simp add: core_append_state)
  qed
  ultimately show ?thesis by (auto simp: rstore_append_def split_beta Let_def returns_iff)
qed

lemma attach_stays: "rstore_wf fm s \<Longrightarrow> rstore_wf fm (fst (rstore_attach k slug d s))"
proof -
  assume wf: "rstore_wf fm s"
  let ?c = "fst (core_attach k d (the_core s))"
  have c: "core_wf ?c" by (rule core_wf_attach [OF rstore_wfD(1) [OF wf]])
  have ring: "rc_ring ?c = rc_ring (the_core s)" "rc_deferred ?c = rc_deferred (the_core s)"
    by (simp_all add: core_attach_def split: option.split)
  have others: "k' \<noteq> k \<Longrightarrow> map_of (rc_cursors ?c) k' = map_of (rc_cursors (the_core s)) k'" for k'
    by (auto simp: core_attach_def hm.get_put hm.get_del [OF core_wfD(3) [OF rstore_wfD(1) [OF wf]]] split: option.split)
  have ok: "hm_ok (the_slugs s)" using wf by (simp add: rstore_wf_def slugs_mirror_def)
  show ?thesis
    using wf c ring others ok
    by (auto simp: rstore_wf_def rstore_attach_def split_beta Let_def slugs_mirror_def core_is_attached_def hm.ok_put hm.ok_del
        hm.get_put hm.get_del [OF ok] dom_def set_eq_iff)
qed

lemma attach_from_stays:
  assumes "rstore_wf fm s" "0 < d" "f \<le> rr_next_seq (rc_ring (the_core s))"
  shows "stays_wf fm (rstore_attach_from k slug d f s)"
proof -
  note wf = rstore_wfD(1) [OF assms(1)]
  obtain c a where r: "core_attach_from k d f (the_core s) = Ret (c, a)"
    using assms(2,3) ring_newest_Suc [OF core_wfD(1) [OF wf]]
    by (cases "map_of (rc_cursors (the_core s)) k") (auto simp: core_attach_from_def)
  have c: "core_wf c" by (rule core_wf_attach_from [OF wf r])
  have ring: "rc_ring c = rc_ring (the_core s)" "rc_deferred c = rc_deferred (the_core s)"
    and dom: "dom (map_of (rc_cursors c)) = insert k (dom (map_of (rc_cursors (the_core s))))"
    using r by (auto simp: core_attach_from_def hm.get_put dom_def split: if_splits option.splits)
  show ?thesis
    using assms(1) r c ring dom
    by (auto simp: rstore_wf_def rstore_attach_from_def slugs_mirror_def hm.ok_put hm.get_put dom_def set_eq_iff)
qed

lemma detach_stays: "rstore_wf fm s \<Longrightarrow> rstore_wf fm (fst (rstore_detach k s))"
  using core_wf_del [of "the_core s" k]
  by (auto simp: rstore_wf_def rstore_detach_def core_detach_def slugs_mirror_def hm.ok_del hm.get_del core_wf_def dom_def set_eq_iff
      split: if_splits)

lemma window_stays: "rstore_wf fm s \<Longrightarrow> rstore_wf fm (fst (rstore_window k p q s))"
proof -
  assume wf: "rstore_wf fm s"
  let ?c = "fst (core_window k p q (the_core s))"
  have "rstore_wf fm (s\<lparr>rst_state := (rst_state s)\<lparr>rg_core := ?c\<rparr>\<rparr>)"
    by (rule rstore_wf_core [OF wf core_wf_window [OF rstore_wfD(1) [OF wf]]])
      (use rstore_wfD(3) [OF wf] in \<open>auto simp: core_window_def Let_def hm.get_put split: option.splits if_splits\<close>)
  then show ?thesis by (simp add: rstore_window_def split_beta)
qed

lemma advance_stays:
  assumes "rstore_wf fm s" "t \<le> rstore_newest_seq s" "f \<le> sat_add64 t 1"
  shows "stays_wf fm (rstore_advance k t f s)"
proof -
  note wf = rstore_wfD(1) [OF assms(1)]
  obtain c a where r: "core_advance k t f (the_core s) = Ret (c, a)"
    using core_advance_returns [OF wf assms(3)] by (metis returnsE surj_pair)
  have "rstore_wf fm (s\<lparr>rst_state := (rst_state s)\<lparr>rg_core := c\<rparr>\<rparr>)"
    by (rule rstore_wf_core [OF assms(1) core_wf_advance [OF wf r]])
      (use r rstore_wfD(3) [OF assms(1)] assms(2) in \<open>auto simp: rstore_newest_seq_def core_advance_def exec_map_Ret_iff hm.get_put split: option.splits if_splits\<close>)
  then show ?thesis using r by (simp add: rstore_advance_def)
qed

lemma release_time_returns: "0 \<le> tm t \<Longrightarrow> release_time_of tm t = Ret (nat (tm t))"
  by (simp add: release_time_of_def)

lemma deferred_stays:
  assumes "rstore_wf fm s" "deferred_wf d" "times_readable fm d"
  shows "rstore_wf fm (s\<lparr>rst_state := (rst_state s)\<lparr>rg_core := (the_core s)\<lparr>rc_deferred := d\<rparr>\<rparr>\<rparr>)"
  by (rule rstore_wf_core [OF assms(1) core_wf_deferred [OF rstore_wfD(1) [OF assms(1)] assms(2)]]) (use assms(3) in simp_all)

lemma park_readable:
  assumes "times_readable fm d" "returns (instant_of fm at)"
  shows "times_readable fm (fst (deferred_park sender m at d))"
  using assms by (auto simp: times_readable_def deferred_park_def Let_def insert_at_def dest: in_set_takeD in_set_dropD split: option.splits if_splits)

lemma park_stays:
  assumes "chrono_ok tm fm" "rstore_wf fm s" "0 \<le> tm t"
  shows "stays_wf fm (rstore_park tm e t s)"
proof -
  let ?d = "fst (deferred_park (me_sender e) e (nat (tm t)) (rc_deferred (the_core s)))"
  note rt = release_time_returns [of tm t, OF assms(3)]
  have "rstore_wf fm (s\<lparr>rst_state := (rst_state s)\<lparr>rg_core := (the_core s)\<lparr>rc_deferred := ?d\<rparr>\<rparr>\<rparr>)"
    by (rule deferred_stays [OF assms(2)])
      (use deferred_wf_park core_wfD(2) [OF rstore_wfD(1) [OF assms(2)]] park_readable [OF rstore_wfD(3) [OF assms(2)] release_time_readable [OF assms(1) rt]] in auto)
  then show ?thesis by (auto simp: rstore_park_def rt core_park_def split_beta split: sum.split)
qed

lemma release_stays:
  assumes "rstore_wf fm s" "0 \<le> tm t"
  shows "stays_wf fm (rstore_release_due tm t s)"
proof -
  let ?at = "nat (tm t)" and ?c = "the_core s"
  let ?r = "core_release_due ?at ?c"
  let ?st = "(rst_state s)\<lparr>rg_core := fst ?r\<rparr>"
  note wf = rstore_wfD(1) [OF assms(1)]
  have st: "rc_cursors (fst ?r) = rc_cursors ?c" "rr_depth (rc_ring (fst ?r)) = rr_depth (rc_ring ?c)"
    "rr_epoch (rc_ring (fst ?r)) = rr_epoch (rc_ring ?c)"
    "set (ds_entries (rc_deferred (fst ?r))) \<subseteq> set (ds_entries (rc_deferred ?c))"
    unfolding core_release_due_eq [OF wf] release_loop_state by (auto simp: append_all_kept)
  have w: "rstore_wf fm (s\<lparr>rst_state := ?st\<rparr>)"
    by (rule rstore_wf_core [OF assms(1) core_wf_release [OF wf]])
      (use times_readable_keep [OF rstore_wfD(3) [OF assms(1)] st(4)] in \<open>simp_all add: st\<close>)
  have "returns (overflow_events ?st (rl_overflow (snd ?r)))"
  proof (rule overflow_events_returns)
    show "slugs_mirror ?st" using rstore_wfD(2) [OF w] by simp
    fix x assume "x \<in> set (rl_overflow (snd ?r))"
    from release_overflow_names [OF this [unfolded core_release_due_eq [OF wf]]]
    show "co_subscriber x \<in> dom (map_of (rc_cursors (rg_core ?st)))" by (simp add: st)
  qed
  then show ?thesis using w by (auto simp: rstore_release_due_def release_time_returns [of tm t, OF assms(2)] split_beta Let_def returns_iff)
qed

lemma views_return:
  assumes "times_readable fm d" "set es \<subseteq> set (ds_entries d)"
  shows "returns (exec_traverse (deferred_view fm) es)"
proof -
  have "\<exists>v. deferred_view fm e = Ret v" if "e \<in> set es" for e
    using assms that by (fastforce simp: times_readable_def deferred_view_def returns_iff)
  then have "list_all2 (\<lambda>e v. deferred_view fm e = Ret v) es (map (\<lambda>e. SOME v. deferred_view fm e = Ret v) es)"
    by (auto simp: list_all2_map2 list_all2_same intro: someI_ex)
  then show ?thesis by (auto simp: returns_iff exec_traverse_Ret_iff)
qed

lemma owned_id_returns:
  assumes "rstore_wf fm s" "0 \<le> tm now"
  obtains (refused) outcome where "owned_id tm fm sender i now (rst_state s) = Ret (Inl outcome)"
    | (owned) j entry where "owned_id tm fm sender i now (rst_state s) = Ret (Inr j)"
      "deferred_get j (rc_deferred (the_core s)) = Some entry" "d_sender entry = sender" "me_message_id (d_message entry) = i"
proof (cases "find (\<lambda>e. me_message_id (d_message e) = i) (ds_entries (rc_deferred (the_core s)))")
  case None
  then show ?thesis using refused by (simp add: owned_id_def release_time_returns [of tm now, OF assms(2)] core_owned_deferred_def)
next
  case (Some entry)
  then have e: "entry \<in> set (ds_entries (rc_deferred (the_core s)))" "me_message_id (d_message entry) = i"
    by (auto simp: find_Some_iff)
  then obtain at where at: "instant_of fm (d_release_at entry) = Ret at"
    using rstore_wfD(3) [OF assms(1)] by (auto simp: times_readable_def returns_iff)
  have "deferred_get (d_id entry) (rc_deferred (the_core s)) = Some entry"
    using e(1) deferred_get_iff [OF core_wfD(2) [OF rstore_wfD(1) [OF assms(1)]]] by simp
  then show ?thesis
    using Some at refused owned e(2)
    by (cases "d_sender entry = sender"; cases "d_release_at entry \<le> nat (tm now)")
      (simp_all add: owned_id_def release_time_returns [of tm now, OF assms(2)] core_owned_deferred_def)
qed

lemma cancel_stays:
  assumes "rstore_wf fm s" "0 \<le> tm now"
  shows "stays_wf fm (rstore_cancel_deferred tm fm sender i now s)"
proof (cases rule: owned_id_returns [where tm = tm and now = now and sender = sender and i = i, OF assms, case_names refused owned])
  case (refused outcome)
  then show ?thesis using assms(1) by (simp add: rstore_cancel_deferred_def)
next
  case (owned j entry)
  note wf = core_wfD(2) [OF rstore_wfD(1) [OF assms(1)]]
  have "rstore_wf fm (s\<lparr>rst_state := (rst_state s)\<lparr>rg_core := (the_core s)\<lparr>rc_deferred := fst (deferred_cancel j (rc_deferred (the_core s)))\<rparr>\<rparr>\<rparr>)"
    by (rule deferred_stays [OF assms(1) deferred_wf_cancel [OF wf] times_readable_keep [OF rstore_wfD(3) [OF assms(1)]]])
      (auto simp: deferred_cancel_eq [OF wf])
  then show ?thesis
    using owned by (auto simp: rstore_cancel_deferred_def core_cancel_deferred_def split_beta split: option.split)
qed

lemma edit_stays:
  assumes "chrono_ok tm fm" "rstore_wf fm s" "0 \<le> tm now" "case at of None \<Rightarrow> True | Some t \<Rightarrow> 0 \<le> tm t"
  shows "stays_wf fm (rstore_edit_deferred tm fm sender i body at now s)"
proof (cases rule: owned_id_returns [where tm = tm and now = now and sender = sender and i = i, OF assms(2,3), case_names refused owned])
  case (refused outcome)
  then show ?thesis using assms(2) by (simp add: rstore_edit_deferred_def)
next
  case (owned j entry)
  let ?m = "map_option (\<lambda>b. (d_message entry)\<lparr>me_body := b\<rparr>) body" and ?t = "map_option (\<lambda>t. nat (tm t)) at"
  note wf = core_wfD(2) [OF rstore_wfD(1) [OF assms(2)]]
  obtain es rest where ed: "deferred_edit j ?m ?t (rc_deferred (the_core s)) = ((rc_deferred (the_core s))\<lparr>ds_entries := es\<rparr>, Inr ())"
    "mset (ds_entries (rc_deferred (the_core s))) = add_mset entry rest" "mset es = add_mset (edited ?m ?t entry) rest"
    using deferred_edit_found [OF wf owned(2), of ?m ?t] by metis
  have "returns (instant_of fm (nat (tm t)))" if "at = Some t" for t
    using release_time_readable [OF assms(1) release_time_returns [of tm t]] assms(4) that by simp
  moreover have "set es = insert (edited ?m ?t entry) (set_mset rest)" "set (ds_entries (rc_deferred (the_core s))) = insert entry (set_mset rest)"
    using ed(2,3) by (metis set_mset_add_mset_insert set_mset_mset)+
  ultimately have "times_readable fm ((rc_deferred (the_core s))\<lparr>ds_entries := es\<rparr>)"
    using rstore_wfD(3) [OF assms(2)] by (cases at) (auto simp: times_readable_def edited_def)
  moreover have "deferred_wf ((rc_deferred (the_core s))\<lparr>ds_entries := es\<rparr>)"
    using deferred_wf_edit [OF wf, of j ?m ?t] ed(1) by simp
  ultimately have w: "rstore_wf fm (s\<lparr>rst_state := (rst_state s)\<lparr>rg_core := (the_core s)\<lparr>rc_deferred := (rc_deferred (the_core s))\<lparr>ds_entries := es\<rparr>\<rparr>\<rparr>\<rparr>)"
    by (intro deferred_stays [OF assms(2)])
  have b: "(case body of None \<Rightarrow> Ret None
      | Some b \<Rightarrow> (case core_deferred_entry j (the_core s) of None \<Rightarrow> Panic | Some entry \<Rightarrow> Ret (Some ((d_message entry)\<lparr>me_body := b\<rparr>)))) = Ret ?m"
    using owned(2) by (simp add: core_deferred_entry_def split: option.split)
  have t: "(case at of None \<Rightarrow> Ret None | Some t \<Rightarrow> exec_map Some (release_time_of tm t)) = Ret ?t"
    using assms(4) by (auto simp: release_time_of_def split: option.split)
  show ?thesis
    using owned(1) ed(1) w by (simp add: rstore_edit_deferred_def b t core_edit_deferred_def)
qed

lemma view_stays: "rstore_wf fm s \<Longrightarrow> returns m \<Longrightarrow> stays_wf fm (exec_map (\<lambda>v. (s, f v)) m)"
  by (auto simp: returns_iff)

lemma rstore_step_stays:
  assumes "chrono_ok tm fm" "rstore_wf fm s" "rstore_legal tm s op"
  shows "stays_wf fm (rstore_step tm fm s op)"
proof -
  note view = view_stays [OF assms(2)]
  show ?thesis
  proof (cases op)
    case RsDeliverable
    then show ?thesis using deliverable_eq [OF assms(2)] assms(2) by simp
  next
    case (RsHasDeliverable k)
    then show ?thesis using assms(2,3) by (simp add: rstore_has_deliverable_def rstore_is_attached_def)
  next
    case RsNextRelease
    have "returns (rstore_next_release fm s)"
      using rstore_wfD(3) [OF assms(2)]
      by (cases "ds_entries (rc_deferred (the_core s))")
        (simp_all add: rstore_next_release_def core_next_release_def deferred_next_release_def times_readable_def)
    from view [OF this] show ?thesis using RsNextRelease by simp
  next
    case (RsViewSender k)
    have "returns (rstore_deferred_for_sender fm k s)"
      unfolding rstore_deferred_for_sender_def
      by (rule views_return [OF rstore_wfD(3) [OF assms(2)]]) (auto simp: core_deferred_for_sender_def deferred_for_sender_def)
    from view [OF this] show ?thesis using RsViewSender by simp
  next
    case (RsViewAll t)
    have "returns (exec_traverse (deferred_view fm) (core_deferred_at (nat (tm t)) (the_core s)))"
      by (rule views_return [OF rstore_wfD(3) [OF assms(2)]]) (auto simp: core_deferred_at_def)
    then have "returns (rstore_deferred tm fm t s)"
      using RsViewAll assms(3) by (simp add: rstore_deferred_def release_time_of_def)
    from view [OF this] show ?thesis using RsViewAll by simp
  qed (use assms in \<open>simp_all add: append_stays attach_stays attach_from_stays detach_stays window_stays
      advance_stays park_stays release_stays cancel_stays edit_stays\<close>)
qed

interpretation rstore_sys: contract_system "rstore_step tm fm" "\<lambda>s. chrono_ok tm fm \<and> rstore_wf fm s" "rstore_legal tm"
  for tm :: "'t::linorder \<Rightarrow> int" and fm :: "int \<Rightarrow> 't option"
  by unfold_locales (use rstore_step_stays in \<open>auto simp: stays_wf_def\<close>)

lemma with_epoch_wf:
  assumes "with_epoch uuid address d ep = Ret s"
  shows "rstore_wf fm s" "rst_epoch s = ep" "rst_address s = address"
proof -
  obtain n caps where s: "s = \<lparr>rst_epoch = ep, rst_channel_uuid = uuid, rst_address = address, rst_capabilities = caps,
      rst_publishes = 0, rst_state = \<lparr>rg_core = core_new ep n, rg_app_slugs = []\<rparr>\<rparr>" "n \<le> max_ring_retain_depth"
    using assms by (auto simp: with_epoch_def split: option.splits depth.splits if_splits)
  have "core_wf (core_new ep n)" by (rule core_wf_new)
  with s show "rstore_wf fm s" "rst_epoch s = ep" "rst_address s = address"
    by (simp_all add: rstore_wf_def slugs_mirror_def hm_ok_def times_readable_def core_new_def deferred_new_def ring_new_def)
qed

section \<open>Replays\<close>

text \<open>Whatever it decides, a replay is a suffix of everything ever published, within its bound; \<^verbatim>\<open>Exact\<close> and
  \<^verbatim>\<open>UpToDate\<close> mean that nothing after the cursor is missing from it.\<close>

definition honest_replay :: "('u, 't) message_envelope list \<Rightarrow> 'u resume option \<Rightarrow> nat \<Rightarrow> ('u, 't) store_replay \<Rightarrow> bool" where
  "honest_replay h cursor n replay \<longleftrightarrow>
     sr_messages replay = drop (length h - length (sr_messages replay)) (numbered h) \<and> length (sr_messages replay) \<le> min n (length h) \<and>
     (case sr_decision replay of
        Fresh \<Rightarrow> cursor = None
      | UpToDate \<Rightarrow> (\<exists>cur. cursor = Some cur \<and> rs_epoch cur = sr_epoch replay \<and> rs_seq cur = length h \<and> sr_messages replay = [])
      | Exact \<Rightarrow> (\<exists>cur. cursor = Some cur \<and> rs_epoch cur = sr_epoch replay \<and> rs_seq cur < length h \<and> sr_messages replay = drop (rs_seq cur) (numbered h))
      | Gap reason \<Rightarrow> (\<exists>cur. cursor = Some cur \<and> (reason = EpochChanged \<longleftrightarrow> rs_epoch cur \<noteq> sr_epoch replay) \<and>
          (reason = ResumeAhead \<longrightarrow> length h < rs_seq cur) \<and> (reason = BeyondRetained \<longrightarrow> rs_seq cur < length h)))"

lemma store_replay_honest:
  assumes "ring_of_history h r" "length h < u64_max"
  shows "honest_replay h cursor (length h) \<lparr>sr_epoch = rr_epoch r, sr_messages = rp_messages (ring_replay cursor r), sr_decision = rp_decision (ring_replay cursor r)\<rparr>"
proof -
  let ?k = "length (rr_entries r)"
  have n: "ring_newest_seq r = length h" and k: "?k \<le> length h" and e: "rr_entries r = drop (length h - ?k) (numbered h)"
    using assms(1) by (rule ring_of_history_newest, rule ring_of_history_length, intro ring_of_history_entries [OF assms(1)] refl)
  show ?thesis
  proof (cases cursor)
    case None
    then show ?thesis using k e by (simp add: ring_replay_def honest_replay_def)
  next
    case (Some cur)
    consider "rs_epoch cur \<noteq> rr_epoch r" | "rs_epoch cur = rr_epoch r" "length h < rs_seq cur"
      | "rs_epoch cur = rr_epoch r" "rs_seq cur = length h"
      | "rs_epoch cur = rr_epoch r" "rs_seq cur < length h" "length h - ?k \<le> rs_seq cur"
      | "rs_epoch cur = rr_epoch r" "rs_seq cur < length h" "rs_seq cur < length h - ?k" by linarith
    then show ?thesis
    proof cases
      case 4
      then obtain x es where x: "rr_entries r = x # es" using e by (cases "rr_entries r") auto
      have "r_seq x = Suc (length h) - ?k"
        using ring_entry_seq [OF ring_of_history_wf [OF assms(1)], of 0] x ring_of_history_next [OF assms(1)] by simp
      then have "r_seq x \<le> Suc (rs_seq cur)" using 4(3) k by auto
      then have "ring_replay cursor r = \<lparr>rp_messages = drop (rs_seq cur) (numbered h), rp_decision = Exact\<rparr>"
        using 4 Some n x ring_since_history [OF assms 4(3)] by (simp add: ring_replay_def)
      then show ?thesis using Some 4 by (simp add: honest_replay_def)
    next
      case 5
      have "rp_messages (ring_replay cursor r) = rr_entries r \<and> rp_decision (ring_replay cursor r) = Gap BeyondRetained"
      proof (cases "rr_entries r")
        case Nil
        then show ?thesis using 5 Some n by (simp add: ring_replay_def)
      next
        case (Cons x es)
        have "r_seq x = Suc (length h) - ?k"
          using ring_entry_seq [OF ring_of_history_wf [OF assms(1)], of 0] Cons ring_of_history_next [OF assms(1)] by simp
        then show ?thesis using 5 Some n Cons k by (simp add: ring_replay_def)
      qed
      then show ?thesis using Some 5 k e by (simp add: honest_replay_def)
    qed (use Some n k e in \<open>auto simp: ring_replay_def honest_replay_def\<close>)
  qed
qed

lemma clamp_honest:
  assumes "honest_replay h cursor n replay"
  shows "honest_replay h cursor (min n (case limit of Bounded d \<Rightarrow> d | Unbounded \<Rightarrow> n)) (clamp_replay replay limit)"
proof (cases "\<exists>d. limit = Bounded d \<and> d < length (sr_messages replay)")
  case True
  then obtain d where d: "limit = Bounded d" "d < length (sr_messages replay)" by blast
  let ?ms = "sr_messages replay"
  have m: "?ms = drop (length h - length ?ms) (numbered h)" "length ?ms \<le> length h" "length ?ms \<le> n"
    using assms by (simp_all add: honest_replay_def)
  have "drop (length ?ms - d) ?ms = drop (length h - d) (numbered h)"
    using d(2) m(2) by (subst m(1)) (simp add: drop_drop)
  moreover have "\<exists>cur. cursor = Some cur \<and> rs_epoch cur = sr_epoch replay \<and> rs_seq cur < length h" if ex: "sr_decision replay = Exact"
  proof -
    obtain cur where c: "cursor = Some cur" "rs_epoch cur = sr_epoch replay" "?ms = drop (rs_seq cur) (numbered h)"
      using assms ex by (auto simp: honest_replay_def)
    have "length ?ms = length h - rs_seq cur" unfolding c(3) by simp
    then show ?thesis using c(1,2) d(2) by auto
  qed
  moreover have "?ms \<noteq> []" using d(2) by auto
  ultimately show ?thesis
    using assms d m(2,3) by (auto simp: clamp_replay_def honest_replay_def split: replay_decision.splits)
next
  case False
  then have "clamp_replay replay limit = replay" by (auto simp: clamp_replay_def not_less split: depth.split)
  then show ?thesis using assms False by (auto simp: honest_replay_def not_less split: depth.split)
qed

lemma replay_from_honest:
  assumes "ring_of_history h (rc_ring (the_core s))" "length h < u64_max" "rr_epoch (rc_ring (the_core s)) = rst_epoch s"
  shows "honest_replay h cursor (min (length h) (case limit of Bounded d \<Rightarrow> d | Unbounded \<Rightarrow> length h)) (replay_from cursor limit s)"
  using clamp_honest [OF store_replay_honest [OF assms(1,2)], of cursor limit]
  by (simp add: replay_from_def rstore_replay_def assms(3) Let_def)

section \<open>Properties\<close>

lemma narrowed_is_min: "narrowed_by a b = min a b" and widened_is_max: "widened_by a b = max a b" for a b :: depth
  by (cases a; cases b; auto simp: min_def max_def)+

text \<open>C12. A ring store is well typed in use: from its construction, no sequence of bus calls that respects the
  documented duties panics, whatever it interleaves. In particular the hand-kept map of application slugs
  covers exactly the attached subscribers, so no overflow report or wake summary can miss one; every parked
  release time reads back as an instant; and retention never exceeds its cap.\<close>

theorem rstore_total:
  assumes "chrono_ok tm fm" "with_epoch uuid address d ep = Ret s0" "legal_run (rstore_step tm fm) (rstore_legal tm) s0 ops"
  shows "\<exists>s outs. run (rstore_step tm fm) s0 ops = Ret (s, outs) \<and>
    dom (map_of (the_slugs s)) = dom (map_of (rc_cursors (the_core s))) \<and>
    (\<forall>e\<in>set (ds_entries (rc_deferred (the_core s))). returns (instant_of fm (d_release_at e))) \<and>
    retained_len s \<le> max_ring_retain_depth"
proof -
  obtain s outs where "run (rstore_step tm fm) s0 ops = Ret (s, outs)" and wf: "rstore_wf fm s"
    using rstore_sys.legal_run_ok [OF _ assms(3)] assms(1) with_epoch_wf(1) [OF assms(2)] by blast
  moreover have "retained_len s \<le> max_ring_retain_depth"
    using wf core_wfD(1) [OF rstore_wfD(1) [OF wf]] by (simp add: rstore_wf_def retained_len_def ring_len_def ring_wf_def)
  ultimately show ?thesis by (auto simp: rstore_wf_def slugs_mirror_def times_readable_def)
qed

text \<open>C18. The wake summary is exact. The single backward walk over the retained entries gives every
  deliverable subscriber the loudest urgency and the earliest delivery deadline among the entries it has
  not seen, as recomputing them for each subscriber would, and it lists exactly the deliverable
  subscribers.\<close>

theorem wake_summary_exact:
  assumes "rstore_wf fm s"
  shows "deliverable_subscribers s =
    Ret (map (\<lambda>(k, cursor).
        let unseen = filter (\<lambda>e. sc_next_owed cursor \<le> r_seq e) (rr_entries (rc_ring (the_core s)));
            deadlines = {d. Some d \<in> (\<lambda>e. me_delivery_deadline (r_message e)) ` set unseen}
        in \<lparr>ds_subscriber = k, ds_app_slug = map_of (the_slugs s) k,
            ds_max_unseen_urgency = Max ((\<lambda>e. me_urgency (r_message e)) ` set unseen),
            ds_earliest_unseen_deadline = (if deadlines = {} then None else Some (Min deadlines))\<rparr>)
      (filter (\<lambda>(_, cursor). cursor_has_deliverable cursor (rc_ring (the_core s))) (rc_cursors (the_core s))))"
  unfolding deliverable_eq [OF assms]
  by (simp add: unseen_summary_def loudest_of_def soonest_of_def Let_def image_image split_beta cong: map_cong)

definition ms_of :: "nat \<Rightarrow> int" where
  "ms_of t = int (min t 1000)"

definition at_ms :: "int \<Rightarrow> nat option" where
  "at_ms i = Some (nat i)"

lemma ms_chrono: "chrono_ok ms_of at_ms"
  by (auto simp: chrono_ok_def ms_of_def at_ms_def i64_max_def)

definition urgent_letter :: "nat \<Rightarrow> urgency \<Rightarrow> nat option \<Rightarrow> (nat, nat) message_envelope" where
  "urgent_letter i u deadline = \<lparr>me_message_id = i, me_source = ''s'', me_channel = ''ephemeral:c'', me_sender = ''p'', me_publish_ts = i,
     me_body = ''b'', me_reply_to = None, me_delivery_deadline = deadline, me_deliver_after = None, me_impetus = None,
     me_urgency = u, me_envelope_type = Ephemeral\<rparr>"

definition rstore_sample_run :: "(nat, nat) rstore_op list" where
  "rstore_sample_run = [RsAttach ''k'' ''app'' 2, RsAppend (urgent_letter 1 High (Some 9)), RsAppend (urgent_letter 2 Low (Some 4)),
     RsAdvance ''k'' 1 1, RsAppend (urgent_letter 3 Normal (Some 7)), RsPark (urgent_letter 4 High None) 5, RsDeliverable]"

definition rstore_sample :: "(nat, nat) ring_store" where
  "rstore_sample = \<lparr>rst_epoch = 0, rst_channel_uuid = 1, rst_address = ''ephemeral:c'', rst_capabilities = transportable_only,
     rst_publishes = 0, rst_state = \<lparr>rg_core = core_new 0 2, rg_app_slugs = []\<rparr>\<rparr>"

lemma rstore_sample_new: "with_epoch 1 ''ephemeral:c'' (Bounded 2) 0 = Ret rstore_sample"
  by (simp add: with_epoch_def scheme_of_def scheme_split_def rstore_sample_def max_ring_retain_depth_def strip_prefix_def
      brenn_address_prefix_def ephemeral_address_prefix_def transportable_only_def)

lemmas rstore_eval = rstore_sample_run_def rstore_sample_def urgent_letter_def rstore_attach_def rstore_append_def rstore_advance_def
  rstore_park_def overflow_events_def app_slug_def announce_def rstore_newest_seq_def release_time_of_def ms_of_def
  core_new_def core_attach_def core_append_def core_overflow_since_def core_advance_def core_is_attached_def core_park_def
  deferred_park_def deferred_new_def position_for_def insert_at_def partition_point_def
  ring_new_def ring_append_def ring_trim_def ring_tail_def ring_primed_from_def ring_newest_seq_def
  ring_oldest_seq_def ring_is_empty_def cursor_primed_def cursor_new_def cursor_set_push_depth_def
  cursor_advance_def cursor_is_push_enabled_def cursor_evicted_since_def cursor_has_deliverable_def retention_frontier_def u64_max_def

lemma rstore_sample_legal: "legal_run (rstore_step ms_of at_ms) (rstore_legal ms_of) rstore_sample rstore_sample_run"
  by (simp add: rstore_eval Let_def del: One_nat_def split: exec.split)

theorem rstore_total_witness:
  "\<exists>s outs. run (rstore_step ms_of at_ms) rstore_sample rstore_sample_run = Ret (s, outs) \<and> retained_len s \<le> 4096"
  using rstore_total [OF ms_chrono rstore_sample_new rstore_sample_legal] by (auto simp: max_ring_retain_depth_def)

lemma rstore_sample_result:
  "\<exists>s outs. run (rstore_step ms_of at_ms) rstore_sample (butlast rstore_sample_run) = Ret (s, outs) \<and>
     rc_ring (the_core s) = \<lparr>rr_epoch = 0, rr_depth = 2, rr_next_seq = 4, rr_entries =
       [\<lparr>r_seq = 2, r_message = urgent_letter 2 Low (Some 4)\<rparr>, \<lparr>r_seq = 3, r_message = urgent_letter 3 Normal (Some 7)\<rparr>]\<rparr> \<and>
     rc_cursors (the_core s) = [(''k'', \<lparr>sc_next_owed = 2, sc_push_depth = 2\<rparr>)] \<and> the_slugs s = [(''k'', ''app'')]"
  by (simp add: rstore_eval Let_def del: One_nat_def)

lemma rstore_sample_butlast_legal:
  "legal_run (rstore_step ms_of at_ms) (rstore_legal ms_of) rstore_sample (butlast rstore_sample_run)"
  by (simp add: rstore_eval Let_def del: One_nat_def)

theorem wake_summary_exact_witness:
  "\<exists>s :: (nat, nat) ring_store. rstore_wf at_ms s \<and> deliverable_subscribers s =
     Ret [\<lparr>ds_subscriber = ''k'', ds_app_slug = Some ''app'', ds_max_unseen_urgency = Normal, ds_earliest_unseen_deadline = Some 4\<rparr>]"
proof -
  obtain s outs where r: "run (rstore_step ms_of at_ms) rstore_sample (butlast rstore_sample_run) = Ret (s, outs)"
    and v: "rc_ring (the_core s) = \<lparr>rr_epoch = 0, rr_depth = 2, rr_next_seq = 4, rr_entries =
       [\<lparr>r_seq = 2, r_message = urgent_letter 2 Low (Some 4)\<rparr>, \<lparr>r_seq = 3, r_message = urgent_letter 3 Normal (Some 7)\<rparr>]\<rparr>"
      "rc_cursors (the_core s) = [(''k'', \<lparr>sc_next_owed = 2, sc_push_depth = 2\<rparr>)]" "the_slugs s = [(''k'', ''app'')]"
    using rstore_sample_result by blast
  have wf: "rstore_wf at_ms s"
    using rstore_sys.legal_run_ok [OF _ rstore_sample_butlast_legal] ms_chrono with_epoch_wf(1) [OF rstore_sample_new] r by auto
  have sets: "{d. d = 4 \<or> d = (7::nat)} = {4, 7}" "(\<forall>x::nat. x \<noteq> 4 \<and> x \<noteq> 7) = False" "max Low Normal = Normal"
    by (auto simp: max_def less_eq_urgency_def)
  have "deliverable_subscribers s =
     Ret [\<lparr>ds_subscriber = ''k'', ds_app_slug = Some ''app'', ds_max_unseen_urgency = Normal, ds_earliest_unseen_deadline = Some 4\<rparr>]"
    unfolding wake_summary_exact [OF wf]
    by (simp add: v sets cursor_has_deliverable_def cursor_is_push_enabled_def ring_is_empty_def ring_newest_seq_def
        urgent_letter_def Let_def cong: if_cong)
  then show ?thesis using wf by blast
qed

end
