(* ===== verification/Attach_Proto.thy ===== *)
theory Attach_Proto
  imports Envelope
begin

text \<open>
  The attachment protocol's frames and its laws, \<^verbatim>\<open>attach/proto/src/lib.rs\<close>: the two frame
  enums, version negotiation, the legality of a batch and the frame cap derived from it. The
  JSON text of a batch follows the serde attributes of the source; how a string is quoted and a
  UUID printed belongs to third-party crates and is a parameter.
\<close>

section \<open>Versions\<close>

record version_range =
  vr_min :: nat
  vr_max :: nat

definition versions_exactly :: "nat \<Rightarrow> version_range" where
  "versions_exactly version = \<lparr>vr_min = version, vr_max = version\<rparr>"

definition supported_versions :: version_range where
  "supported_versions = versions_exactly 4"

definition negotiate :: "version_range \<Rightarrow> version_range \<Rightarrow> nat option" where
  "negotiate a b =
     (let agreed = min (vr_max a) (vr_max b)
      in if agreed \<ge> max (vr_min a) (vr_min b) then Some agreed else None)"

section \<open>Frames\<close>

datatype cursor_token = Cursor string

record batch_entry =
  be_channel :: string
  be_body :: string
  be_urgency :: urgency
  be_deliver_after :: "nat option"

datatype deferred_op_kind = Cancel | Edit "string option" "nat option"

record 'u batch_deferred_op =
  bo_channel :: string
  bo_message_id :: 'u
  bo_op :: deferred_op_kind

datatype alert_severity = Info | Warning | Critical

definition severity_from_wire_str :: "string \<Rightarrow> alert_severity option" where
  "severity_from_wire_str s =
     (if s = ''info'' then Some Info
      else if s = ''warning'' then Some Warning
      else if s = ''critical'' then Some Critical
      else None)"

datatype 'u client_frame =
    CHello version_range string
  | Subscribe string nat nat "cursor_token option"
  | Unsubscribe string
  | Publish string "string option" string urgency "nat option"
  | PublishBatch "string option" nat "batch_entry list" "'u batch_deferred_op list"
  | CAlert "string option" alert_severity string string

datatype subscribe_outcome = SubscribeOk | SubscribeUnavailable

datatype publish_outcome = PublishOk | PublishRateLimited | PublishBodyTooLarge nat nat | PublishFailed

datatype publish_batch_outcome = BatchOk | BatchRateLimited

datatype wire_gap_reason = WireEpochChanged | WireBeyondRetained

record gap_info =
  gi_reason :: wire_gap_reason

record ('u, 't) deliver_row =
  dr_envelope :: "('u, 't) message_envelope"
  dr_seq :: nat
  dr_cursor :: cursor_token
  dr_dropped :: nat

record 'u deferred_view_entry =
  dv_message_id :: 'u
  dv_body :: string
  dv_deliver_after :: nat

record welcome_frame =
  wf_version :: nat
  wf_participant_id :: string
  wf_session_id :: string
  wf_heartbeat_secs :: nat
  wf_max_body_bytes :: nat
  wf_max_frame_bytes :: nat
  wf_alert_granted :: bool

datatype ('u, 't) server_frame =
    SHello version_range string
  | Welcome welcome_frame
  | Heartbeat
  | SubscribeResult string subscribe_outcome nat "gap_info option"
  | Deliver string "('u, 't) deliver_row list"
  | PublishResult "nat option" publish_outcome
  | PublishBatchResult nat publish_batch_outcome
  | DeferredView string "string option" "'u deferred_view_entry list"

section \<open>The law of a batch\<close>

definition publish_frame_overhead_bytes :: nat where "publish_frame_overhead_bytes = 8 * 1024"
definition json_escape_expansion :: nat where "json_escape_expansion = 6"
definition max_batch_ops :: nat where "max_batch_ops = 512"
definition batch_op_overhead_bytes :: nat where "batch_op_overhead_bytes = 256"

datatype batch_illegal = TooManyOps nat nat | TooManyBytes nat nat

definition op_charge :: "'u batch_deferred_op \<Rightarrow> nat" where
  "op_charge op =
     length (bo_channel op) +
     (case bo_op op of
        Cancel \<Rightarrow> 0
      | Edit body _ \<Rightarrow> (case body of None \<Rightarrow> 0 | Some b \<Rightarrow> length b))"

definition batch_charged_bytes :: "batch_entry list \<Rightarrow> 'u batch_deferred_op list \<Rightarrow> nat" where
  "batch_charged_bytes publishes deferred_ops =
     (let entries = sum_list (map (\<lambda>e. length (be_channel e) + length (be_body e)) publishes);
          ops = sum_list (map op_charge deferred_ops)
      in entries + ops)"

definition check_batch_legality ::
  "batch_entry list \<Rightarrow> 'u batch_deferred_op list \<Rightarrow> nat \<Rightarrow> batch_illegal + unit" where
  "check_batch_legality publishes deferred_ops max_body_bytes =
     (let ops = length publishes + length deferred_ops
      in if ops > max_batch_ops then Inl (TooManyOps ops max_batch_ops)
         else let bytes = batch_charged_bytes publishes deferred_ops
              in if bytes > max_body_bytes then Inl (TooManyBytes bytes max_body_bytes)
                 else Inr ())"

text \<open>\<^verbatim>\<open>usize\<close> arithmetic is checked: \<open>usize_max\<close> is the target's largest \<^verbatim>\<open>usize\<close>.\<close>

definition max_client_frame_bytes :: "nat \<Rightarrow> nat \<Rightarrow> nat exec" where
  "max_client_frame_bytes usize_max max_body_bytes =
     (if max_body_bytes * json_escape_expansion > usize_max then Panic
      else if max_body_bytes * json_escape_expansion + max_batch_ops * batch_op_overhead_bytes > usize_max then Panic
      else if max_body_bytes * json_escape_expansion + max_batch_ops * batch_op_overhead_bytes +
                publish_frame_overhead_bytes > usize_max then Panic
      else Ret (max_body_bytes * json_escape_expansion + max_batch_ops * batch_op_overhead_bytes +
                publish_frame_overhead_bytes))"

section \<open>The JSON text of a batch\<close>

text \<open>The serializer serde derives for \<^verbatim>\<open>ClientFrame::PublishBatch\<close>: internally tagged, fields in
  declaration order, absent options and an empty op list skipped.\<close>

fun decimal :: "nat \<Rightarrow> string" where
  "decimal n = (if n < 10 then [char_of (48 + n)] else decimal (n div 10) @ [char_of (48 + n mod 10)])"

declare decimal.simps [simp del]

definition key_json :: "string \<Rightarrow> string" where
  "key_json k = [CHR 0x22] @ k @ [CHR 0x22] @ '':''"

definition opt_field :: "string \<Rightarrow> ('a \<Rightarrow> string) \<Rightarrow> 'a option \<Rightarrow> string" where
  "opt_field k f v = (case v of None \<Rightarrow> '''' | Some x \<Rightarrow> '','' @ key_json k @ f x)"

definition batch_entry_json :: "(string \<Rightarrow> string) \<Rightarrow> batch_entry \<Rightarrow> string" where
  "batch_entry_json quote e =
     ''{'' @ key_json ''channel'' @ quote (be_channel e) @ '','' @ key_json ''body'' @ quote (be_body e) @
     '','' @ key_json ''urgency'' @ quote (urgency_as_str (be_urgency e)) @
     opt_field ''deliver_after'' decimal (be_deliver_after e) @ ''}''"

fun op_kind_json :: "(string \<Rightarrow> string) \<Rightarrow> deferred_op_kind \<Rightarrow> string" where
  "op_kind_json quote Cancel = ''{'' @ key_json ''kind'' @ quote ''cancel'' @ ''}''"
| "op_kind_json quote (Edit body deliver_after) =
     ''{'' @ key_json ''kind'' @ quote ''edit'' @ opt_field ''body'' quote body @
     opt_field ''deliver_after'' decimal deliver_after @ ''}''"

definition batch_op_json :: "(string \<Rightarrow> string) \<Rightarrow> ('u \<Rightarrow> string) \<Rightarrow> 'u batch_deferred_op \<Rightarrow> string" where
  "batch_op_json quote show_uuid op =
     ''{'' @ key_json ''channel'' @ quote (bo_channel op) @ '','' @
     key_json ''message_id'' @ quote (show_uuid (bo_message_id op)) @ '','' @
     key_json ''op'' @ op_kind_json quote (bo_op op) @ ''}''"

definition array_json :: "string list \<Rightarrow> string" where
  "array_json items = ''['' @ join '','' items @ '']''"

definition publish_batch_json ::
  "(string \<Rightarrow> string) \<Rightarrow> ('u \<Rightarrow> string) \<Rightarrow> string option \<Rightarrow> nat \<Rightarrow> batch_entry list \<Rightarrow> 'u batch_deferred_op list \<Rightarrow> string" where
  "publish_batch_json quote show_uuid attribution correlation publishes deferred_ops =
     ''{'' @ key_json ''type'' @ quote ''PublishBatch'' @ opt_field ''attribution'' quote attribution @ '','' @
     key_json ''correlation'' @ decimal correlation @ '','' @
     key_json ''publishes'' @ array_json (map (batch_entry_json quote) publishes) @
     (if deferred_ops = [] then ''''
      else '','' @ key_json ''deferred_ops'' @ array_json (map (batch_op_json quote show_uuid) deferred_ops)) @ ''}''"

section \<open>Lengths\<close>

lemma decimal_length: "n < 10 ^ k \<Longrightarrow> 0 < k \<Longrightarrow> length (decimal n) \<le> k"
proof (induction n arbitrary: k rule: decimal.induct)
  case (1 n)
  show ?case
  proof (cases "n < 10")
    case True
    then show ?thesis using 1(3) by (simp add: decimal.simps [of n])
  next
    case False
    have k: "1 < k"
    proof (rule ccontr)
      assume "\<not> 1 < k"
      then have "k = 1" using 1(3) by simp
      then show False using 1(2) False by simp
    qed
    then have "n div 10 < 10 ^ (k - 1)" using 1(2) by (cases k) (simp_all add: less_mult_imp_div_less mult.commute)
    then have "length (decimal (n div 10)) \<le> k - 1" using 1(1) [OF False, of "k - 1"] k by simp
    then show ?thesis using False k by (simp add: decimal.simps [of n])
  qed
qed

lemma decimal_u64: "n \<le> u64_max \<Longrightarrow> length (decimal n) \<le> 20"
  by (rule decimal_length) (simp_all add: u64_max_def)

text \<open>What the frame cap relies on in the JSON writer and the UUID printer: a quoted string takes at
  most six bytes per source byte and its quotes, an unreserved one exactly its bytes and its quotes,
  and a UUID is thirty-six unreserved characters.\<close>

definition json_quote_ok :: "(string \<Rightarrow> string) \<Rightarrow> bool" where
  "json_quote_ok quote \<longleftrightarrow>
     (\<forall>s. length (quote s) \<le> 6 * length s + 2) \<and>
     (\<forall>s. list_all is_unreserved_char s \<longrightarrow> length (quote s) = length s + 2)"

definition uuid_text_ok :: "('u \<Rightarrow> string) \<Rightarrow> bool" where
  "uuid_text_ok show_uuid \<longleftrightarrow> (\<forall>u. length (show_uuid u) = 36 \<and> list_all is_unreserved_char (show_uuid u))"

lemma length_key_json [simp]: "length (key_json k) = length k + 3"
  by (simp add: key_json_def)

lemma length_opt_field:
  "\<forall>x. v = Some x \<longrightarrow> length (f x) \<le> n \<Longrightarrow> length (opt_field k f v) \<le> length k + 4 + n"
  by (simp add: opt_field_def split: option.split)

lemma quote_le: "json_quote_ok quote \<Longrightarrow> length (quote s) \<le> 6 * length s + 2"
  by (simp add: json_quote_ok_def)

lemma quote_plain: "json_quote_ok quote \<Longrightarrow> list_all is_unreserved_char s \<Longrightarrow> length (quote s) = length s + 2"
  by (simp add: json_quote_ok_def)

lemma urgency_text: "list_all is_unreserved_char (urgency_as_str u)" "length (urgency_as_str u) \<le> 8"
  by (cases u; simp add: is_unreserved_char_def; code_simp)+

lemma quote_urgency:
  "json_quote_ok quote \<Longrightarrow> length (quote (urgency_as_str u)) \<le> 10"
  using quote_plain [OF _ urgency_text(1), of quote u] urgency_text(2) [of u] by simp

definition release_ok :: "nat option \<Rightarrow> bool" where
  "release_ok t \<longleftrightarrow> (case t of None \<Rightarrow> True | Some ms \<Rightarrow> ms \<le> u64_max)"

lemma release_field: "release_ok t \<Longrightarrow> length (opt_field ''deliver_after'' decimal t) \<le> 37"
  using length_opt_field [of t decimal 20 "''deliver_after''"] by (auto simp: release_ok_def decimal_u64 split: option.splits)

lemma entry_length:
  assumes "json_quote_ok quote" and "release_ok (be_deliver_after e)"
  shows "length (batch_entry_json quote e) \<le> 6 * (length (be_channel e) + length (be_body e)) + 255"
  using quote_le [OF assms(1), of "be_channel e"] quote_le [OF assms(1), of "be_body e"]
    quote_urgency [OF assms(1), of "be_urgency e"] release_field [OF assms(2)]
  by (simp add: batch_entry_json_def)

fun op_release :: "deferred_op_kind \<Rightarrow> nat option" where
  "op_release Cancel = None"
| "op_release (Edit _ t) = t"

lemma op_kind_length:
  assumes "json_quote_ok quote" and "release_ok (op_release k)"
  shows "length (op_kind_json quote k) \<le>
     6 * (case k of Cancel \<Rightarrow> 0 | Edit body _ \<Rightarrow> (case body of None \<Rightarrow> 0 | Some b \<Rightarrow> length b)) + 100"
proof (cases k)
  case Cancel
  have "length (quote ''cancel'') = 8" using quote_plain [OF assms(1), of "''cancel''"] by (simp add: is_unreserved_char_def)
  then show ?thesis using Cancel by simp
next
  case (Edit body t)
  have "length (quote ''edit'') = 6" using quote_plain [OF assms(1), of "''edit''"] by (simp add: is_unreserved_char_def)
  moreover have "length (opt_field ''body'' quote body) \<le> 6 * (case body of None \<Rightarrow> 0 | Some b \<Rightarrow> length b) + 10"
    using quote_le [OF assms(1)] by (simp add: opt_field_def split: option.split)
  ultimately show ?thesis using Edit assms(2) release_field [of t] by simp
qed

lemma op_length:
  assumes "json_quote_ok quote" and "uuid_text_ok show_uuid" and "release_ok (op_release (bo_op op))"
  shows "length (batch_op_json quote show_uuid op) \<le> 6 * op_charge op + 255"
proof -
  have "length (quote (show_uuid (bo_message_id op))) = 38"
    using assms(2) quote_plain [OF assms(1)] by (simp add: uuid_text_ok_def)
  then show ?thesis
    using quote_le [OF assms(1), of "bo_channel op"] op_kind_length [OF assms(1,3)]
    by (simp add: batch_op_json_def op_charge_def)
qed

lemma length_join: "length (join '','' xs) \<le> (\<Sum>x\<leftarrow>xs. length x + 1)"
  by (induction "'',''" xs rule: join.induct) auto

lemma array_length:
  assumes "\<forall>x\<in>set xs. length (f x) \<le> 6 * c x + 255"
  shows "length (array_json (map f xs)) \<le> 6 * (\<Sum>x\<leftarrow>xs. c x) + 256 * length xs + 2"
proof -
  have "(\<Sum>x\<leftarrow>xs. length (f x) + 1) \<le> (\<Sum>x\<leftarrow>xs. 6 * c x + 256)"
    by (rule sum_list_mono) (use assms in fastforce)
  also have "\<dots> = 6 * (\<Sum>x\<leftarrow>xs. c x) + 256 * length xs" by (induction xs) auto
  finally show ?thesis using length_join [of "map f xs"] by (simp add: array_json_def comp_def)
qed

section \<open>Properties\<close>

text \<open>Version negotiation is symmetric and maximal: both ends compute the same answer from the
  two ranges; an agreed version lies in both, no higher version does; and there is none exactly when
  no version lies in both ranges, an empty range included.\<close>

lemma negotiate_highest_common:
  "negotiate a b = negotiate b a \<and>
   (negotiate a b = Some v \<longleftrightarrow>
      v \<in> {vr_min a..vr_max a} \<inter> {vr_min b..vr_max b} \<and>
      {vr_min a..vr_max a} \<inter> {vr_min b..vr_max b} \<inter> {v<..} = {}) \<and>
   (negotiate a b = None \<longleftrightarrow> {vr_min a..vr_max a} \<inter> {vr_min b..vr_max b} = {})"
proof (intro conjI)
  show "negotiate a b = negotiate b a" by (simp add: negotiate_def min.commute max.commute)
  show "negotiate a b = None \<longleftrightarrow> {vr_min a..vr_max a} \<inter> {vr_min b..vr_max b} = {}"
    by (auto simp: negotiate_def Let_def min_def max_def split: if_splits)
  show "negotiate a b = Some v \<longleftrightarrow>
      v \<in> {vr_min a..vr_max a} \<inter> {vr_min b..vr_max b} \<and>
      {vr_min a..vr_max a} \<inter> {vr_min b..vr_max b} \<inter> {v<..} = {}"
  proof
    assume "negotiate a b = Some v"
    then show "v \<in> {vr_min a..vr_max a} \<inter> {vr_min b..vr_max b} \<and>
      {vr_min a..vr_max a} \<inter> {vr_min b..vr_max b} \<inter> {v<..} = {}"
      by (auto simp: negotiate_def Let_def split: if_splits)
  next
    assume v: "v \<in> {vr_min a..vr_max a} \<inter> {vr_min b..vr_max b} \<and>
      {vr_min a..vr_max a} \<inter> {vr_min b..vr_max b} \<inter> {v<..} = {}"
    let ?m = "min (vr_max a) (vr_max b)"
    have "?m \<in> {vr_min a..vr_max a} \<inter> {vr_min b..vr_max b}" using v by auto
    then have "?m \<le> v" using v by (metis IntI disjoint_iff greaterThan_iff not_le)
    moreover have "v \<le> ?m" using v by simp
    ultimately have "v = ?m" by (rule antisym [rotated])
    then show "negotiate a b = Some v" using v by (auto simp: negotiate_def Let_def)
  qed
qed

text \<open>C25. A legal batch is a frame its peer will read. Whenever the law admits a batch under a body
  cap, the release times and the correlation being \<^verbatim>\<open>u64\<close> and the attribution at most a kilobyte,
  the JSON text of the frame is within the read cap derived from that body cap, on every target where
  the derivation does not overflow.\<close>

theorem legal_batch_fits_frame:
  assumes "json_quote_ok quote" and "uuid_text_ok show_uuid"
    and "check_batch_legality publishes deferred_ops max_body_bytes = Inr ()"
    and "max_client_frame_bytes usize_max max_body_bytes = Ret cap"
    and "case attribution of None \<Rightarrow> True | Some a \<Rightarrow> length a \<le> 1024" and "correlation \<le> u64_max"
    and "\<forall>e\<in>set publishes. release_ok (be_deliver_after e)"
    and "\<forall>op\<in>set deferred_ops. release_ok (op_release (bo_op op))"
  shows "length (publish_batch_json quote show_uuid attribution correlation publishes deferred_ops) \<le> cap"
proof -
  define pb where "pb = (\<Sum>e\<leftarrow>publishes. length (be_channel e) + length (be_body e))"
  define ob where "ob = (\<Sum>op\<leftarrow>deferred_ops. op_charge op)"
  have law: "length publishes + length deferred_ops \<le> 512" "pb + ob \<le> max_body_bytes"
    using assms(3) by (auto simp: check_batch_legality_def batch_charged_bytes_def max_batch_ops_def
        pb_def ob_def Let_def split: if_splits)
  have cap: "cap = 6 * max_body_bytes + 131072 + 8192"
    using assms(4) by (auto simp: max_client_frame_bytes_def json_escape_expansion_def max_batch_ops_def
        batch_op_overhead_bytes_def publish_frame_overhead_bytes_def split: if_splits)
  have p: "length (array_json (map (batch_entry_json quote) publishes)) \<le> 6 * pb + 256 * length publishes + 2"
    unfolding pb_def by (rule array_length) (use assms(7) entry_length [OF assms(1)] in blast)
  have o: "length (array_json (map (batch_op_json quote show_uuid) deferred_ops)) \<le>
      6 * ob + 256 * length deferred_ops + 2"
    unfolding ob_def by (rule array_length) (use assms(8) op_length [OF assms(1,2)] in blast)
  have t: "length (quote ''PublishBatch'') = 14"
    using quote_plain [OF assms(1), of "''PublishBatch''"] by (simp add: is_unreserved_char_def)
  have a: "length (opt_field ''attribution'' quote attribution) \<le> 15 + 6146"
  proof (cases attribution)
    case (Some x)
    then show ?thesis using assms(5) quote_le [OF assms(1), of x] by (simp add: opt_field_def)
  qed (simp add: opt_field_def)
  show ?thesis
    using p o t a decimal_u64 [OF assms(6)] law cap by (auto simp: publish_batch_json_def)
qed

text \<open>A writer of the kind the hypotheses describe: JSON's two-byte escapes, \<open>\u00XX\<close> for the other
  control characters, every other byte as it is.\<close>

definition hex_digit :: "nat \<Rightarrow> char" where
  "hex_digit n = (if n < 10 then char_of (48 + n) else char_of (87 + n))"

definition json_escape :: "char \<Rightarrow> string" where
  "json_escape c =
     (if c = CHR 0x22 then [CHR 0x5C, CHR 0x22]
      else if c = CHR 0x5C then [CHR 0x5C, CHR 0x5C]
      else if c = CHR 0x08 then [CHR 0x5C, CHR ''b'']
      else if c = CHR 0x09 then [CHR 0x5C, CHR ''t'']
      else if c = CHR 0x0A then [CHR 0x5C, CHR ''n'']
      else if c = CHR 0x0C then [CHR 0x5C, CHR ''f'']
      else if c = CHR 0x0D then [CHR 0x5C, CHR ''r'']
      else if c < CHR 0x20
      then [CHR 0x5C, CHR ''u'', CHR ''0'', CHR ''0'', hex_digit (of_char c div 16), hex_digit (of_char c mod 16)]
      else [c])"

definition json_quote :: "string \<Rightarrow> string" where
  "json_quote s = [CHR 0x22] @ concat (map json_escape s) @ [CHR 0x22]"

lemma unreserved_char_code:
  "is_unreserved_char c \<Longrightarrow> 45 \<le> (of_char c :: nat) \<and> (of_char c :: nat) \<noteq> 92"
  by (auto simp: is_unreserved_char_def less_eq_char_def)

lemma json_quote_is_ok: "json_quote_ok json_quote"
proof -
  have l: "length (json_escape c) \<le> 6" for c by (simp add: json_escape_def)
  have "length (concat (map json_escape s)) \<le> 6 * length s" for s
    by (induction s) (use l in \<open>auto simp: add_mono\<close>)
  moreover have u: "json_escape c = [c]" if "is_unreserved_char c" for c
  proof -
    have c: "45 \<le> (of_char c :: nat)" "(of_char c :: nat) \<noteq> 92" using unreserved_char_code [OF that] by simp_all
    have "\<not> c < CHR 0x20" using c(1) by (simp add: less_char_def)
    moreover have "c \<notin> {CHR 0x22, CHR 0x5C, CHR 0x08, CHR 0x09, CHR 0x0A, CHR 0x0C, CHR 0x0D}"
      using c by auto
    ultimately show ?thesis by (simp add: json_escape_def)
  qed
  have "concat (map json_escape s) = s" if "list_all is_unreserved_char s" for s
    using that by (induction s) (auto simp: u)
  ultimately show ?thesis by (simp add: json_quote_ok_def json_quote_def)
qed

theorem legal_batch_fits_frame_witness:
  "length (publish_batch_json json_quote (\<lambda>_::unit. replicate 36 CHR ''0'') (Some ''agenda'') 7
      [\<lparr>be_channel = ''brenn:a'', be_body = [CHR 0x01, CHR 0x22], be_urgency = High, be_deliver_after = Some 5\<rparr>]
      [\<lparr>bo_channel = ''brenn:a'', bo_message_id = (), bo_op = Cancel\<rparr>]) \<le> 139864"
proof -
  let ?p = "[\<lparr>be_channel = ''brenn:a'', be_body = [CHR 0x01, CHR 0x22], be_urgency = High, be_deliver_after = Some 5\<rparr>]"
  let ?o = "[\<lparr>bo_channel = ''brenn:a'', bo_message_id = (), bo_op = Cancel\<rparr>]"
  have u: "uuid_text_ok (\<lambda>_::unit. replicate 36 CHR ''0'')"
    by (simp add: uuid_text_ok_def is_unreserved_char_def list_all_iff)
  have l: "check_batch_legality ?p ?o 100 = Inr ()"
    by (simp add: check_batch_legality_def max_batch_ops_def batch_charged_bytes_def op_charge_def)
  have c: "max_client_frame_bytes (2 ^ 32 - 1) 100 = Ret 139864"
    by (simp add: max_client_frame_bytes_def json_escape_expansion_def max_batch_ops_def batch_op_overhead_bytes_def
        publish_frame_overhead_bytes_def)
  show ?thesis
    by (rule legal_batch_fits_frame [OF json_quote_is_ok u l c]) (simp_all add: release_ok_def u64_max_def)
qed

end
