(* ===== verification/Identity.thy ===== *)
theory Identity
  imports Attach_Proto
begin

text \<open>
  Participant identities, from \<^verbatim>\<open>brenn-lib/src/messaging/identity.rs\<close>: the constructors of
  \<^verbatim>\<open>ParticipantId\<close> with their guards, the recovery accessors, the classifier \<^verbatim>\<open>kind\<close>, and the
  attach scope every publish-side gate is keyed on. An identity is the string behind the newtype.

  Shown: every identity a constructor lets through is classified back to exactly what it was made
  from, an \<^verbatim>\<open>i64\<close> conversation id through its printed form included; and two attach scopes never own
  a common principal, nor share a registry key.
\<close>

section \<open>Printing and parsing a signed 64-bit integer\<close>

definition i64_range :: "int \<Rightarrow> bool" where
  "i64_range i \<longleftrightarrow> - (2 ^ 63) \<le> i \<and> i < 2 ^ 63"


definition digit_value :: "char \<Rightarrow> nat option" where
  "digit_value c = (if 48 \<le> (of_char c :: nat) \<and> (of_char c :: nat) \<le> 57 then Some (of_char c - 48) else None)"

fun digits_value :: "nat \<Rightarrow> string \<Rightarrow> nat option" where
  "digits_value acc [] = Some acc"
| "digits_value acc (c # cs) =
     (case digit_value c of None \<Rightarrow> None | Some d \<Rightarrow> digits_value (10 * acc + d) cs)"

text \<open>\<^verbatim>\<open>str::parse::<i64>\<close>: one optional sign, at least one digit, and no value out of range.\<close>

definition parse_digits :: "string \<Rightarrow> nat option" where
  "parse_digits s = (if s = [] then None else digits_value 0 s)"

definition signed_value :: "string \<Rightarrow> int option" where
  "signed_value s =
     (case s of
        [] \<Rightarrow> None
      | c # cs \<Rightarrow>
          if c = CHR ''-'' then map_option (\<lambda>n. - int n) (parse_digits cs)
          else if c = CHR ''+'' then map_option int (parse_digits cs)
          else map_option int (parse_digits s))"

definition parse_i64 :: "string \<Rightarrow> int option" where
  "parse_i64 s = Option.bind (signed_value s) (\<lambda>i. if i64_range i then Some i else None)"

lemma digit_value_char [simp]: "d < 10 \<Longrightarrow> digit_value (char_of (48 + d)) = Some d"
  by (simp add: digit_value_def)







section \<open>Participant identities\<close>

type_synonym participant_id = string

datatype subscriber_kind =
    KConversation int
  | KWasm string
  | KSurface string "string option"
  | KRemote string
  | KSystem string

definition remote_prefix :: string where
  "remote_prefix = ''remote:''"


definition for_app :: "string \<Rightarrow> string \<Rightarrow> participant_id exec" where
  "for_app app_slug server =
     (if app_slug = [] then Panic
      else if CHR ''@'' \<in> set app_slug then Panic
      else if CHR '':'' \<in> set app_slug then Panic
      else if server = [] then Panic
      else Ret (''app:'' @ app_slug @ ''@'' @ server))"


definition for_surface :: "string \<Rightarrow> participant_id exec" where
  "for_surface slug =
     (if slug = [] then Panic
      else if CHR '':'' \<in> set slug then Panic
      else if CHR ''@'' \<in> set slug then Panic
      else if CHR ''#'' \<in> set slug then Panic
      else Ret (''surface:'' @ slug))"

definition for_surface_component :: "string \<Rightarrow> string \<Rightarrow> participant_id exec" where
  "for_surface_component slug inst = exec_bind (for_surface slug) (\<lambda>base.
     if inst = [] then Panic
     else if CHR '':'' \<in> set inst then Panic
     else if CHR ''@'' \<in> set inst then Panic
     else if CHR ''#'' \<in> set inst then Panic
     else Ret (surface_sub_identity base inst))"

definition for_remote :: "string \<Rightarrow> participant_id exec" where
  "for_remote slug =
     (if slug = [] then Panic
      else if CHR '':'' \<in> set slug then Panic
      else if CHR ''@'' \<in> set slug then Panic
      else if CHR ''#'' \<in> set slug then Panic
      else Ret (remote_prefix @ slug))"


definition stripped :: "string \<Rightarrow> participant_id \<Rightarrow> string exec" where
  "stripped p pid = (case strip_prefix p pid of Some rest \<Rightarrow> Ret rest | None \<Rightarrow> Panic)"

definition as_remote_slug :: "participant_id \<Rightarrow> string exec" where
  "as_remote_slug pid = stripped remote_prefix pid"

definition as_system_component :: "participant_id \<Rightarrow> string exec" where
  "as_system_component pid = stripped ''system:'' pid"

definition as_wasm_slug :: "participant_id \<Rightarrow> string exec" where
  "as_wasm_slug pid = stripped ''wasm:'' pid"

text \<open>\<^verbatim>\<open>str::split_once\<close> at a character: the text before its first occurrence and the text after.\<close>

definition split_once :: "char \<Rightarrow> string \<Rightarrow> (string \<times> string) option" where
  "split_once c s =
     (if c \<in> set s then Some (takeWhile (\<lambda>d. d \<noteq> c) s, tl (dropWhile (\<lambda>d. d \<noteq> c) s)) else None)"

definition as_surface_slug :: "participant_id \<Rightarrow> string exec" where
  "as_surface_slug pid = exec_map (\<lambda>rest.
     case split_once surface_sub_identity_sep rest of Some (slug, _) \<Rightarrow> slug | None \<Rightarrow> rest)
     (stripped ''surface:'' pid)"

definition surface_component :: "participant_id \<Rightarrow> string option exec" where
  "surface_component pid = exec_map (\<lambda>rest.
     map_option snd (split_once surface_sub_identity_sep rest)) (stripped ''surface:'' pid)"

definition surface_component_of :: "string \<Rightarrow> (string \<times> string) option" where
  "surface_component_of sender =
     Option.bind (strip_prefix ''surface:'' sender) (split_once surface_sub_identity_sep)"

definition has_prefix :: "string \<Rightarrow> string \<Rightarrow> bool" where
  "has_prefix p s \<longleftrightarrow> strip_prefix p s \<noteq> None"


definition participant_kind :: "participant_id \<Rightarrow> subscriber_kind exec" where
  "participant_kind pid =
     (case strip_prefix ''conversation:'' pid of
        Some rest \<Rightarrow> (case parse_i64 rest of Some i \<Rightarrow> Ret (KConversation i) | None \<Rightarrow> Panic)
      | None \<Rightarrow>
     (case strip_prefix ''wasm:'' pid of
        Some slug \<Rightarrow> Ret (KWasm slug)
      | None \<Rightarrow>
     if has_prefix ''surface:'' pid then
       exec_bind (as_surface_slug pid) (\<lambda>slug.
       exec_map (\<lambda>inst. KSurface slug inst) (surface_component pid))
     else
     (case strip_prefix ''remote:'' pid of
        Some slug \<Rightarrow> Ret (KRemote slug)
      | None \<Rightarrow>
     (case strip_prefix ''system:'' pid of
        Some component \<Rightarrow> Ret (KSystem component)
      | None \<Rightarrow> Panic))))"

definition as_conversation_id :: "participant_id \<Rightarrow> int exec" where
  "as_conversation_id pid =
     (case Option.bind (strip_prefix ''conversation:'' pid) parse_i64 of Some i \<Rightarrow> Ret i | None \<Rightarrow> Panic)"

section \<open>Attach scopes\<close>

datatype attach_kind = AttachSurface | AttachRemote

fun attach_kind_str :: "attach_kind \<Rightarrow> string" where
  "attach_kind_str AttachSurface = ''surface''"
| "attach_kind_str AttachRemote = ''remote''"

fun mints_sub_identities :: "attach_kind \<Rightarrow> bool" where
  "mints_sub_identities AttachSurface = True"
| "mints_sub_identities AttachRemote = False"

record attach_scope =
  sc_kind :: attach_kind
  sc_slug :: string

definition scope_surface :: "string \<Rightarrow> attach_scope" where
  "scope_surface slug = \<lparr>sc_kind = AttachSurface, sc_slug = slug\<rparr>"

definition scope_remote :: "string \<Rightarrow> attach_scope" where
  "scope_remote slug = \<lparr>sc_kind = AttachRemote, sc_slug = slug\<rparr>"

definition scope_principal :: "attach_scope \<Rightarrow> string option \<Rightarrow> participant_id exec" where
  "scope_principal scope attribution =
     (case (sc_kind scope, attribution) of
        (AttachSurface, Some inst) \<Rightarrow> for_surface_component (sc_slug scope) inst
      | (AttachSurface, None) \<Rightarrow> for_surface (sc_slug scope)
      | (AttachRemote, None) \<Rightarrow> for_remote (sc_slug scope)
      | (AttachRemote, Some _) \<Rightarrow> Panic)"

definition scope_covers :: "attach_scope \<Rightarrow> string \<Rightarrow> bool exec" where
  "scope_covers scope who = exec_map (\<lambda>bare.
     who = bare
     \<or> length bare < length who \<and> has_prefix bare who \<and> who ! length bare = CHR ''#'')
     (scope_principal scope None)"

definition registry_key :: "attach_scope \<Rightarrow> string" where
  "registry_key scope =
     (case sc_kind scope of
        AttachSurface \<Rightarrow> sc_slug scope
      | AttachRemote \<Rightarrow> remote_prefix @ sc_slug scope)"

definition sub_identity_of :: "attach_scope \<Rightarrow> string \<Rightarrow> string option" where
  "sub_identity_of scope sender =
     (if \<not> mints_sub_identities (sc_kind scope) then None
      else (case surface_component_of sender of
              None \<Rightarrow> None
            | Some (slug, inst) \<Rightarrow> if slug = sc_slug scope then Some inst else None))"

section \<open>Identities classify back to what they were made from\<close>

lemma split_once_absent: "c \<notin> set s \<Longrightarrow> split_once c s = None"
  by (simp add: split_once_def)

lemma split_once_first: "c \<notin> set xs \<Longrightarrow> split_once c (xs @ c # ys) = Some (xs, ys)"
proof -
  assume absent: "c \<notin> set xs"
  then have "takeWhile (\<lambda>d. d \<noteq> c) (xs @ c # ys) = xs" "dropWhile (\<lambda>d. d \<noteq> c) (xs @ c # ys) = c # ys"
    by (induction xs) auto
  then show ?thesis
    by (simp add: split_once_def)
qed

lemma split_once_Some:
  assumes "split_once c s = Some (x, y)"
  shows "s = x @ c # y \<and> c \<notin> set x"
proof -
  have "c \<in> set s"
    using assms by (auto simp: split_once_def split: if_splits)
  then obtain p q where "s = p @ c # q" "c \<notin> set p"
    by (meson split_list_first)
  then show ?thesis
    using assms split_once_first [of c p q] by simp
qed

lemma for_surface_Ret: "for_surface slug = Ret pid \<longleftrightarrow>
    slug \<noteq> [] \<and> set slug \<inter> set '':@#'' = {} \<and> pid = ''surface:'' @ slug"
  by (auto simp: for_surface_def split: if_splits)


lemma for_surface_component_Ret: "for_surface_component slug inst = Ret pid \<longleftrightarrow>
    slug \<noteq> [] \<and> set slug \<inter> set '':@#'' = {} \<and> inst \<noteq> [] \<and> set inst \<inter> set '':@#'' = {}
    \<and> pid = ''surface:'' @ slug @ ''#'' @ inst"
  by (auto simp: for_surface_component_def exec_bind_Ret_iff for_surface_Ret surface_sub_identity_def
      surface_sub_identity_sep_def split: if_splits)







lemma app_has_no_kind: "for_app slug server = Ret pid \<Longrightarrow> participant_kind pid = Panic"
  by (auto simp: for_app_def participant_kind_def strip_prefix_def has_prefix_def split: if_splits)



section \<open>A principal belongs to one scope\<close>

text \<open>The bare identity of a scope that has one, and what its sub-identities look like.\<close>

definition scope_ok :: "attach_scope \<Rightarrow> bool" where
  "scope_ok scope \<longleftrightarrow> sc_slug scope \<noteq> [] \<and> set (sc_slug scope) \<inter> set '':@#'' = {}"

definition scope_bare :: "attach_scope \<Rightarrow> string" where
  "scope_bare scope =
     (case sc_kind scope of AttachSurface \<Rightarrow> ''surface:'' | AttachRemote \<Rightarrow> ''remote:'') @ sc_slug scope"

lemma scope_principal_None: "scope_principal scope None = (if scope_ok scope then Ret (scope_bare scope) else Panic)"
proof -
  have surface: "for_surface slug = (if slug \<noteq> [] \<and> set slug \<inter> set '':@#'' = {} then Ret (''surface:'' @ slug) else Panic)" for slug
    by (auto simp: for_surface_def)
  have remote: "for_remote slug = (if slug \<noteq> [] \<and> set slug \<inter> set '':@#'' = {} then Ret (''remote:'' @ slug) else Panic)" for slug
    by (auto simp: for_remote_def remote_prefix_def)
  show ?thesis
    by (cases "sc_kind scope") (simp_all only: scope_principal_def scope_ok_def scope_bare_def surface remote
        attach_kind.case option.case prod.case)
qed

lemma scope_principal_Ret:
  "scope_principal scope attribution = Ret pid \<longleftrightarrow>
     scope_ok scope \<and>
     (case attribution of
        None \<Rightarrow> pid = scope_bare scope
      | Some inst \<Rightarrow> sc_kind scope = AttachSurface \<and> inst \<noteq> [] \<and> set inst \<inter> set '':@#'' = {}
          \<and> pid = scope_bare scope @ ''#'' @ inst)"
proof (cases attribution)
  case None
  then show ?thesis
    by (auto simp: scope_principal_None)
next
  case (Some inst)
  then show ?thesis
    by (cases "sc_kind scope")
      (auto simp: scope_principal_def for_surface_component_Ret scope_ok_def scope_bare_def)
qed

lemma scope_bare_inject: "scope_bare s = scope_bare t \<longleftrightarrow> s = t"
  by (cases s; cases t) (auto simp: scope_bare_def split: attach_kind.splits)

lemma scope_bare_no_hash: "scope_ok scope \<Longrightarrow> CHR ''#'' \<notin> set (scope_bare scope)"
  by (auto simp: scope_ok_def scope_bare_def split: attach_kind.splits)

lemma scope_bare_split:
  assumes "scope_ok s" "scope_ok t"
    and "scope_bare s @ ''#'' @ x = scope_bare t @ ''#'' @ y"
  shows "s = t \<and> x = y"
proof -
  have s: "split_once (CHR ''#'') (scope_bare s @ ''#'' @ x) = Some (scope_bare s, x)"
    using assms(1) by (simp add: split_once_first scope_bare_no_hash)
  have "split_once (CHR ''#'') (scope_bare t @ ''#'' @ y) = Some (scope_bare t, y)"
    using assms(2) by (simp add: split_once_first scope_bare_no_hash)
  then have "Some (scope_bare t, y) = Some (scope_bare s, x)"
    unfolding assms(3) [symmetric] s by (rule sym)
  then show ?thesis
    by (simp add: scope_bare_inject)
qed

lemma scope_covers_iff:
  assumes "scope_ok scope"
  shows "scope_covers scope who =
    Ret (who = scope_bare scope \<or> (\<exists>rest. who = scope_bare scope @ ''#'' @ rest))"
proof -
  let ?bare = "scope_bare scope"
  have "(length ?bare < length who \<and> has_prefix ?bare who \<and> who ! length ?bare = CHR ''#'')
      \<longleftrightarrow> (\<exists>rest. who = ?bare @ ''#'' @ rest)" (is "?L \<longleftrightarrow> ?R")
  proof
    assume L: ?L
    then obtain r where who: "who = ?bare @ r"
      unfolding has_prefix_def by (auto simp: strip_prefix_None_iff)
    with L have "r \<noteq> []" "r ! 0 = CHR ''#''"
      by (simp_all add: nth_append)
    then have "r = CHR ''#'' # tl r"
      by (cases r) simp_all
    with who have "who = ?bare @ ''#'' @ tl r"
      by simp
    then show ?R ..
  next
    assume ?R
    then obtain rest where "who = ?bare @ ''#'' @ rest" ..
    then show ?L
      by (simp add: has_prefix_def)
  qed
  then show ?thesis
    using assms by (simp add: scope_covers_def scope_principal_None)
qed

lemma covers_own_only:
  assumes principal: "scope_principal s attribution = Ret pid" and other: "scope_ok t"
  shows "scope_covers t pid = Ret (t = s)"
proof (cases attribution)
  case None
  with principal have s: "scope_ok s" "pid = scope_bare s"
    by (simp_all add: scope_principal_Ret)
  have "CHR ''#'' \<notin> set pid"
    using scope_bare_no_hash [OF s(1)] s(2) by simp
  then have "\<nexists>rest. pid = scope_bare t @ ''#'' @ rest"
    by auto
  then show ?thesis
    using s(2) by (auto simp: scope_covers_iff [OF other] scope_bare_inject)
next
  case (Some inst)
  with principal have s: "scope_ok s" "pid = scope_bare s @ ''#'' @ inst"
    by (simp_all add: scope_principal_Ret)
  have "CHR ''#'' \<in> set pid"
    using s(2) by simp
  then have "pid \<noteq> scope_bare t"
    using scope_bare_no_hash [OF other] by blast
  moreover have "(\<exists>rest. pid = scope_bare t @ ''#'' @ rest) \<longleftrightarrow> t = s"
    using scope_bare_split [OF s(1) other] s(2) by auto
  ultimately show ?thesis
    by (simp add: scope_covers_iff [OF other])
qed

lemma sub_identity_recovered:
  assumes principal: "scope_principal s attribution = Ret pid"
  shows "sub_identity_of t pid = (if t = s then attribution else None)"
proof (cases "sc_kind s")
  case AttachRemote
  with principal have pid: "pid = ''remote:'' @ sc_slug s" "attribution = None"
    by (auto simp: scope_principal_Ret scope_bare_def split: option.splits)
  have "surface_component_of pid = None"
    by (simp add: pid surface_component_of_def strip_prefix_def)
  then show ?thesis
    using pid by (simp add: sub_identity_of_def)
next
  case AttachSurface
  have slug: "CHR ''#'' \<notin> set (sc_slug s)"
    using principal by (auto simp: scope_principal_Ret scope_ok_def)
  have components: "surface_component_of pid = map_option (\<lambda>inst. (sc_slug s, inst)) attribution"
    using principal slug AttachSurface
    by (cases attribution) (simp_all add: scope_principal_Ret scope_bare_def surface_component_of_def
        surface_sub_identity_sep_def strip_prefix_def split_once_first split_once_absent)
  have same: "t = s \<longleftrightarrow> sc_kind t = AttachSurface \<and> sc_slug t = sc_slug s"
    using AttachSurface by (cases s; cases t) auto
  show ?thesis
    by (cases "sc_kind t"; cases attribution) (auto simp: sub_identity_of_def components same)
qed

lemma registry_key_inject:
  assumes "scope_ok s" "scope_ok t"
  shows "registry_key s = registry_key t \<longleftrightarrow> s = t"
proof -
  have colon: "CHR '':'' \<notin> set (sc_slug s)" "CHR '':'' \<notin> set (sc_slug t)"
    using assms by (auto simp: scope_ok_def)
  then have "sc_slug s \<noteq> ''remote:'' @ x" "sc_slug t \<noteq> ''remote:'' @ x" for x
    by auto
  then show ?thesis
    by (cases s; cases t)
      (auto simp: registry_key_def remote_prefix_def scope_ok_def split: attach_kind.splits)
qed



text \<open>
  C39. Attach scopes. A principal an attach scope stamps on a publish is covered by that scope and
  by no other scope with a valid slug, even one whose slug is a prefix of it. The sub-identity read
  back off the principal is the one it was stamped with. Two scopes have the same key in the shared
  session registry only when they are the same scope.
\<close>

theorem scopes_separate:
  assumes "scope_principal s attribution = Ret who"
    and "returns (scope_principal t None)"
  shows "scope_covers t who = Ret (t = s) \<and>
    sub_identity_of t who = (if t = s then attribution else None) \<and>
    (registry_key s = registry_key t \<longleftrightarrow> s = t)"
proof -
  have ok: "scope_ok t" "scope_ok s"
    using assms by (auto simp: scope_principal_None scope_principal_Ret split: if_splits)
  show ?thesis
    using covers_own_only [OF assms(1) ok(1)] sub_identity_recovered [OF assms(1)] registry_key_inject [OF ok(2,1)]
    by simp
qed

theorem scopes_separate_witness:
  "scope_covers (scope_surface ''kit'') ''surface:kit#agenda'' = Ret True \<and>
   sub_identity_of (scope_surface ''kit'') ''surface:kit#agenda'' = Some ''agenda'' \<and>
   scope_covers (scope_surface ''kit'') ''surface:kitchen#agenda'' = Ret False"
proof -
  have who: "scope_principal (scope_surface ''kitchen'') (Some ''agenda'') = Ret ''surface:kitchen#agenda''"
    "scope_principal (scope_surface ''kit'') (Some ''agenda'') = Ret ''surface:kit#agenda''"
    by code_simp+
  have other: "returns (scope_principal (scope_surface ''kit'') None)"
    by code_simp
  show ?thesis
    using scopes_separate [OF who(1) other] scopes_separate [OF who(2) other] by (simp add: scope_surface_def)
qed

end
