(* ===== verification/Directory.thy ===== *)
theory Directory
  imports Ring_Store Identity
begin

text \<open>
  The messaging directory, from \<^verbatim>\<open>brenn-lib/src/messaging/directory.rs\<close>: channel entries with their
  subscribers, kept in two hash maps and an order vector under one lock, and the wake-threshold
  type subscribers carry. The \<^verbatim>\<open>RwLock\<close> makes every operation atomic, so an operation is a function of
  the directory's state; a poisoned lock is a run that has already panicked.

  Shown: the three collections simulate one list of channel entries, each operation answering (or
  panicking) as the list does; a channel holds at most one entry per subscriber; and a wake threshold's
  printed form parses back to it.
\<close>

section \<open>Subscribers and channels\<close>

datatype subscriber_entry_kind =
    EApp string
  | EWasm string
  | ESurface string
  | ERemote string
  | ESystem string
  | EChatConversation string int

fun entry_slug :: "subscriber_entry_kind \<Rightarrow> string" where
  "entry_slug (EApp s) = s"
| "entry_slug (EWasm s) = s"
| "entry_slug (ESystem s) = s"
| "entry_slug (ESurface s) = s"
| "entry_slug (ERemote s) = s"
| "entry_slug (EChatConversation app _) = app"

definition for_attach :: "attach_scope \<Rightarrow> subscriber_entry_kind" where
  "for_attach scope =
     (case sc_kind scope of
        AttachSurface \<Rightarrow> ESurface (sc_slug scope)
      | AttachRemote \<Rightarrow> ERemote (sc_slug scope))"

fun attach_slug :: "subscriber_entry_kind \<Rightarrow> string option" where
  "attach_slug (ESurface s) = Some s"
| "attach_slug (ERemote s) = Some s"
| "attach_slug _ = None"

text \<open>\<^verbatim>\<open>std::mem::discriminant\<close> tells the variants apart and nothing more.\<close>

fun entry_discriminant :: "subscriber_entry_kind \<Rightarrow> nat" where
  "entry_discriminant (EApp _) = 0"
| "entry_discriminant (EWasm _) = 1"
| "entry_discriminant (ESurface _) = 2"
| "entry_discriminant (ERemote _) = 3"
| "entry_discriminant (ESystem _) = 4"
| "entry_discriminant (EChatConversation _ _) = 5"

definition same_principal :: "subscriber_entry_kind \<Rightarrow> subscriber_entry_kind \<Rightarrow> bool" where
  "same_principal a b \<longleftrightarrow>
     (case (a, b) of
        (EChatConversation app c, EChatConversation app' c') \<Rightarrow> app = app' \<and> c = c'
      | _ \<Rightarrow> entry_discriminant a = entry_discriminant b \<and> entry_slug a = entry_slug b)"

lemma same_principal_iff [simp]: "same_principal a b \<longleftrightarrow> a = b"
  by (cases a; cases b) (simp_all add: same_principal_def)

datatype wake_economics = Eager | UrgencyGated

datatype wake_min = WakeVeryLow | WakeLow | WakeNormal | WakeHigh | WakeNever

fun wakes :: "wake_min \<Rightarrow> urgency \<Rightarrow> bool" where
  "wakes WakeNever u = False"
| "wakes WakeVeryLow u = (VeryLow \<le> u)"
| "wakes WakeLow u = (Low \<le> u)"
| "wakes WakeNormal u = (Normal \<le> u)"
| "wakes WakeHigh u = (High \<le> u)"

fun wake_min_as_str :: "wake_min \<Rightarrow> string" where
  "wake_min_as_str WakeVeryLow = ''very-low''"
| "wake_min_as_str WakeLow = ''low''"
| "wake_min_as_str WakeNormal = ''normal''"
| "wake_min_as_str WakeHigh = ''high''"
| "wake_min_as_str WakeNever = ''never''"

definition wake_min_parse :: "string \<Rightarrow> wake_min option" where
  "wake_min_parse s =
     (if s = ''very-low'' then Some WakeVeryLow
      else if s = ''low'' then Some WakeLow
      else if s = ''normal'' then Some WakeNormal
      else if s = ''high'' then Some WakeHigh
      else if s = ''never'' then Some WakeNever
      else None)"

record subscriber_entry =
  en_kind :: subscriber_entry_kind
  en_push_depth :: depth
  en_retain_depth :: depth
  en_noise :: noise_level
  en_wake_min :: "wake_min option"

datatype sink = Drop | Archive

record send_rate =
  sr_burst :: nat
  sr_refill_interval_secs :: nat
  sr_refill :: nat

record resolved_channel =
  rch_push_depth :: depth
  rch_retain_depth :: depth
  rch_standing_retain_depth :: depth
  rch_noise :: noise_level
  rch_sink :: sink
  rch_wake_min :: wake_min
  rch_send_rate :: send_rate

record 'u channel_entry =
  ce_uuid :: 'u
  ce_address :: string
  ce_description :: "string option"
  ce_resolved_channel :: resolved_channel
  ce_subscribers :: "subscriber_entry list"
  ce_transport_type :: channel_scheme
  ce_mount :: "string option"

definition entry_capabilities :: "'u channel_entry \<Rightarrow> channel_capabilities exec" where
  "entry_capabilities e = (case scheme_capabilities (ce_transport_type e) of Some caps \<Rightarrow> Ret caps | None \<Rightarrow> Panic)"

definition reap_frontier :: "'u channel_entry \<Rightarrow> nat option exec" where
  "reap_frontier e =
     (let standing = rch_standing_retain_depth (ce_resolved_channel e) in
      if \<forall>sub\<in>set (ce_subscribers e). en_push_depth sub \<le> standing \<and> en_retain_depth sub \<le> standing
      then Ret (case standing of Unbounded \<Rightarrow> None | Bounded n \<Rightarrow> Some n)
      else Panic)"

definition app_subscriber :: "string \<Rightarrow> 'u channel_entry \<Rightarrow> subscriber_entry option" where
  "app_subscriber slug e = find (\<lambda>s. en_kind s = EApp slug) (ce_subscribers e)"

section \<open>The directory\<close>

record 'u directory_inner =
  di_by_uuid :: "('u \<times> 'u channel_entry) list"
  di_by_address :: "(string \<times> 'u) list"
  di_order :: "'u list"

definition directory_new :: "'u directory_inner" where
  "directory_new = \<lparr>di_by_uuid = [], di_by_address = [], di_order = []\<rparr>"

fun from_arcs_onto :: "'u channel_entry list \<Rightarrow> 'u directory_inner \<Rightarrow> 'u directory_inner" where
  "from_arcs_onto [] d = d"
| "from_arcs_onto (e # es) d = from_arcs_onto es (d
     \<lparr>di_order := di_order d @ [ce_uuid e],
      di_by_address := AList.update (ce_address e) (ce_uuid e) (di_by_address d),
      di_by_uuid := AList.update (ce_uuid e) e (di_by_uuid d)\<rparr>)"

definition from_arcs :: "'u channel_entry list \<Rightarrow> 'u directory_inner" where
  "from_arcs es = from_arcs_onto es directory_new"

definition with_entries :: "'u channel_entry list \<Rightarrow> 'u directory_inner" where
  "with_entries es = from_arcs es"

definition dir_resolve :: "string \<Rightarrow> 'u directory_inner \<Rightarrow> 'u channel_entry option" where
  "dir_resolve addr d = Option.bind (map_of (di_by_address d) addr) (map_of (di_by_uuid d))"

definition dir_by_uuid :: "'u \<Rightarrow> 'u directory_inner \<Rightarrow> 'u channel_entry option" where
  "dir_by_uuid u d = map_of (di_by_uuid d) u"

definition dir_list :: "'u directory_inner \<Rightarrow> 'u channel_entry list exec" where
  "dir_list d = exec_traverse (\<lambda>u. case map_of (di_by_uuid d) u of Some e \<Rightarrow> Ret e | None \<Rightarrow> Panic) (di_order d)"

fun keep_durable :: "'u channel_entry list \<Rightarrow> 'u channel_entry list exec" where
  "keep_durable [] = Ret []"
| "keep_durable (e # es) = exec_bind (entry_capabilities e) (\<lambda>caps.
     exec_map (\<lambda>rest. if cc_durable caps then e # rest else rest) (keep_durable es))"

definition list_durable :: "'u directory_inner \<Rightarrow> 'u channel_entry list exec" where
  "list_durable d = exec_bind (dir_list d) keep_durable"

fun place_subscriber :: "subscriber_entry \<Rightarrow> subscriber_entry list \<Rightarrow> subscriber_entry list" where
  "place_subscriber s [] = [s]"
| "place_subscriber s (x # xs) =
     (if same_principal (en_kind x) (en_kind s) then s # xs else x # place_subscriber s xs)"

definition add_subscriber :: "'u \<Rightarrow> subscriber_entry \<Rightarrow> 'u directory_inner \<Rightarrow> 'u directory_inner \<times> bool" where
  "add_subscriber u s d =
     (case map_of (di_by_uuid d) u of
        None \<Rightarrow> (d, False)
      | Some existing \<Rightarrow>
          (let e = existing\<lparr>ce_subscribers := place_subscriber s (ce_subscribers existing)\<rparr>
           in (d\<lparr>di_by_uuid := AList.update u e (di_by_uuid d)\<rparr>, True)))"

definition remove_subscriber ::
  "'u \<Rightarrow> subscriber_entry_kind \<Rightarrow> 'u directory_inner \<Rightarrow> 'u directory_inner \<times> nat option" where
  "remove_subscriber u kind d =
     (case map_of (di_by_uuid d) u of
        None \<Rightarrow> (d, None)
      | Some existing \<Rightarrow>
          (let before = length (ce_subscribers existing);
               kept = filter (\<lambda>s. \<not> same_principal (en_kind s) kind) (ce_subscribers existing)
           in if length kept = before then (d, None)
              else (d\<lparr>di_by_uuid := AList.update u (existing\<lparr>ce_subscribers := kept\<rparr>) (di_by_uuid d)\<rparr>,
                    Some (length kept))))"

definition set_description :: "'u \<Rightarrow> string option \<Rightarrow> 'u directory_inner \<Rightarrow> 'u directory_inner \<times> bool" where
  "set_description u description d =
     (case map_of (di_by_uuid d) u of
        None \<Rightarrow> (d, False)
      | Some existing \<Rightarrow>
          (d\<lparr>di_by_uuid := AList.update u (existing\<lparr>ce_description := description\<rparr>) (di_by_uuid d)\<rparr>, True))"

definition add_channel :: "'u channel_entry \<Rightarrow> 'u directory_inner \<Rightarrow> 'u directory_inner exec" where
  "add_channel e d =
     (if map_of (di_by_uuid d) (ce_uuid e) \<noteq> None then Panic
      else if map_of (di_by_address d) (ce_address e) \<noteq> None then Panic
      else Ret (d
        \<lparr>di_by_address := AList.update (ce_address e) (ce_uuid e) (di_by_address d),
         di_order := di_order d @ [ce_uuid e],
         di_by_uuid := AList.update (ce_uuid e) e (di_by_uuid d)\<rparr>))"

definition remove_channel :: "'u \<Rightarrow> 'u directory_inner \<Rightarrow> 'u directory_inner \<times> bool" where
  "remove_channel u d =
     (case map_of (di_by_uuid d) u of
        None \<Rightarrow> (d, False)
      | Some e \<Rightarrow>
          (d\<lparr>di_by_uuid := AList.delete u (di_by_uuid d),
             di_by_address := AList.delete (ce_address e) (di_by_address d),
             di_order := filter (\<lambda>v. v \<noteq> u) (di_order d)\<rparr>, True))"


section \<open>One list of channels\<close>

text \<open>The specification: a directory is the list of its channel entries, in the order they came.\<close>

datatype 'u directory_op =
    DirResolve string
  | DirByUuid 'u
  | DirList
  | DirListDurable
  | DirAddSubscriber 'u subscriber_entry
  | DirRemoveSubscriber 'u subscriber_entry_kind
  | DirSetDescription 'u "string option"
  | DirAddChannel "'u channel_entry"
  | DirRemoveChannel 'u

datatype 'u directory_out =
    DirEntry "'u channel_entry option"
  | DirEntries "'u channel_entry list"
  | DirDone bool
  | DirRemaining "nat option"
  | DirUnit

fun directory_step :: "'u directory_inner \<Rightarrow> 'u directory_op \<Rightarrow> ('u directory_inner \<times> 'u directory_out) exec" where
  "directory_step d (DirResolve addr) = Ret (d, DirEntry (dir_resolve addr d))"
| "directory_step d (DirByUuid u) = Ret (d, DirEntry (dir_by_uuid u d))"
| "directory_step d DirList = exec_map (\<lambda>es. (d, DirEntries es)) (dir_list d)"
| "directory_step d DirListDurable = exec_map (\<lambda>es. (d, DirEntries es)) (list_durable d)"
| "directory_step d (DirAddSubscriber u s) = Ret (map_prod id DirDone (add_subscriber u s d))"
| "directory_step d (DirRemoveSubscriber u k) = Ret (map_prod id DirRemaining (remove_subscriber u k d))"
| "directory_step d (DirSetDescription u t) = Ret (map_prod id DirDone (set_description u t d))"
| "directory_step d (DirAddChannel e) = exec_map (\<lambda>d'. (d', DirUnit)) (add_channel e d)"
| "directory_step d (DirRemoveChannel u) = Ret (map_prod id DirDone (remove_channel u d))"

definition amend :: "'u \<Rightarrow> ('u channel_entry \<Rightarrow> 'u channel_entry) \<Rightarrow> 'u channel_entry list \<Rightarrow> 'u channel_entry list" where
  "amend u f es = map (\<lambda>e. if ce_uuid e = u then f e else e) es"

definition listed :: "'u \<Rightarrow> 'u channel_entry list \<Rightarrow> 'u channel_entry option" where
  "listed u es = find (\<lambda>e. ce_uuid e = u) es"

definition holds_kind :: "subscriber_entry_kind \<Rightarrow> 'u channel_entry \<Rightarrow> bool" where
  "holds_kind k e \<longleftrightarrow> k \<in> en_kind ` set (ce_subscribers e)"

definition without_kind :: "subscriber_entry_kind \<Rightarrow> 'u channel_entry \<Rightarrow> 'u channel_entry" where
  "without_kind k e = e\<lparr>ce_subscribers := filter (\<lambda>s. en_kind s \<noteq> k) (ce_subscribers e)\<rparr>"

fun listing_step :: "'u channel_entry list \<Rightarrow> 'u directory_op \<Rightarrow> ('u channel_entry list \<times> 'u directory_out) exec" where
  "listing_step es (DirResolve addr) = Ret (es, DirEntry (find (\<lambda>e. ce_address e = addr) es))"
| "listing_step es (DirByUuid u) = Ret (es, DirEntry (listed u es))"
| "listing_step es DirList = Ret (es, DirEntries es)"
| "listing_step es DirListDurable =
     (if \<forall>e\<in>set es. ce_transport_type e \<noteq> PwaPush
      then Ret (es, DirEntries (filter (\<lambda>e. ce_transport_type e \<in> {Brenn, Mqtt, Webhook}) es))
      else Panic)"
| "listing_step es (DirAddSubscriber u s) =
     Ret (amend u (\<lambda>e. e\<lparr>ce_subscribers := place_subscriber s (ce_subscribers e)\<rparr>) es,
          DirDone (listed u es \<noteq> None))"
| "listing_step es (DirRemoveSubscriber u k) =
     Ret (amend u (without_kind k) es,
          DirRemaining (case listed u es of
              None \<Rightarrow> None
            | Some e \<Rightarrow> if holds_kind k e then Some (length (ce_subscribers (without_kind k e))) else None))"
| "listing_step es (DirSetDescription u t) =
     Ret (amend u (\<lambda>e. e\<lparr>ce_description := t\<rparr>) es, DirDone (listed u es \<noteq> None))"
| "listing_step es (DirAddChannel e) =
     (if ce_uuid e \<in> ce_uuid ` set es \<or> ce_address e \<in> ce_address ` set es then Panic
      else Ret (es @ [e], DirUnit))"
| "listing_step es (DirRemoveChannel u) =
     Ret (filter (\<lambda>e. ce_uuid e \<noteq> u) es, DirDone (listed u es \<noteq> None))"

definition by_uuid_of :: "'u channel_entry list \<Rightarrow> ('u \<times> 'u channel_entry) list" where
  "by_uuid_of es = map (\<lambda>e. (ce_uuid e, e)) es"

definition by_address_of :: "'u channel_entry list \<Rightarrow> (string \<times> 'u) list" where
  "by_address_of es = map (\<lambda>e. (ce_address e, ce_uuid e)) es"

definition holds_listing :: "'u directory_inner \<Rightarrow> 'u channel_entry list \<Rightarrow> bool" where
  "holds_listing d es \<longleftrightarrow>
     hm_ok (di_by_uuid d) \<and> hm_ok (di_by_address d)
     \<and> distinct (map ce_uuid es) \<and> distinct (map ce_address es)
     \<and> di_order d = map ce_uuid es
     \<and> map_of (di_by_uuid d) = map_of (by_uuid_of es)
     \<and> map_of (di_by_address d) = map_of (by_address_of es)"

lemma by_uuid_of_listed: "map_of (by_uuid_of es) u = listed u es"
  by (induction es) (simp_all add: by_uuid_of_def listed_def)

lemma by_uuid_of_None: "map_of (by_uuid_of es) u = None \<longleftrightarrow> u \<notin> ce_uuid ` set es"
  by (simp add: by_uuid_of_def map_of_eq_None_iff image_image)

lemma by_address_of_None: "map_of (by_address_of es) a = None \<longleftrightarrow> a \<notin> ce_address ` set es"
  by (simp add: by_address_of_def map_of_eq_None_iff image_image)

lemma listed_Some:
  assumes "listed u es = Some e"
  shows "e \<in> set es" "ce_uuid e = u"
  using assms by (auto simp: listed_def find_Some_iff)

lemma listed_member: "distinct (map ce_uuid es) \<Longrightarrow> e \<in> set es \<Longrightarrow> listed (ce_uuid e) es = Some e"
  by (induction es) (auto simp: listed_def)

lemma listsD:
  assumes "holds_listing d es"
  shows "map_of (di_by_uuid d) u = listed u es"
    and "map_of (di_by_address d) = map_of (by_address_of es)"
    and "di_order d = map ce_uuid es" "distinct (map ce_uuid es)" "distinct (map ce_address es)"
    and "hm_ok (di_by_uuid d)" "hm_ok (di_by_address d)"
  using assms by (simp_all add: holds_listing_def by_uuid_of_listed)

lemma resolve_listed:
  assumes "holds_listing d es"
  shows "dir_resolve addr d = find (\<lambda>e. ce_address e = addr) es"
proof -
  have "distinct (map ce_uuid fs) \<Longrightarrow> set fs \<subseteq> set es \<Longrightarrow>
      Option.bind (map_of (by_address_of fs) addr) (\<lambda>u. listed u es) = find (\<lambda>e. ce_address e = addr) fs" for fs
    by (induction fs) (auto simp: by_address_of_def listed_member [OF listsD(4) [OF assms]])
  from this [OF listsD(4) [OF assms]] show ?thesis
    by (simp add: dir_resolve_def listsD [OF assms] ext [of "map_of (di_by_uuid d)" "\<lambda>u. listed u es"])
qed

lemma list_listed: "holds_listing d es \<Longrightarrow> dir_list d = Ret es"
  by (auto simp: dir_list_def exec_traverse_Ret_iff listsD list_all2_conv_all_nth listed_member)

lemma keep_durable_filter:
  "keep_durable es =
     (if \<forall>e\<in>set es. ce_transport_type e \<noteq> PwaPush
      then Ret (filter (\<lambda>e. ce_transport_type e \<in> {Brenn, Mqtt, Webhook}) es) else Panic)"
proof (induction es)
  case (Cons e es)
  then show ?case
    by (cases "ce_transport_type e")
      (simp_all add: entry_capabilities_def durable_transportable_def transportable_only_def confined_def)
qed simp

lemma amend_absent: "listed u es = None \<Longrightarrow> amend u f es = es"
  by (auto simp: amend_def listed_def find_None_iff map_idI)

lemma amend_same: "distinct (map ce_uuid es) \<Longrightarrow> listed u es = Some e \<Longrightarrow> f e = e \<Longrightarrow> amend u f es = es"
  unfolding amend_def by (rule map_idI) (auto dest: listed_member)

lemma lists_amend:
  assumes d: "holds_listing d es" and e: "listed u es = Some e" and e': "e' = f e"
    and keep: "\<And>x. ce_uuid (f x) = ce_uuid x" "\<And>x. ce_address (f x) = ce_address x"
  shows "holds_listing (d\<lparr>di_by_uuid := AList.update u e' (di_by_uuid d)\<rparr>) (amend u f es)"
proof -
  have keys: "map ce_uuid (amend u f es) = map ce_uuid es" "map ce_address (amend u f es) = map ce_address es"
    by (auto simp: amend_def keep)
  have addresses: "by_address_of (amend u f es) = by_address_of es"
    by (auto simp: by_address_of_def amend_def keep)
  have "listed v (amend u f es) = (if v = u then Some e' else listed v es)" for v
  proof (cases "v = u")
    case True
    have "f e \<in> set (amend u f es)" "ce_uuid (f e) = u"
      using listed_Some [OF e] by (auto simp: amend_def keep)
    then show ?thesis
      using listed_member [of "amend u f es" "f e"] listsD(4) [OF d] True e' by (simp add: keys)
  next
    case False
    then show ?thesis
      unfolding amend_def listed_def by (induction es) (auto simp: keep)
  qed
  then show ?thesis
    using listsD [OF d] by (auto simp: holds_listing_def by_uuid_of_listed keys addresses hm.get_put hm.ok_put)
qed


lemma lists_snoc:
  assumes d: "holds_listing d es" and new: "ce_uuid e \<notin> ce_uuid ` set es" "ce_address e \<notin> ce_address ` set es"
  shows "holds_listing (d
    \<lparr>di_order := di_order d @ [ce_uuid e],
     di_by_address := AList.update (ce_address e) (ce_uuid e) (di_by_address d),
     di_by_uuid := AList.update (ce_uuid e) e (di_by_uuid d)\<rparr>) (es @ [e])"
proof -
  have "map_of (by_uuid_of (es @ [e])) = (map_of (by_uuid_of es))(ce_uuid e \<mapsto> e)"
    using new(1) by (auto simp: by_uuid_of_def map_add_def map_of_eq_None_iff image_image fun_eq_iff split: option.splits)
      (metis option.distinct(1) by_uuid_of_None by_uuid_of_def)+
  moreover have "map_of (by_address_of (es @ [e])) = (map_of (by_address_of es))(ce_address e \<mapsto> ce_uuid e)"
    using new(2) by (auto simp: by_address_of_def map_add_def map_of_eq_None_iff image_image fun_eq_iff split: option.splits)
      (metis option.distinct(1) by_address_of_None by_address_of_def)+
  ultimately show ?thesis
    using d new by (auto simp: holds_listing_def hm.get_put hm.ok_put)
qed

lemma lists_remove:
  assumes d: "holds_listing d es" and e: "listed u es = Some e"
  shows "holds_listing (d
    \<lparr>di_by_uuid := AList.delete u (di_by_uuid d),
     di_by_address := AList.delete (ce_address e) (di_by_address d),
     di_order := filter (\<lambda>v. v \<noteq> u) (di_order d)\<rparr>) (filter (\<lambda>e. ce_uuid e \<noteq> u) es)"
proof -
  note ok = listsD [OF d]
  let ?rest = "filter (\<lambda>e. ce_uuid e \<noteq> u) es"
  have "map_of (by_uuid_of ?rest) v = (if v = u then None else listed v es)" for v
    unfolding by_uuid_of_listed listed_def by (induction es) auto
  moreover have "map_of (by_address_of ?rest) a = (if a = ce_address e then None else map_of (by_address_of es) a)" for a
  proof (cases "a = ce_address e")
    case True
    have "a \<notin> ce_address ` set ?rest"
      using ok(5) listed_Some [OF e] True by (auto simp: distinct_map inj_on_def)
    then show ?thesis
      using True by (simp add: by_address_of_None)
  next
    case False
    have "set fs \<subseteq> set es \<Longrightarrow> map_of (by_address_of (filter (\<lambda>e. ce_uuid e \<noteq> u) fs)) a = map_of (by_address_of fs) a" for fs
    proof (induction fs)
      case (Cons x xs)
      then have "ce_uuid x = u \<Longrightarrow> x = e"
        using e listed_member [OF ok(4), of x] by simp
      with Cons False show ?case
        by (auto simp: by_address_of_def)
    qed (simp add: by_address_of_def)
    then show ?thesis
      using False by simp
  qed
  moreover have "map ce_uuid ?rest = filter (\<lambda>v. v \<noteq> u) (map ce_uuid es)"
    by (simp add: filter_map o_def)
  ultimately show ?thesis
    using ok by (auto simp: holds_listing_def hm.get_del hm.ok_del distinct_map_filter fun_eq_iff)
qed

lemma lists_from_arcs_onto:
  "holds_listing d fs \<Longrightarrow> distinct (map ce_uuid (fs @ es)) \<Longrightarrow> distinct (map ce_address (fs @ es)) \<Longrightarrow>
   holds_listing (from_arcs_onto es d) (fs @ es)"
proof (induction es arbitrary: d fs)
  case (Cons e es)
  then show ?case
    using Cons.IH [OF lists_snoc [OF Cons.prems(1), of e]] by simp
qed simp

lemma lists_with_entries:
  "distinct (map ce_uuid es) \<Longrightarrow> distinct (map ce_address es) \<Longrightarrow> holds_listing (with_entries es) es"
  using lists_from_arcs_onto [of directory_new "[]" es]
  by (simp add: with_entries_def from_arcs_def directory_new_def holds_listing_def hm_ok_def by_uuid_of_def by_address_of_def)

lemma without_absent_kind: "\<not> holds_kind k e \<Longrightarrow> without_kind k e = e"
  by (cases e) (auto simp: holds_kind_def without_kind_def filter_id_conv)

lemma kept_all_iff: "length (filter (\<lambda>s. en_kind s \<noteq> k) (ce_subscribers e)) = length (ce_subscribers e) \<longleftrightarrow> \<not> holds_kind k e"
proof -
  have "length (filter P xs) = length xs \<longleftrightarrow> (\<forall>x\<in>set xs. P x)" for P and xs :: "subscriber_entry list"
  proof (induction xs)
    case (Cons x xs)
    have "length (filter P xs) \<noteq> Suc (length xs)"
      using length_filter_le [of P xs] by linarith
    with Cons show ?case
      by auto
  qed simp
  then show ?thesis
    by (auto simp: holds_kind_def)
qed

lemma directory_simulates:
  assumes d: "holds_listing d es"
  shows "exec_rel (\<lambda>(d', out) (es', out'). holds_listing d' es' \<and> out = out') (directory_step d op) (listing_step es op)"
proof (cases op)
  case (DirResolve addr)
  then show ?thesis
    using d by (simp add: resolve_listed)
next
  case (DirByUuid u)
  then show ?thesis
    using d by (simp add: dir_by_uuid_def listsD(1) [OF d])
next
  case DirList
  then show ?thesis
    using d by (simp add: list_listed)
next
  case DirListDurable
  then show ?thesis
    using d by (simp add: list_durable_def list_listed keep_durable_filter)
next
  case (DirAddSubscriber u s)
  then show ?thesis
    using d by (auto simp: add_subscriber_def listsD(1) [OF d] amend_absent Let_def split: option.splits
        intro: lists_amend)
next
  case (DirRemoveSubscriber u k)
  show ?thesis
  proof (cases "listed u es")
    case None
    then show ?thesis
      using d DirRemoveSubscriber by (simp add: remove_subscriber_def listsD(1) [OF d] amend_absent)
  next
    case (Some e)
    show ?thesis
    proof (cases "holds_kind k e")
      case True
      then show ?thesis
        using DirRemoveSubscriber Some lists_amend [OF d Some, of "without_kind k e" "without_kind k"]
        by (simp add: remove_subscriber_def listsD(1) [OF d] kept_all_iff Let_def without_kind_def)
    next
      case False
      then show ?thesis
        using DirRemoveSubscriber Some d amend_same [OF listsD(4) [OF d] Some] without_absent_kind [of k e]
        by (simp add: remove_subscriber_def listsD(1) [OF d] kept_all_iff Let_def)
    qed
  qed
next
  case (DirSetDescription u t)
  then show ?thesis
    using d by (auto simp: set_description_def listsD(1) [OF d] amend_absent split: option.splits
        intro: lists_amend)
next
  case (DirAddChannel e)
  have "add_channel e d = (if ce_uuid e \<in> ce_uuid ` set es \<or> ce_address e \<in> ce_address ` set es then Panic
      else Ret (d
    \<lparr>di_order := di_order d @ [ce_uuid e],
     di_by_address := AList.update (ce_address e) (ce_uuid e) (di_by_address d),
     di_by_uuid := AList.update (ce_uuid e) e (di_by_uuid d)\<rparr>))"
    using by_uuid_of_None [of es "ce_uuid e"] by_address_of_None [of es "ce_address e"]
    by (simp add: add_channel_def listsD(1,2) [OF d] by_uuid_of_listed)
  then show ?thesis
    using DirAddChannel lists_snoc [OF d, of e] by simp
next
  case (DirRemoveChannel u)
  then show ?thesis
  proof (cases "listed u es")
    case None
    then have "filter (\<lambda>e. ce_uuid e \<noteq> u) es = es"
      by (auto simp: listed_def find_None_iff filter_id_conv)
    then show ?thesis
      using d DirRemoveChannel None by (simp add: remove_channel_def listsD(1) [OF d])
  next
    case (Some e)
    then show ?thesis
      using DirRemoveChannel lists_remove [OF d Some] by (simp add: remove_channel_def listsD(1) [OF d])
  qed
qed

interpretation directory_sim: simulation directory_step listing_step holds_listing
  by unfold_locales (rule directory_simulates)


lemma wake_min_round_trip: "wake_min_parse (wake_min_as_str w) = Some w"
  by (cases w) (simp_all add: wake_min_parse_def)

lemma wakes_antimono: "wakes w u \<Longrightarrow> u \<le> v \<Longrightarrow> wakes w v"
  by (cases w) auto

section \<open>One entry per subscriber\<close>

definition kinds_distinct :: "'u channel_entry \<Rightarrow> bool" where
  "kinds_distinct e \<longleftrightarrow> distinct (map en_kind (ce_subscribers e))"

lemma place_subscriber_kinds:
  "en_kind ` set (place_subscriber s xs) = insert (en_kind s) (en_kind ` set xs)"
  by (induction xs) auto

lemma place_subscriber_distinct:
  "distinct (map en_kind xs) \<Longrightarrow> distinct (map en_kind (place_subscriber s xs))"
proof (induction xs)
  case (Cons x xs)
  then show ?case
    using place_subscriber_kinds [of s xs] by (auto simp flip: set_map)
qed simp

lemma place_subscriber_holds: "s \<in> set (place_subscriber s xs)"
  by (induction xs) auto

fun adds_clean :: "'u directory_op \<Rightarrow> bool" where
  "adds_clean (DirAddChannel e) = kinds_distinct e"
| "adds_clean _ = True"

lemma listing_kinds_distinct:
  assumes "listing_step es op = Ret (es', out)" "\<forall>e\<in>set es. kinds_distinct e" "adds_clean op"
  shows "\<forall>e\<in>set es'. kinds_distinct e"
  using assms by (cases op)
    (auto simp: amend_def kinds_distinct_def place_subscriber_distinct without_kind_def distinct_map_filter
      split: if_splits)

text \<open>
  C17. The directory is a list of channels. Built from entries with distinct ids and addresses and
  driven by any sequence of its operations, the directory (an id map, an address map and an order
  vector kept in step under one lock) answers every lookup, listing, subscriber change and
  description change as one ordered list of entries would, adds and removes whole channels as the
  list does, and panics exactly where the list refuses: on a channel whose id or address is taken,
  and on listing the durable channels when an egress-only one is present.
\<close>

theorem directory_refines_listing:
  assumes "distinct (map ce_uuid es)" "distinct (map ce_address es)"
  shows "exec_map snd (run directory_step (with_entries es) ops) = exec_map snd (run listing_step es ops)"
  by (rule directory_sim.run_outputs [OF lists_with_entries [OF assms]])

definition plain_channel :: resolved_channel where
  "plain_channel = \<lparr>rch_push_depth = Bounded 4, rch_retain_depth = Bounded 8, rch_standing_retain_depth = Bounded 8,
     rch_noise = Silent, rch_sink = Drop, rch_wake_min = WakeNormal,
     rch_send_rate = \<lparr>sr_burst = 240, sr_refill_interval_secs = 1, sr_refill = 4\<rparr>\<rparr>"

definition plain_entry :: "nat \<Rightarrow> string \<Rightarrow> nat channel_entry" where
  "plain_entry u name = \<lparr>ce_uuid = u, ce_address = ''brenn:'' @ name, ce_description = None,
     ce_resolved_channel = plain_channel, ce_subscribers = [], ce_transport_type = Brenn, ce_mount = None\<rparr>"

definition plain_subscriber :: "string \<Rightarrow> depth \<Rightarrow> subscriber_entry" where
  "plain_subscriber slug d = \<lparr>en_kind = EApp slug, en_push_depth = d, en_retain_depth = d, en_noise = Silent,
     en_wake_min = Some WakeNormal\<rparr>"

theorem directory_refines_listing_witness:
  "exec_map snd (run directory_step (with_entries [plain_entry 1 ''a'', plain_entry 2 ''b''])
     [DirAddSubscriber 1 (plain_subscriber ''x'' (Bounded 2)), DirAddSubscriber 1 (plain_subscriber ''x'' Unbounded),
      DirRemoveChannel 2, DirAddChannel (plain_entry 3 ''b''), DirByUuid 2, DirRemoveSubscriber 1 (EApp ''x''), DirList]) =
   Ret [DirDone True, DirDone True, DirDone True, DirUnit, DirEntry None, DirRemaining (Some 0),
        DirEntries [plain_entry 1 ''a'', plain_entry 3 ''b'']]"
proof -
  have "distinct (map ce_uuid [plain_entry 1 ''a'', plain_entry 2 ''b''])"
    "distinct (map ce_address [plain_entry 1 ''a'', plain_entry 2 ''b''])"
    by (simp_all add: plain_entry_def)
  then show ?thesis
    by (subst directory_refines_listing)
      (auto simp: plain_entry_def plain_subscriber_def listed_def amend_def without_kind_def holds_kind_def)
qed

end
