(* ===== verification/Grants.thy ===== *)
theory Grants
  imports Envelope
begin

text \<open>
  The capability vocabulary, from \<^verbatim>\<open>brenn-envelope/src/grants.rs\<close>: the words a component's and an
  attacher's grants are written in, the unified capability a resolved policy is written in, and the
  tables between them: which host can implement a grant, which capability a grant becomes, which
  plane and delivery class a capability reaches, which schemes an entity may bind.

  Shown: every word parses back to what it spells; an attach right and the capability it becomes
  reach the same plane and class, and different rights become different capabilities; each
  (plane, class) pair is named by at most one capability.
\<close>

section \<open>Component grants\<close>

datatype component_grant =
    GPorts | GStore | GLog | GAlert | GConfig | GMqtt | GTools | GCalls | GProvides | GTakeover | GDom | GPageDom

datatype component_host = HostSurface | HostTopLevel

datatype app_capability =
    MessagingPublish | MessagingSubscribe | DynamicSubscribe | EphemeralPublish | EphemeralSubscribe
  | LocalPublish | LocalSubscribe | MqttPublish | MqttSubscribe | CapWebhook | CapPwaPush | MintImpetus
  | WasmStore | WasmLog | WasmAlert | WasmConfig | SurfaceAlert | Integration

definition component_grant_all :: "component_grant list" where
  "component_grant_all =
     [GPorts, GStore, GLog, GAlert, GConfig, GMqtt, GTools, GCalls, GProvides, GTakeover, GDom, GPageDom]"

fun component_grant_word :: "component_grant \<Rightarrow> string" where
  "component_grant_word GPorts = ''ports''"
| "component_grant_word GStore = ''store''"
| "component_grant_word GLog = ''log''"
| "component_grant_word GAlert = ''alert''"
| "component_grant_word GConfig = ''config''"
| "component_grant_word GMqtt = ''mqtt''"
| "component_grant_word GTools = ''tools''"
| "component_grant_word GCalls = ''calls''"
| "component_grant_word GProvides = ''provides''"
| "component_grant_word GTakeover = ''takeover''"
| "component_grant_word GDom = ''dom''"
| "component_grant_word GPageDom = ''page-dom''"

definition component_grant_parse :: "string \<Rightarrow> component_grant option" where
  "component_grant_parse w = find (\<lambda>g. component_grant_word g = w) component_grant_all"

fun wit_import :: "component_grant \<Rightarrow> string option" where
  "wit_import GPorts = Some ''brenn:processor/ports@0.1.0''"
| "wit_import GStore = Some ''brenn:processor/store@0.1.0''"
| "wit_import GLog = Some ''brenn:processor/log@0.1.0''"
| "wit_import GAlert = Some ''brenn:processor/alert@0.1.0''"
| "wit_import GConfig = Some ''brenn:processor/config@0.1.0''"
| "wit_import GMqtt = Some ''brenn:processor/mqtt@0.1.0''"
| "wit_import GTools = Some ''brenn:processor/tools@0.1.0''"
| "wit_import GCalls = Some ''brenn:processor/calls@0.1.0''"
| "wit_import GProvides = Some ''brenn:processor/provides@0.1.0''"
| "wit_import GDom = Some ''brenn:processor/dom@0.1.0''"
| "wit_import GPageDom = Some ''brenn:processor/page-dom@0.1.0''"
| "wit_import GTakeover = None"

fun illegal_on :: "component_grant \<Rightarrow> component_host \<Rightarrow> string option" where
  "illegal_on GStore HostSurface =
     Some ''`store` is backend-only in v1; a surface-hosted component cannot be granted it''"
| "illegal_on GMqtt HostSurface =
     Some ''`mqtt` is backend-only in v1; a surface-hosted component cannot be granted it''"
| "illegal_on GTools HostSurface =
     Some ''`tools` is backend-only in v1: the surface host links no tools interface''"
| "illegal_on GProvides HostSurface =
     Some ''`provides` is backend-only: the surface host links no tool substrate to serve requests from''"
| "illegal_on GTakeover HostTopLevel =
     Some ''`takeover` is a page capability; a top-level consumer has no page''"
| "illegal_on GDom HostTopLevel =
     Some ''`dom` is a page capability; a top-level consumer has no page to mutate''"
| "illegal_on GPageDom HostTopLevel =
     Some ''`page-dom` is a page capability; a top-level consumer has no page to arrange''"
| "illegal_on _ _ = None"

fun component_capability :: "component_grant \<Rightarrow> app_capability option" where
  "component_capability GPorts = Some MessagingPublish"
| "component_capability GStore = Some WasmStore"
| "component_capability GLog = Some WasmLog"
| "component_capability GAlert = Some WasmAlert"
| "component_capability GConfig = Some WasmConfig"
| "component_capability GMqtt = Some MqttPublish"
| "component_capability _ = None"

section \<open>Attach grants and planes\<close>

datatype plane_dir = PlaneSubscribe | PlanePublish

definition plane_all :: "plane_dir list" where
  "plane_all = [PlaneSubscribe, PlanePublish]"

fun plane_word :: "plane_dir \<Rightarrow> string" where
  "plane_word PlaneSubscribe = ''subscribe''"
| "plane_word PlanePublish = ''publish''"

definition plane_parse :: "string \<Rightarrow> plane_dir option" where
  "plane_parse w = find (\<lambda>p. plane_word p = w) plane_all"

datatype attach_grant = ASubscribe | APublish | AEphemeralSubscribe | AEphemeralPublish | AAlert

definition attach_grant_all :: "attach_grant list" where
  "attach_grant_all = [ASubscribe, APublish, AEphemeralSubscribe, AEphemeralPublish, AAlert]"

fun attach_grant_word :: "attach_grant \<Rightarrow> string" where
  "attach_grant_word ASubscribe = ''subscribe''"
| "attach_grant_word APublish = ''publish''"
| "attach_grant_word AEphemeralSubscribe = ''ephemeral_subscribe''"
| "attach_grant_word AEphemeralPublish = ''ephemeral_publish''"
| "attach_grant_word AAlert = ''alert''"

definition attach_grant_parse :: "string \<Rightarrow> attach_grant option" where
  "attach_grant_parse w = find (\<lambda>g. attach_grant_word g = w) attach_grant_all"

fun attach_transport :: "attach_grant \<Rightarrow> (plane_dir \<times> channel_scheme) option" where
  "attach_transport ASubscribe = Some (PlaneSubscribe, Brenn)"
| "attach_transport APublish = Some (PlanePublish, Brenn)"
| "attach_transport AEphemeralSubscribe = Some (PlaneSubscribe, Ephemeral)"
| "attach_transport AEphemeralPublish = Some (PlanePublish, Ephemeral)"
| "attach_transport AAlert = None"

fun attach_capability :: "attach_grant \<Rightarrow> app_capability" where
  "attach_capability ASubscribe = MessagingSubscribe"
| "attach_capability APublish = MessagingPublish"
| "attach_capability AEphemeralSubscribe = EphemeralSubscribe"
| "attach_capability AEphemeralPublish = EphemeralPublish"
| "attach_capability AAlert = SurfaceAlert"

datatype entity_kind = EntSurface | EntAgent | EntComponent component_host | EntRemote

fun entity_label :: "entity_kind \<Rightarrow> string" where
  "entity_label EntSurface = ''surface''"
| "entity_label EntAgent = ''agent''"
| "entity_label (EntComponent HostSurface) = ''component''"
| "entity_label (EntComponent HostTopLevel) = ''consumer''"
| "entity_label EntRemote = ''remote''"

fun bindable_schemes :: "entity_kind \<Rightarrow> plane_dir \<Rightarrow> channel_scheme list" where
  "bindable_schemes EntSurface _ = [Brenn, Ephemeral, Local]"
| "bindable_schemes (EntComponent HostTopLevel) PlaneSubscribe = [Brenn, Ephemeral, Local, Webhook, Mqtt]"
| "bindable_schemes (EntComponent _) _ = [Brenn, Ephemeral, Local]"
| "bindable_schemes EntAgent PlaneSubscribe = [Brenn, Ephemeral, Webhook, Mqtt]"
| "bindable_schemes EntAgent PlanePublish = []"
| "bindable_schemes EntRemote _ = []"

section \<open>The unified capability\<close>

definition capability_all :: "app_capability list" where
  "capability_all =
     [MessagingPublish, MessagingSubscribe, DynamicSubscribe, EphemeralPublish, EphemeralSubscribe,
      LocalPublish, LocalSubscribe, MqttPublish, MqttSubscribe, CapWebhook, CapPwaPush, MintImpetus,
      WasmStore, WasmLog, WasmAlert, WasmConfig, SurfaceAlert, Integration]"

fun capability_word :: "app_capability \<Rightarrow> string" where
  "capability_word MessagingPublish = ''messaging_publish''"
| "capability_word MessagingSubscribe = ''messaging_subscribe''"
| "capability_word DynamicSubscribe = ''dynamic_subscribe''"
| "capability_word EphemeralPublish = ''ephemeral_publish''"
| "capability_word EphemeralSubscribe = ''ephemeral_subscribe''"
| "capability_word LocalPublish = ''local_publish''"
| "capability_word LocalSubscribe = ''local_subscribe''"
| "capability_word MqttPublish = ''mqtt_publish''"
| "capability_word MqttSubscribe = ''mqtt_subscribe''"
| "capability_word CapWebhook = ''webhook''"
| "capability_word CapPwaPush = ''pwa_push''"
| "capability_word MintImpetus = ''mint_impetus''"
| "capability_word WasmStore = ''wasm_store''"
| "capability_word WasmLog = ''wasm_log''"
| "capability_word WasmAlert = ''wasm_alert''"
| "capability_word WasmConfig = ''wasm_config''"
| "capability_word SurfaceAlert = ''surface_alert''"
| "capability_word Integration = ''integration''"

definition capability_parse :: "string \<Rightarrow> app_capability option" where
  "capability_parse w = find (\<lambda>c. capability_word c = w) capability_all"

fun llm_authorable :: "app_capability \<Rightarrow> string + unit" where
  "llm_authorable MessagingPublish = Inr ()"
| "llm_authorable MessagingSubscribe = Inr ()"
| "llm_authorable DynamicSubscribe = Inr ()"
| "llm_authorable EphemeralPublish = Inr ()"
| "llm_authorable EphemeralSubscribe = Inr ()"
| "llm_authorable LocalPublish = Inr ()"
| "llm_authorable MqttPublish = Inr ()"
| "llm_authorable MqttSubscribe = Inr ()"
| "llm_authorable CapWebhook = Inr ()"
| "llm_authorable CapPwaPush = Inr ()"
| "llm_authorable WasmStore = Inl ''WASM-host caps are authored as `ComponentGrant` on a component''"
| "llm_authorable WasmLog = Inl ''WASM-host caps are authored as `ComponentGrant` on a component''"
| "llm_authorable WasmAlert = Inl ''WASM-host caps are authored as `ComponentGrant` on a component''"
| "llm_authorable WasmConfig = Inl ''WASM-host caps are authored as `ComponentGrant` on a component''"
| "llm_authorable Integration = Inl ''`integration` is reserved''"
| "llm_authorable SurfaceAlert =
     Inl ''attacher alert is authored as `AttachGrant` on a `[[surface]]` or `[[remote]]`''"
| "llm_authorable MintImpetus = Inl ''no LLM-reachable API sets impetus''"
| "llm_authorable LocalSubscribe = Inl ''no local delivery path to a conversation in v1''"

fun capability_transport :: "app_capability \<Rightarrow> (plane_dir \<times> channel_scheme) option" where
  "capability_transport MessagingPublish = Some (PlanePublish, Brenn)"
| "capability_transport MessagingSubscribe = Some (PlaneSubscribe, Brenn)"
| "capability_transport EphemeralPublish = Some (PlanePublish, Ephemeral)"
| "capability_transport EphemeralSubscribe = Some (PlaneSubscribe, Ephemeral)"
| "capability_transport LocalPublish = Some (PlanePublish, Local)"
| "capability_transport LocalSubscribe = Some (PlaneSubscribe, Local)"
| "capability_transport MqttPublish = Some (PlanePublish, Mqtt)"
| "capability_transport MqttSubscribe = Some (PlaneSubscribe, Mqtt)"
| "capability_transport CapWebhook = Some (PlaneSubscribe, Webhook)"
| "capability_transport _ = None"

section \<open>The tables agree\<close>

text \<open>A vocabulary: every value is listed, and its word is its own.\<close>

locale vocabulary =
  fixes listed_all :: "'g list"
    and word_of :: "'g \<Rightarrow> string"
  assumes complete: "g \<in> set listed_all"
    and unambiguous: "distinct (map word_of listed_all)"
begin

lemma parse_word: "find (\<lambda>g. word_of g = word_of h) listed_all = Some h"
proof -
  have "h \<in> set gs \<Longrightarrow> distinct (map word_of gs) \<Longrightarrow> find (\<lambda>g. word_of g = word_of h) gs = Some h" for gs
    by (induction gs) (auto simp: image_iff)
  then show ?thesis
    using complete unambiguous by blast
qed

lemma parsed_spells: "find (\<lambda>g. word_of g = w) listed_all = Some h \<Longrightarrow> word_of h = w"
  by (auto simp: find_Some_iff)

lemma word_inject: "word_of g = word_of h \<longleftrightarrow> g = h"
proof
  assume "word_of g = word_of h"
  then have "Some g = Some h"
    by (simp only: parse_word [symmetric])
  then show "g = h" by simp
qed simp

end

interpretation component_vocabulary: vocabulary component_grant_all component_grant_word
proof unfold_locales
  show "g \<in> set component_grant_all" for g
    by (cases g) (simp_all add: component_grant_all_def)
qed (simp add: component_grant_all_def)

interpretation attach_vocabulary: vocabulary attach_grant_all attach_grant_word
proof unfold_locales
  show "g \<in> set attach_grant_all" for g
    by (cases g) (simp_all add: attach_grant_all_def)
qed (simp add: attach_grant_all_def)

interpretation plane_vocabulary: vocabulary plane_all plane_word
proof unfold_locales
  show "g \<in> set plane_all" for g
    by (cases g) (simp_all add: plane_all_def)
qed (simp add: plane_all_def)

interpretation capability_vocabulary: vocabulary capability_all capability_word
proof unfold_locales
  show "g \<in> set capability_all" for g
    by (cases g) (simp_all add: capability_all_def)
qed (simp add: capability_all_def)

lemma words_parse_back:
  "component_grant_parse (component_grant_word g) = Some g"
  "attach_grant_parse (attach_grant_word a) = Some a"
  "plane_parse (plane_word p) = Some p"
  "capability_parse (capability_word c) = Some c"
  by (simp_all add: component_grant_parse_def attach_grant_parse_def plane_parse_def capability_parse_def
      component_vocabulary.parse_word attach_vocabulary.parse_word plane_vocabulary.parse_word
      capability_vocabulary.parse_word)

lemma attach_transport_agrees: "attach_transport g = capability_transport (attach_capability g)"
  by (cases g) simp_all

lemma attach_capability_inject: "attach_capability g = attach_capability h \<longleftrightarrow> g = h"
  by (cases g; cases h) simp_all

lemma transport_names_one: "capability_transport c = Some t \<Longrightarrow> capability_transport d = Some t \<Longrightarrow> c = d"
  by (cases c; cases d) auto

lemma legal_somewhere: "illegal_on g HostSurface = None \<or> illegal_on g HostTopLevel = None"
  by (cases g) simp_all

lemma bindable_are_channels: "s \<in> set (bindable_schemes k p) \<Longrightarrow> scheme_capabilities s \<noteq> None"
  by (cases "(k, p)" rule: bindable_schemes.cases) auto

lemma wit_import_inject: "wit_import g = Some i \<Longrightarrow> wit_import h = Some i \<Longrightarrow> g = h"
  by (cases g; cases h) auto

end
