(* ===== verification/Access.thy ===== *)
theory Access
  imports Grants Identity
begin

text \<open>
  Access control, from \<^verbatim>\<open>brenn-lib/src/access/\<close> (the policy's decision API in \<^verbatim>\<open>mod.rs\<close>, the matchers
  of \<^verbatim>\<open>acl.rs\<close>, the topic-filter subset test of \<^verbatim>\<open>mqtt_match.rs\<close>) and \<^verbatim>\<open>brenn-lib/src/mqtt/\<close> (address
  parsing, filter validation and topic matching in \<^verbatim>\<open>address.rs\<close>, the error type of \<^verbatim>\<open>error.rs\<close>).

  The two matching loops are \<^verbatim>\<open>partial_function\<close>s whose result is \<^verbatim>\<open>None\<close> when they do not return, so that
  they return is proved. The detail text of an address error is the case it reports, its formatting
  apart.

  Shown: both loops return on any two strings; on validated filters the subset test holds exactly
  when every concrete topic the requested filter matches is matched by the allowed one, with one
  exception it refuses; and a channel access is granted only on the transport grant of the address's
  scheme together with a matcher that covers the address.
\<close>

section \<open>Levels of a topic\<close>

text \<open>\<^verbatim>\<open>str::split\<close> at a character: always at least one piece.\<close>

fun split_on :: "char \<Rightarrow> string \<Rightarrow> string list" where
  "split_on c [] = [[]]"
| "split_on c (x # xs) =
     (if x = c then [] # split_on c xs
      else (case split_on c xs of [] \<Rightarrow> [[x]] | s # ss \<Rightarrow> (x # s) # ss))"

lemma split_on_nonempty [simp]: "split_on c s \<noteq> []"
  by (cases "(c, s)" rule: split_on.cases) (auto split: list.splits)

lemma split_on_avoids: "seg \<in> set (split_on c s) \<Longrightarrow> c \<notin> set seg"
  by (induction c s arbitrary: seg rule: split_on.induct) (auto split: if_splits list.splits)

lemma split_on_chars: "seg \<in> set (split_on c s) \<Longrightarrow> set seg \<subseteq> set s"
  by (induction c s arbitrary: seg rule: split_on.induct) (fastforce split: if_splits list.splits)+

lemma join_split_on: "join [c] (split_on c s) = s"
proof (induction c s rule: split_on.induct)
  case (2 c x xs)
  obtain p ps where pieces: "split_on c xs = p # ps"
    using split_on_nonempty by (cases "split_on c xs") auto
  show ?case
  proof (cases "x = c")
    case True
    then show ?thesis
      using 2(1) pieces by simp
  next
    case False
    then show ?thesis
      using 2(2) pieces by (cases ps) simp_all
  qed
qed simp

lemma split_on_plain: "c \<notin> set s \<Longrightarrow> split_on c s = [s]"
  by (induction c s rule: split_on.induct) auto

lemma split_on_append: "c \<notin> set s \<Longrightarrow> split_on c (s @ c # t) = s # split_on c t"
  by (induction s) auto

lemma split_on_join: "segs \<noteq> [] \<Longrightarrow> (\<And>s. s \<in> set segs \<Longrightarrow> c \<notin> set s) \<Longrightarrow> split_on c (join [c] segs) = segs"
proof (induction "[c]" segs rule: join.induct)
  case (2 s)
  then show ?case
    by (simp add: split_on_plain)
next
  case (3 s v vs)
  then show ?case
    using split_on_append [of c s "join [c] (v # vs)"] by simp
qed simp

abbreviation levels :: "string \<Rightarrow> string list" where
  "levels s \<equiv> split_on (CHR ''/'') s"

section \<open>MQTT errors and addresses\<close>

datatype address_detail =
    MissingSeparator
  | BadClientSlug string
  | TopicEmpty
  | TopicTooLong nat
  | TopicHasNul
  | HashNotWhole string
  | HashNotTerminal
  | PlusNotWhole string

datatype mqtt_error =
    NotConnected string "string option"
  | BrokerRejected string string string
  | WrongProtocol string
  | WildcardNotAllowed string
  | BadBase64 string
  | BadBodyShape
  | AddressInvalid string address_detail

fun coarse_kind :: "mqtt_error \<Rightarrow> string" where
  "coarse_kind (NotConnected _ _) = ''not connected''"
| "coarse_kind _ = ''publish failed''"

definition is_valid_client_slug :: "string \<Rightarrow> bool" where
  "is_valid_client_slug slug \<longleftrightarrow> slug \<noteq> [] \<and>
     list_all (\<lambda>b. CHR ''a'' \<le> b \<and> b \<le> CHR ''z'' \<or> CHR ''A'' \<le> b \<and> b \<le> CHR ''Z'' \<or> CHR ''0'' \<le> b \<and> b \<le> CHR ''9''
       \<or> b = CHR ''.'' \<or> b = CHR ''_'' \<or> b = CHR ''~'' \<or> b = CHR ''-'') slug"

definition is_mqtt_address :: "string \<Rightarrow> bool" where
  "is_mqtt_address addr \<longleftrightarrow> has_prefix mqtt_address_prefix addr"

record mqtt_address =
  ma_client :: string
  ma_topic :: string

definition mqtt_format :: "mqtt_address \<Rightarrow> string" where
  "mqtt_format a = ''mqtt:'' @ ma_client a @ '':'' @ ma_topic a"

definition parse_mqtt_address :: "string \<Rightarrow> mqtt_error + mqtt_address" where
  "parse_mqtt_address addr =
     (case strip_prefix mqtt_address_prefix addr of
        None \<Rightarrow> Inl (WrongProtocol addr)
      | Some rest \<Rightarrow>
     (case split_once (CHR '':'') rest of
        None \<Rightarrow> Inl (AddressInvalid addr MissingSeparator)
      | Some (client, topic) \<Rightarrow>
          if \<not> is_valid_client_slug client then Inl (AddressInvalid addr (BadClientSlug client))
          else if topic = [] then Inl (AddressInvalid addr TopicEmpty)
          else if 65535 < length topic then Inl (AddressInvalid addr (TopicTooLong (length topic)))
          else if CHR 0x00 \<in> set topic then Inl (AddressInvalid addr TopicHasNul)
          else Inr \<lparr>ma_client = client, ma_topic = topic\<rparr>))"

fun validate_levels :: "string list \<Rightarrow> address_detail + unit" where
  "validate_levels [] = Inr ()"
| "validate_levels (seg # segs) =
     (if CHR ''#'' \<in> set seg \<and> seg \<noteq> ''#'' then Inl (HashNotWhole seg)
      else if CHR ''#'' \<in> set seg \<and> segs \<noteq> [] then Inl HashNotTerminal
      else if CHR ''+'' \<in> set seg \<and> seg \<noteq> ''+'' then Inl (PlusNotWhole seg)
      else validate_levels segs)"

definition validate_topic_filter :: "string \<Rightarrow> address_detail + unit" where
  "validate_topic_filter topic = validate_levels (levels topic)"

definition validate_topic_filter_str :: "string \<Rightarrow> address_detail + unit" where
  "validate_topic_filter_str topic = validate_topic_filter topic"

definition parse_topic_filter :: "string \<Rightarrow> mqtt_error + mqtt_address" where
  "parse_topic_filter addr =
     (case parse_mqtt_address addr of
        Inl e \<Rightarrow> Inl e
      | Inr parsed \<Rightarrow>
          (case validate_topic_filter (ma_topic parsed) of
             Inl detail \<Rightarrow> Inl (AddressInvalid addr detail)
           | Inr _ \<Rightarrow> Inr parsed))"

definition parse_topic_name :: "string \<Rightarrow> mqtt_error + mqtt_address" where
  "parse_topic_name addr =
     (case parse_mqtt_address addr of
        Inl e \<Rightarrow> Inl e
      | Inr parsed \<Rightarrow>
          if CHR ''+'' \<in> set (ma_topic parsed) \<or> CHR ''#'' \<in> set (ma_topic parsed)
          then Inl (WildcardNotAllowed addr) else Inr parsed)"

section \<open>The two matching loops\<close>

partial_function (option) match_loop :: "string list \<Rightarrow> string list \<Rightarrow> nat \<Rightarrow> nat \<Rightarrow> bool option" where
  "match_loop filter_segments topic_segments fi ti =
     (if fi < length filter_segments then
        let fseg = filter_segments ! fi in
        if fseg = ''#'' then Some True
        else if length topic_segments \<le> ti then Some False
        else if fseg = ''+'' then match_loop filter_segments topic_segments (fi + 1) (ti + 1)
        else if fseg \<noteq> topic_segments ! ti then Some False
        else match_loop filter_segments topic_segments (fi + 1) (ti + 1)
      else Some (ti = length topic_segments))"

definition mqtt_topic_matches :: "string \<Rightarrow> string \<Rightarrow> bool option" where
  "mqtt_topic_matches filter_text topic =
     (let filter_segments = levels filter_text; topic_segments = levels topic; first_filter = filter_segments ! 0 in
      if (first_filter = ''#'' \<or> first_filter = ''+'') \<and> starts_with (CHR ''$'') (topic_segments ! 0) then Some False
      else match_loop filter_segments topic_segments 0 0)"

partial_function (option) covers_loop :: "string list \<Rightarrow> string list \<Rightarrow> nat \<Rightarrow> nat \<Rightarrow> bool option" where
  "covers_loop allowed_segments requested_segments ai ri =
     (if length allowed_segments \<le> ai then Some (length requested_segments \<le> ri)
      else let aseg = allowed_segments ! ai in
      if aseg = ''#'' then Some True
      else if length requested_segments \<le> ri then Some False
      else let rseg = requested_segments ! ri in
      if rseg = ''#'' then Some False
      else if aseg \<noteq> ''+'' \<and> (rseg = ''+'' \<or> rseg \<noteq> aseg) then Some False
      else covers_loop allowed_segments requested_segments (ai + 1) (ri + 1))"

definition filter_covers :: "string \<Rightarrow> string \<Rightarrow> bool option" where
  "filter_covers allowed requested = covers_loop (levels allowed) (levels requested) 0 0"

section \<open>Policies\<close>

record mqtt_sub_matcher =
  ms_client :: string
  ms_topic_filter :: string

datatype channel_matcher = MatchExact string | MatchPrefix string

fun matcher_matches :: "channel_matcher \<Rightarrow> string \<Rightarrow> bool" where
  "matcher_matches (MatchExact s) ch = (ch = s)"
| "matcher_matches (MatchPrefix p) ch = has_prefix p ch"

record acl_set =
  acl_mqtt_subscribe :: "mqtt_sub_matcher list"
  acl_mqtt_publish :: "string list"
  acl_brenn_subscribe :: "channel_matcher list"
  acl_brenn_publish :: "channel_matcher list"
  acl_ephemeral_subscribe :: "channel_matcher list"
  acl_ephemeral_publish :: "channel_matcher list"
  acl_local_publish :: "channel_matcher list"
  acl_local_subscribe :: "channel_matcher list"
  acl_webhook :: "string list"

type_synonym grant_set = "app_capability set"

definition grant_has :: "grant_set \<Rightarrow> app_capability \<Rightarrow> bool" where
  "grant_has gs cap \<longleftrightarrow> cap \<in> gs"

definition grant_insert :: "app_capability \<Rightarrow> grant_set \<Rightarrow> grant_set \<times> bool" where
  "grant_insert cap gs = (insert cap gs, cap \<notin> gs)"

record 'g app_policy =
  ap_grants :: grant_set
  ap_acls :: acl_set
  ap_tool_grants :: "(string \<times> 'g) list"

definition has_grant :: "'g app_policy \<Rightarrow> app_capability \<Rightarrow> bool" where
  "has_grant p cap = grant_has (ap_grants p) cap"

definition tool_grant :: "'g app_policy \<Rightarrow> string \<Rightarrow> 'g option" where
  "tool_grant p tool = map_of (ap_tool_grants p) tool"

definition mqtt_acl_covers :: "'g app_policy \<Rightarrow> string \<Rightarrow> string \<Rightarrow> bool" where
  "mqtt_acl_covers p client requested =
     list_ex (\<lambda>m. ms_client m = client \<and> filter_covers (ms_topic_filter m) requested = Some True)
       (acl_mqtt_subscribe (ap_acls p))"

definition acl_covers :: "channel_matcher list \<Rightarrow> string \<Rightarrow> bool" where
  "acl_covers ms ch = list_ex (\<lambda>m. matcher_matches m ch) ms"

definition brenn_acl_covers :: "'g app_policy \<Rightarrow> string \<Rightarrow> bool" where
  "brenn_acl_covers p ch = acl_covers (acl_brenn_subscribe (ap_acls p)) ch"

definition webhook_acl_covers :: "'g app_policy \<Rightarrow> string \<Rightarrow> bool" where
  "webhook_acl_covers p endpoint = list_ex (\<lambda>m. m = endpoint) (acl_webhook (ap_acls p))"

definition allows_mqtt_dynamic_subscribe :: "'g app_policy \<Rightarrow> string \<Rightarrow> string \<Rightarrow> bool" where
  "allows_mqtt_dynamic_subscribe p client requested \<longleftrightarrow>
     has_grant p DynamicSubscribe \<and> has_grant p MqttSubscribe \<and> mqtt_acl_covers p client requested"

definition allows_brenn_dynamic_subscribe :: "'g app_policy \<Rightarrow> string \<Rightarrow> bool" where
  "allows_brenn_dynamic_subscribe p ch \<longleftrightarrow>
     has_grant p DynamicSubscribe \<and> has_grant p MessagingSubscribe \<and> brenn_acl_covers p ch"

definition allows_webhook_dynamic_subscribe :: "'g app_policy \<Rightarrow> string \<Rightarrow> bool" where
  "allows_webhook_dynamic_subscribe p endpoint \<longleftrightarrow>
     has_grant p DynamicSubscribe \<and> has_grant p CapWebhook \<and> webhook_acl_covers p endpoint"

definition allows_mqtt_delivery :: "'g app_policy \<Rightarrow> string \<Rightarrow> string \<Rightarrow> bool" where
  "allows_mqtt_delivery p client topic \<longleftrightarrow> has_grant p MqttSubscribe \<and> mqtt_acl_covers p client topic"

definition allows_brenn_delivery :: "'g app_policy \<Rightarrow> string \<Rightarrow> bool" where
  "allows_brenn_delivery p ch \<longleftrightarrow> has_grant p MessagingSubscribe \<and> brenn_acl_covers p ch"

definition allows_ephemeral_delivery :: "'g app_policy \<Rightarrow> string \<Rightarrow> bool" where
  "allows_ephemeral_delivery p ch \<longleftrightarrow>
     has_grant p EphemeralSubscribe \<and> acl_covers (acl_ephemeral_subscribe (ap_acls p)) ch"

definition allows_local_delivery :: "'g app_policy \<Rightarrow> string \<Rightarrow> bool" where
  "allows_local_delivery p ch \<longleftrightarrow>
     has_grant p LocalSubscribe \<and> acl_covers (acl_local_subscribe (ap_acls p)) ch"

definition allows_webhook_delivery :: "'g app_policy \<Rightarrow> string \<Rightarrow> bool" where
  "allows_webhook_delivery p endpoint \<longleftrightarrow> has_grant p CapWebhook \<and> webhook_acl_covers p endpoint"

definition allows_ephemeral_dynamic_subscribe :: "'g app_policy \<Rightarrow> string \<Rightarrow> bool" where
  "allows_ephemeral_dynamic_subscribe p ch \<longleftrightarrow> has_grant p DynamicSubscribe \<and> allows_ephemeral_delivery p ch"

definition allows_local_dynamic_subscribe :: "'g app_policy \<Rightarrow> string \<Rightarrow> bool" where
  "allows_local_dynamic_subscribe p ch \<longleftrightarrow> has_grant p DynamicSubscribe \<and> allows_local_delivery p ch"

definition allows_brenn_publish :: "'g app_policy \<Rightarrow> string \<Rightarrow> bool" where
  "allows_brenn_publish p ch \<longleftrightarrow> has_grant p MessagingPublish \<and> acl_covers (acl_brenn_publish (ap_acls p)) ch"

definition allows_ephemeral_publish :: "'g app_policy \<Rightarrow> string \<Rightarrow> bool" where
  "allows_ephemeral_publish p ch \<longleftrightarrow>
     has_grant p EphemeralPublish \<and> acl_covers (acl_ephemeral_publish (ap_acls p)) ch"

definition allows_local_publish :: "'g app_policy \<Rightarrow> string \<Rightarrow> bool" where
  "allows_local_publish p ch \<longleftrightarrow> has_grant p LocalPublish \<and> acl_covers (acl_local_publish (ap_acls p)) ch"

definition allows_mqtt_publish :: "'g app_policy \<Rightarrow> string \<Rightarrow> bool" where
  "allows_mqtt_publish p client \<longleftrightarrow>
     has_grant p MqttPublish \<and> list_ex (\<lambda>m. m = client) (acl_mqtt_publish (ap_acls p))"

definition allows_channel_access :: "'g app_policy \<Rightarrow> string \<Rightarrow> bool" where
  "allows_channel_access p address =
     (case scheme_split address of
        Some (Mqtt, _) \<Rightarrow>
          (case parse_mqtt_address address of
             Inl _ \<Rightarrow> False
           | Inr addr \<Rightarrow>
               (case validate_topic_filter_str (ma_topic addr) of
                  Inl _ \<Rightarrow> False
                | Inr _ \<Rightarrow> allows_mqtt_delivery p (ma_client addr) (ma_topic addr)))
      | Some (Brenn, ch) \<Rightarrow> allows_brenn_delivery p ch
      | Some (Ephemeral, ch) \<Rightarrow> allows_ephemeral_delivery p ch
      | Some (Webhook, endpoint) \<Rightarrow> allows_webhook_delivery p endpoint
      | Some (PwaPush, _) \<Rightarrow> False
      | Some (Local, ch) \<Rightarrow> allows_local_delivery p ch
      | None \<Rightarrow> False)"


section \<open>Publish gates\<close>

definition well_formed_name :: "string \<Rightarrow> channel_scheme \<Rightarrow> string option" where
  "well_formed_name addr scheme =
     (case strip_prefix (scheme_prefix scheme) addr of
        None \<Rightarrow> None
      | Some name \<Rightarrow> if \<not> is_unreserved_name name then None else Some name)"

definition resolve_publish_sender :: "(string \<times> 'g app_policy) list \<Rightarrow> string \<Rightarrow> app_capability \<Rightarrow> 'g app_policy option" where
  "resolve_publish_sender apps slug grant =
     (case map_of apps slug of None \<Rightarrow> None | Some p \<Rightarrow> if has_grant p grant then Some p else None)"

fun publish_acl_allows :: "'g app_policy \<Rightarrow> channel_scheme \<Rightarrow> string \<Rightarrow> bool" where
  "publish_acl_allows p Brenn name = allows_brenn_publish p name"
| "publish_acl_allows p Ephemeral name = allows_ephemeral_publish p name"
| "publish_acl_allows p Local name = allows_local_publish p name"
| "publish_acl_allows p _ name = False"

definition reply_to_visible :: "'g app_policy \<Rightarrow> channel_scheme \<Rightarrow> string \<Rightarrow> string \<Rightarrow> bool" where
  "reply_to_visible p scheme name addr \<longleftrightarrow> publish_acl_allows p scheme name \<or> allows_channel_access p addr"

definition check_body_size :: "string \<Rightarrow> nat \<Rightarrow> (nat \<times> nat) + unit" where
  "check_body_size body limit = (if limit < length body then Inl (length body, limit) else Inr ())"

lemma publish_acl_two_factor:
  assumes "publish_acl_allows p scheme name"
  shows "\<exists>cap. capability_transport cap = Some (PlanePublish, scheme) \<and> has_grant p cap"
  using assms by (cases scheme)
    (auto simp: allows_brenn_publish_def allows_ephemeral_publish_def allows_local_publish_def
      intro: exI [of _ MessagingPublish] exI [of _ EphemeralPublish] exI [of _ LocalPublish])

section \<open>The loops return, and what they compute\<close>

fun levels_match :: "string list \<Rightarrow> string list \<Rightarrow> bool" where
  "levels_match [] ts = (ts = [])"
| "levels_match (f # fs) ts =
     (f = ''#'' \<or> (case ts of [] \<Rightarrow> False | t # ts' \<Rightarrow> (f = ''+'' \<or> f = t) \<and> levels_match fs ts'))"

fun levels_cover :: "string list \<Rightarrow> string list \<Rightarrow> bool" where
  "levels_cover [] rs = (rs = [])"
| "levels_cover (a # as) rs =
     (a = ''#'' \<or>
      (case rs of [] \<Rightarrow> False | r # rs' \<Rightarrow> r \<noteq> ''#'' \<and> (a = ''+'' \<or> r \<noteq> ''+'' \<and> r = a) \<and> levels_cover as rs'))"

lemma match_loop_returns: "ti \<le> length ts \<Longrightarrow> match_loop fs ts fi ti = Some (levels_match (drop fi fs) (drop ti ts))"
proof (induction "length fs - fi" arbitrary: fi ti)
  case 0
  then show ?case
    by (subst match_loop.simps) auto
next
  case (Suc n)
  then have lt: "fi < length fs" by simp
  then have f: "drop fi fs = fs ! fi # drop (fi + 1) fs"
    by (simp add: Cons_nth_drop_Suc)
  show ?case
  proof (cases "ti < length ts")
    case True
    then have t: "drop ti ts = ts ! ti # drop (ti + 1) ts"
      by (simp add: Cons_nth_drop_Suc)
    have "match_loop fs ts (fi + 1) (ti + 1) = Some (levels_match (drop (fi + 1) fs) (drop (ti + 1) ts))"
      using Suc True by (intro Suc.hyps(1)) auto
    then show ?thesis
      using lt True by (subst match_loop.simps) (auto simp: f t Let_def)
  next
    case False
    then show ?thesis
      using lt by (subst match_loop.simps) (auto simp: f Let_def)
  qed
qed

lemma covers_loop_returns: "covers_loop as rs ai ri = Some (levels_cover (drop ai as) (drop ri rs))"
proof (induction "length as - ai" arbitrary: ai ri)
  case 0
  then show ?case
    by (subst covers_loop.simps) auto
next
  case (Suc n)
  then have lt: "ai < length as" by simp
  then have a: "drop ai as = as ! ai # drop (ai + 1) as"
    by (simp add: Cons_nth_drop_Suc)
  have next_level: "covers_loop as rs (ai + 1) (ri + 1) = Some (levels_cover (drop (ai + 1) as) (drop (ri + 1) rs))"
    using Suc by (intro Suc.hyps(1)) simp
  show ?case
  proof (cases "ri < length rs")
    case True
    then have r: "drop ri rs = rs ! ri # drop (ri + 1) rs"
      by (simp add: Cons_nth_drop_Suc)
    show ?thesis
      using lt True next_level by (subst covers_loop.simps) (auto simp: a r Let_def)
  next
    case False
    then show ?thesis
      using lt by (subst covers_loop.simps) (auto simp: a Let_def)
  qed
qed

lemma filter_covers_levels: "filter_covers a r = Some (levels_cover (levels a) (levels r))"
  by (simp add: filter_covers_def covers_loop_returns)

text \<open>What a filter matches, the reservation of system topics aside.\<close>

definition plain_match :: "string \<Rightarrow> string \<Rightarrow> bool" where
  "plain_match f topic = levels_match (levels f) (levels topic)"

definition system_topic :: "string \<Rightarrow> bool" where
  "system_topic topic \<longleftrightarrow> starts_with (CHR ''$'') topic"

definition leading_wildcard :: "string \<Rightarrow> bool" where
  "leading_wildcard f \<longleftrightarrow> hd (levels f) \<in> {''#'', ''+''}"

lemma system_topic_levels: "starts_with (CHR ''$'') (levels topic ! 0) \<longleftrightarrow> system_topic topic"
  by (cases "(CHR ''/'', topic)" rule: split_on.cases)
    (auto simp: starts_with_def system_topic_def split: list.splits)

lemma topic_matches_plain:
  "mqtt_topic_matches f topic = Some (plain_match f topic \<and> \<not> (leading_wildcard f \<and> system_topic topic))"
  by (auto simp: mqtt_topic_matches_def match_loop_returns plain_match_def leading_wildcard_def
      system_topic_levels hd_conv_nth Let_def)

section \<open>Coverage is inclusion of topics\<close>

definition plain_level :: "string \<Rightarrow> bool" where
  "plain_level seg \<longleftrightarrow> set seg \<inter> set ''/+#'' = {}"

fun filter_ok :: "string list \<Rightarrow> bool" where
  "filter_ok [] = True"
| "filter_ok (f # fs) = ((f = ''#'' \<and> fs = [] \<or> f = ''+'' \<or> plain_level f) \<and> filter_ok fs)"

lemma validated_ok:
  "validate_levels fs = Inr () \<Longrightarrow> \<forall>f\<in>set fs. CHR ''/'' \<notin> set f \<Longrightarrow> filter_ok fs"
  by (induction fs rule: validate_levels.induct) (auto simp: plain_level_def split: if_splits)

text \<open>A topic a filter matches.\<close>

fun example_topic :: "string list \<Rightarrow> string list" where
  "example_topic [] = []"
| "example_topic (f # fs) = (if plain_level f then f else ''a'') # example_topic fs"

lemma example_topic_plain: "filter_ok fs \<Longrightarrow> \<forall>t\<in>set (example_topic fs). plain_level t"
  by (induction fs) (auto simp: plain_level_def)

lemma example_topic_matches: "filter_ok fs \<Longrightarrow> levels_match fs (example_topic fs)"
  by (induction fs) (auto simp: plain_level_def)

definition included :: "string list \<Rightarrow> string list \<Rightarrow> bool" where
  "included as rs \<longleftrightarrow> (\<forall>ts. (\<forall>t\<in>set ts. plain_level t) \<longrightarrow> levels_match rs ts \<longrightarrow> levels_match as ts)"

lemma levels_cover_included: "filter_ok as \<Longrightarrow> filter_ok rs \<Longrightarrow> levels_cover as rs \<Longrightarrow> levels_match rs ts \<Longrightarrow> levels_match as ts"
proof (induction as arbitrary: rs ts)
  case (Cons a as)
  then show ?case
    by (cases rs; cases ts) (auto split: if_splits)
qed simp

lemma included_covers: "filter_ok as \<Longrightarrow> filter_ok rs \<Longrightarrow> included as rs \<Longrightarrow> levels_cover as rs"
proof (induction as arbitrary: rs)
  case Nil
  then have "levels_match [] (example_topic rs)"
    using example_topic_plain [of rs] example_topic_matches [of rs] unfolding included_def by blast
  then show ?case
    by (cases rs) simp_all
next
  case (Cons a as)
  show ?case
  proof (cases "a = ''#''")
    case False
    have "\<not> levels_match (a # as) []"
      using False by simp
    then have "\<not> levels_match rs []"
      using Cons.prems(3) unfolding included_def by force
    then obtain r rs' where rs: "rs = r # rs'" "r \<noteq> ''#''"
      by (cases rs) auto
    have ok: "filter_ok rs'" "filter_ok as" "r = ''+'' \<or> plain_level r" "a = ''+'' \<or> plain_level a"
      using Cons.prems rs False by auto
    have topic: "levels_match (a # as) (t # ts)"
      if "plain_level t" "r = ''+'' \<or> r = t" "\<forall>t\<in>set ts. plain_level t" "levels_match rs' ts" for t ts
    proof -
      have "levels_match rs (t # ts)"
        using that rs by simp
      then show ?thesis
        using Cons.prems(3) that unfolding included_def by (metis set_ConsD)
    qed
    define t where "t = (if r = ''+'' then a @ ''x'' else r)"
    have "a = ''+'' \<or> r \<noteq> ''+'' \<and> r = a"
    proof (rule ccontr)
      assume bad: "\<not> ?thesis"
      then have t: "plain_level t" "r = ''+'' \<or> r = t" "t \<noteq> a" "a \<noteq> ''+''"
        using ok by (auto simp: t_def plain_level_def)
      then have "levels_match (a # as) (t # example_topic rs')"
        using example_topic_plain [OF ok(1)] example_topic_matches [OF ok(1)] by (intro topic) auto
      with t False show False by simp
    qed
    moreover have "included as rs'"
      unfolding included_def
    proof (intro allI impI)
      fix ts assume ts: "\<forall>t\<in>set ts. plain_level t" "levels_match rs' ts"
      define u where "u = (if r = ''+'' then ''a'' else r)"
      have "plain_level u" "r = ''+'' \<or> r = u"
        using ok by (auto simp: u_def plain_level_def)
      then have "levels_match (a # as) (u # ts)"
        using ts by (intro topic) auto
      then show "levels_match as ts"
        using False by simp
    qed
    ultimately show ?thesis
      using Cons.IH [OF ok(2,1)] rs by simp
  qed simp
qed

text \<open>A topic always has a first level, which is where the subset test refuses one inclusion that
  holds.\<close>

definition included_topics :: "string list \<Rightarrow> string list \<Rightarrow> bool" where
  "included_topics as rs \<longleftrightarrow>
     (\<forall>ts. ts \<noteq> [] \<longrightarrow> (\<forall>t\<in>set ts. plain_level t) \<longrightarrow> levels_match rs ts \<longrightarrow> levels_match as ts)"

lemma everything_included:
  assumes "filter_ok as" "as \<noteq> []" "hd as \<noteq> ''#''" "included_topics as [''#'']"
  shows "as = [''+'', ''#'']"
proof -
  obtain a as' where as: "as = a # as'" "a \<noteq> ''#''"
    using assms(2,3) by (cases as) auto
  have all: "levels_match as ts" if "ts \<noteq> []" "\<forall>t\<in>set ts. plain_level t" for ts
    using assms(4) that by (auto simp: included_topics_def)
  have a: "a = ''+''"
    using all [of "[''x'']"] all [of "[''y'']"] as by (auto simp: plain_level_def)
  have "levels_match as' []"
    using all [of "[''x'']"] as by (simp add: plain_level_def)
  moreover have "levels_match as' [''x'']"
    using all [of "[''x'', ''x'']"] as by (simp add: plain_level_def)
  ultimately obtain fs where "as' = ''#'' # fs"
    by (cases as') auto
  then show ?thesis
    using assms(1) as a by (auto simp: plain_level_def)
qed

lemma levels_cover_exact:
  assumes ok: "filter_ok as" "filter_ok rs" "as \<noteq> []" "rs \<noteq> []"
  shows "levels_cover as rs \<longleftrightarrow> included_topics as rs \<and> \<not> (as = [''+'', ''#''] \<and> rs = [''#''])"
proof
  assume cover: "levels_cover as rs"
  then have "included_topics as rs"
    using levels_cover_included [OF ok(1,2)] by (auto simp: included_topics_def)
  then show "included_topics as rs \<and> \<not> (as = [''+'', ''#''] \<and> rs = [''#''])"
    using cover by auto
next
  assume inc: "included_topics as rs \<and> \<not> (as = [''+'', ''#''] \<and> rs = [''#''])"
  show "levels_cover as rs"
  proof (cases "hd as = ''#''")
    case True
    then show ?thesis
      using ok(3) by (cases as) simp_all
  next
    case False
    have "hd rs \<noteq> ''#''"
    proof
      assume "hd rs = ''#''"
      then have "rs = [''#'']"
        using ok(2,4) by (cases rs) (auto simp: plain_level_def)
      then show False
        using everything_included [OF ok(1,3) False] inc by simp
    qed
    then have deep: "\<not> levels_match rs []"
      using ok(4) by (cases rs) auto
    have "included as rs"
      unfolding included_def
    proof (intro allI impI)
      fix ts assume ts: "\<forall>t\<in>set ts. plain_level t" "levels_match rs ts"
      then have "ts \<noteq> []"
        using deep by blast
      with ts inc show "levels_match as ts"
        unfolding included_topics_def by simp
    qed
    then show ?thesis
      by (rule included_covers [OF ok(1,2)])
  qed
qed


section \<open>Results over strings\<close>

lemma match_loop_ends: "match_loop fs ts fi ti \<noteq> None"
proof (induction "length fs - fi" arbitrary: fi ti)
  case 0
  then show ?case
    by (subst match_loop.simps) simp
next
  case (Suc n)
  have "match_loop fs ts (fi + 1) (ti + 1) \<noteq> None"
    using Suc.hyps by simp
  then show ?case
    by (subst match_loop.simps) (simp add: Let_def del: not_None_eq)
qed

definition concrete_topic :: "string \<Rightarrow> bool" where
  "concrete_topic topic \<longleftrightarrow> CHR ''+'' \<notin> set topic \<and> CHR ''#'' \<notin> set topic"

lemma concrete_levels: "concrete_topic topic \<longleftrightarrow> (\<forall>t\<in>set (levels topic). plain_level t)"
proof
  assume "concrete_topic topic"
  then show "\<forall>t\<in>set (levels topic). plain_level t"
    using split_on_avoids split_on_chars by (fastforce simp: concrete_topic_def plain_level_def)
next
  assume plain: "\<forall>t\<in>set (levels topic). plain_level t"
  have "set (join sep segs) \<subseteq> set sep \<union> (\<Union>s\<in>set segs. set s)" for sep segs
    by (induction sep segs rule: join.induct) auto
  from this [of "''/''" "levels topic"] have "set topic \<subseteq> set ''/'' \<union> (\<Union>s\<in>set (levels topic). set s)"
    by (simp add: join_split_on)
  then show "concrete_topic topic"
    using plain by (fastforce simp: concrete_topic_def plain_level_def)
qed

lemma included_topics_strings:
  "included_topics (levels a) (levels r) \<longleftrightarrow>
     (\<forall>topic. concrete_topic topic \<longrightarrow> plain_match r topic \<longrightarrow> plain_match a topic)" (is "?L \<longleftrightarrow> ?R")
proof
  assume ?L
  then show ?R
    by (simp add: included_topics_def concrete_levels plain_match_def)
next
  assume R: ?R
  show ?L
    unfolding included_topics_def
  proof (intro allI impI)
    fix ts assume ts: "ts \<noteq> []" "\<forall>t\<in>set ts. plain_level t" "levels_match (levels r) ts"
    have "levels (join ''/'' ts) = ts"
      using ts(1,2) by (intro split_on_join) (auto simp: plain_level_def)
    then show "levels_match (levels a) ts"
      using R ts by (metis concrete_levels plain_match_def)
  qed
qed

lemma validated_levels: "validate_topic_filter f = Inr () \<Longrightarrow> filter_ok (levels f)"
  using split_on_avoids by (intro validated_ok) (auto simp: validate_topic_filter_def)

lemma levels_inject: "levels s = levels t \<longleftrightarrow> s = t"
  by (metis join_split_on)

lemma covers_plain:
  assumes "validate_topic_filter allowed = Inr ()" "validate_topic_filter requested = Inr ()"
    and "filter_covers allowed requested = Some True" "plain_match requested topic"
  shows "plain_match allowed topic"
  using levels_cover_included [OF validated_levels [OF assms(1)] validated_levels [OF assms(2)]] assms(3,4)
  by (simp add: filter_covers_levels plain_match_def)

lemma covers_sound:
  assumes "validate_topic_filter allowed = Inr ()" "validate_topic_filter requested = Inr ()"
    and "filter_covers allowed requested = Some True" "mqtt_topic_matches requested topic = Some True"
    and "\<not> (leading_wildcard allowed \<and> system_topic topic)"
  shows "mqtt_topic_matches allowed topic = Some True"
  using covers_plain [OF assms(1-3)] assms(4,5) by (simp add: topic_matches_plain)

lemma parse_mqtt_address_format:
  assumes "parse_mqtt_address addr = Inr a"
  shows "mqtt_format a = addr" "is_valid_client_slug (ma_client a)" "ma_topic a \<noteq> []"
proof -
  obtain rest where rest: "addr = ''mqtt:'' @ rest" and
    split: "split_once (CHR '':'') rest = Some (ma_client a, ma_topic a)"
    and valid: "is_valid_client_slug (ma_client a)" "ma_topic a \<noteq> []"
    using assms by (auto simp: parse_mqtt_address_def mqtt_address_prefix_def strip_prefix_Some_iff
        split: option.splits if_splits)
  have "rest = ma_client a @ CHR '':'' # ma_topic a"
    using split_once_Some [OF split] by simp
  with rest valid show "mqtt_format a = addr" "is_valid_client_slug (ma_client a)" "ma_topic a \<noteq> []"
    by (simp_all add: mqtt_format_def)
qed

lemma format_parses:
  assumes "is_valid_client_slug (ma_client a)" "ma_topic a \<noteq> []" "length (ma_topic a) \<le> 65535" "CHR 0x00 \<notin> set (ma_topic a)"
  shows "parse_mqtt_address (mqtt_format a) = Inr a"
proof -
  have "CHR '':'' \<notin> set (ma_client a)"
    using assms(1) by (auto simp: is_valid_client_slug_def list_all_iff)
  then show ?thesis
    using assms by (simp add: parse_mqtt_address_def mqtt_format_def mqtt_address_prefix_def strip_prefix_def split_once_first)
qed


text \<open>
  C37. The matching loops end. From any pair of indices, on any two lists of levels, the loop of the
  subset test and the loop of the topic matcher return a verdict; so both functions return on every
  pair of strings, validated or not.
\<close>

theorem matching_loops_end:
  "covers_loop as rs ai ri \<noteq> None \<and> match_loop fs ts fi ti \<noteq> None \<and>
   filter_covers allowed requested \<noteq> None \<and> mqtt_topic_matches f topic \<noteq> None"
  by (simp add: covers_loop_returns match_loop_ends filter_covers_levels topic_matches_plain del: not_None_eq)

text \<open>
  C11. The subset test. On two validated filters \<^verbatim>\<open>filter_covers\<close> answers yes exactly when every concrete
  topic the requested filter matches is matched by the allowed one, with one exception in the safe
  direction: asked for everything (\<^verbatim>\<open>#\<close>) under an allowance of \<^verbatim>\<open>+/#\<close>, which matches the same topics, it
  answers no.
\<close>

theorem filter_covers_exact:
  assumes "validate_topic_filter allowed = Inr ()" "validate_topic_filter requested = Inr ()"
  shows "filter_covers allowed requested =
    Some ((\<forall>topic. concrete_topic topic \<longrightarrow> plain_match requested topic \<longrightarrow> plain_match allowed topic) \<and>
          \<not> (allowed = ''+/#'' \<and> requested = ''#''))"
proof -
  have "levels allowed = [''+'', ''#''] \<longleftrightarrow> allowed = ''+/#''" "levels requested = [''#''] \<longleftrightarrow> requested = ''#''"
    using levels_inject [of allowed "''+/#''"] levels_inject [of requested "''#''"] by simp_all
  then show ?thesis
    using levels_cover_exact [OF validated_levels [OF assms(1)] validated_levels [OF assms(2)]]
    by (simp add: filter_covers_levels included_topics_strings)
qed

theorem filter_covers_exact_witness:
  "filter_covers ''sensors/+/temp'' ''sensors/#'' = Some False \<and>
   \<not> (\<forall>topic. concrete_topic topic \<longrightarrow> plain_match ''sensors/#'' topic \<longrightarrow> plain_match ''sensors/+/temp'' topic)"
proof -
  have valid: "validate_topic_filter ''sensors/+/temp'' = Inr ()" "validate_topic_filter ''sensors/#'' = Inr ()"
    by (simp_all add: validate_topic_filter_def)
  have "filter_covers ''sensors/+/temp'' ''sensors/#'' = Some False"
    by (simp add: filter_covers_levels)
  then show ?thesis
    using filter_covers_exact [OF valid] by simp
qed

section \<open>Access needs a grant and a matcher\<close>

fun scheme_matchers :: "'g app_policy \<Rightarrow> channel_scheme \<Rightarrow> channel_matcher list" where
  "scheme_matchers p Brenn = acl_brenn_subscribe (ap_acls p)"
| "scheme_matchers p Ephemeral = acl_ephemeral_subscribe (ap_acls p)"
| "scheme_matchers p Local = acl_local_subscribe (ap_acls p)"
| "scheme_matchers p Webhook = map MatchExact (acl_webhook (ap_acls p))"
| "scheme_matchers p _ = []"

definition mqtt_matcher_ok :: "'g app_policy \<Rightarrow> bool" where
  "mqtt_matcher_ok p \<longleftrightarrow> (\<forall>m\<in>set (acl_mqtt_subscribe (ap_acls p)). validate_topic_filter (ms_topic_filter m) = Inr ())"

definition mqtt_covered :: "'g app_policy \<Rightarrow> string \<Rightarrow> bool" where
  "mqtt_covered p address \<longleftrightarrow>
     (\<exists>client f m. address = ''mqtt:'' @ client @ '':'' @ f \<and> m \<in> set (acl_mqtt_subscribe (ap_acls p))
        \<and> ms_client m = client \<and> (\<forall>topic. plain_match f topic \<longrightarrow> plain_match (ms_topic_filter m) topic))"

lemma webhook_covers_matchers: "webhook_acl_covers p e \<longleftrightarrow> acl_covers (scheme_matchers p Webhook) e"
  by (auto simp: webhook_acl_covers_def acl_covers_def list_ex_iff)

lemma mqtt_access_covered:
  assumes "mqtt_matcher_ok p" "parse_mqtt_address address = Inr a"
    and "validate_topic_filter_str (ma_topic a) = Inr ()" "mqtt_acl_covers p (ma_client a) (ma_topic a)"
  shows "mqtt_covered p address"
proof -
  obtain m where m: "m \<in> set (acl_mqtt_subscribe (ap_acls p))" "ms_client m = ma_client a"
    "filter_covers (ms_topic_filter m) (ma_topic a) = Some True"
    using assms(4) by (auto simp: mqtt_acl_covers_def list_ex_iff)
  have "plain_match (ma_topic a) topic \<Longrightarrow> plain_match (ms_topic_filter m) topic" for topic
    using covers_plain [OF _ _ m(3)] assms(1,3) m(1) by (simp add: mqtt_matcher_ok_def validate_topic_filter_str_def)
  then show ?thesis
    using m parse_mqtt_address_format(1) [OF assms(2)] unfolding mqtt_covered_def mqtt_format_def by metis
qed

text \<open>
  C21. Two factors. A policy lets its holder at a channel (to subscribe, receive, discover or read)
  only when the address has a known scheme other than the egress-only one, the holder has the
  subscribe capability of that scheme's transport, and a matcher on that scheme's list covers the
  rest of the address; for an MQTT channel, a matcher of the same client whose filter matches every
  topic the channel's filter matches. A policy without matchers reaches nothing.
\<close>

theorem channel_access_two_factor:
  assumes "mqtt_matcher_ok p" "allows_channel_access p address"
  shows "\<exists>scheme rest cap. scheme_split address = Some (scheme, rest) \<and>
    capability_transport cap = Some (PlaneSubscribe, scheme) \<and> has_grant p cap \<and>
    (if scheme = Mqtt then mqtt_covered p address else acl_covers (scheme_matchers p scheme) rest)"
proof -
  obtain scheme rest where split: "scheme_split address = Some (scheme, rest)"
    using assms(2) by (auto simp: allows_channel_access_def split: option.splits)
  have "\<exists>cap. capability_transport cap = Some (PlaneSubscribe, scheme) \<and> has_grant p cap \<and>
    (if scheme = Mqtt then mqtt_covered p address else acl_covers (scheme_matchers p scheme) rest)"
  proof (cases scheme)
    case Brenn
    then show ?thesis
      using assms(2) split by (intro exI [of _ MessagingSubscribe])
        (simp add: allows_channel_access_def allows_brenn_delivery_def brenn_acl_covers_def)
  next
    case Ephemeral
    then show ?thesis
      using assms(2) split by (intro exI [of _ EphemeralSubscribe])
        (simp add: allows_channel_access_def allows_ephemeral_delivery_def)
  next
    case Local
    then show ?thesis
      using assms(2) split by (intro exI [of _ LocalSubscribe])
        (simp add: allows_channel_access_def allows_local_delivery_def)
  next
    case Webhook
    then show ?thesis
      using assms(2) split by (intro exI [of _ CapWebhook])
        (simp add: allows_channel_access_def allows_webhook_delivery_def webhook_covers_matchers)
  next
    case Mqtt
    then show ?thesis
      using assms split mqtt_access_covered [OF assms(1)] by (intro exI [of _ MqttSubscribe])
        (auto simp: allows_channel_access_def allows_mqtt_delivery_def split: sum.splits)
  next
    case PwaPush
    then show ?thesis
      using assms(2) split by (simp add: allows_channel_access_def)
  qed
  with split show ?thesis
    by blast
qed

definition sample_policy :: "unit app_policy" where
  "sample_policy = \<lparr>ap_grants = {MqttSubscribe},
     ap_acls = \<lparr>acl_mqtt_subscribe = [\<lparr>ms_client = ''home'', ms_topic_filter = ''sensors/#''\<rparr>], acl_mqtt_publish = [],
       acl_brenn_subscribe = [], acl_brenn_publish = [], acl_ephemeral_subscribe = [], acl_ephemeral_publish = [],
       acl_local_publish = [], acl_local_subscribe = [], acl_webhook = []\<rparr>,
     ap_tool_grants = []\<rparr>"

theorem channel_access_two_factor_witness:
  "allows_channel_access sample_policy ''mqtt:home:sensors/+/temp'' \<and>
   mqtt_covered sample_policy ''mqtt:home:sensors/+/temp''"
proof -
  have ok: "mqtt_matcher_ok sample_policy"
    by (simp add: mqtt_matcher_ok_def sample_policy_def validate_topic_filter_def)
  have slug: "is_valid_client_slug ''home''"
    by code_simp
  have parsed: "parse_mqtt_address ''mqtt:home:sensors/+/temp'' = Inr \<lparr>ma_client = ''home'', ma_topic = ''sensors/+/temp''\<rparr>"
    by (simp add: parse_mqtt_address_def mqtt_address_prefix_def strip_prefix_def split_once_def slug)
  have split: "scheme_split ''mqtt:home:sensors/+/temp'' = Some (Mqtt, ''home:sensors/+/temp'')"
    by (simp add: scheme_split_def prefix_defs strip_prefix_def)
  have access: "allows_channel_access sample_policy ''mqtt:home:sensors/+/temp''"
    by (simp add: allows_channel_access_def split parsed validate_topic_filter_str_def validate_topic_filter_def
        allows_mqtt_delivery_def has_grant_def grant_has_def mqtt_acl_covers_def filter_covers_levels)
      (simp add: sample_policy_def)
  then show ?thesis
    using channel_access_two_factor [OF ok access] split by auto
qed

end
