(* ===== verification/Token_Bucket.thy ===== *)
theory Token_Bucket
  imports Prelude
begin

text \<open>
  The rate limiter of \<^verbatim>\<open>brenn-lib/src/token_bucket.rs\<close>: a burst bucket refilled by whole
  intervals, with the signals a caller logs suppression windows from. \<^verbatim>\<open>Instant\<close> and
  \<^verbatim>\<open>Duration\<close> are nanoseconds; the clock \<^verbatim>\<open>Instant::now\<close> is read once per call and is an
  argument. The bucket's counters are \<^verbatim>\<open>u32\<close> with the source's saturations written out.
\<close>

section \<open>Data and operations\<close>

datatype bucket_outcome =
    Granted
  | GrantedAfterSuppression nat
  | Denied bool

record token_bucket =
  tb_capacity :: nat
  tb_refill_interval :: nat
  tb_refill_amount :: nat
  tb_tokens :: nat
  tb_last_refill :: nat
  tb_suppressed :: nat
  tb_in_suppression :: bool

text \<open>\<^verbatim>\<open>Duration::MAX\<close> in nanoseconds.\<close>

definition duration_max :: nat where
  "duration_max = u64_max * 1000000000 + 999999999"

definition bucket_new :: "nat \<Rightarrow> nat \<Rightarrow> nat \<Rightarrow> nat \<Rightarrow> token_bucket exec" where
  "bucket_new now capacity refill_interval refill_amount =
     (if refill_interval = 0 then Panic
      else Ret \<lparr>tb_capacity = capacity, tb_refill_interval = refill_interval,
                tb_refill_amount = refill_amount, tb_tokens = capacity, tb_last_refill = now,
                tb_suppressed = 0, tb_in_suppression = False\<rparr>)"

text \<open>The refill at the head of \<^verbatim>\<open>try_consume_n\<close>.\<close>

definition bucket_refill :: "nat \<Rightarrow> token_bucket \<Rightarrow> token_bucket" where
  "bucket_refill now b =
     (let elapsed = now - tb_last_refill b;
          intervals = elapsed div tb_refill_interval b
      in if intervals > 0
         then let intervals = (if intervals \<le> u32_max then intervals else u32_max);
                  refill = min (tb_refill_amount b * intervals) u32_max
              in b\<lparr>tb_tokens := min (min (tb_tokens b + refill) u32_max) (tb_capacity b),
                   tb_last_refill := tb_last_refill b + min (tb_refill_interval b * intervals) duration_max\<rparr>
         else b)"

definition try_consume_n :: "nat \<Rightarrow> nat \<Rightarrow> token_bucket \<Rightarrow> (token_bucket \<times> bucket_outcome) exec" where
  "try_consume_n now n b =
     (if \<not> n > 0 then Panic
      else let b = bucket_refill now b
           in if tb_tokens b \<ge> n
              then let b = b\<lparr>tb_tokens := tb_tokens b - n\<rparr>
                   in if tb_suppressed b > 0
                      then Ret (b\<lparr>tb_suppressed := 0, tb_in_suppression := False\<rparr>,
                                GrantedAfterSuppression (tb_suppressed b))
                      else Ret (b, Granted)
              else let b = b\<lparr>tb_suppressed := sat_add64 (tb_suppressed b) 1\<rparr>;
                       first = (\<not> tb_in_suppression b)
                   in Ret (b\<lparr>tb_in_suppression := True\<rparr>, Denied first))"

definition try_consume :: "nat \<Rightarrow> token_bucket \<Rightarrow> (token_bucket \<times> bucket_outcome) exec" where
  "try_consume now b = try_consume_n now 1 b"

section \<open>The invariant\<close>

fun granted :: "bucket_outcome \<Rightarrow> bool" where
  "granted (Denied _) = False"
| "granted _ = True"

text \<open>The balance is within the burst, the suppression flag tells whether a denial is uncounted
  for, and every refill so far was by whole intervals from the bucket's creation at \<open>t0\<close>.\<close>

definition bucket_wf :: "nat \<Rightarrow> token_bucket \<Rightarrow> bool" where
  "bucket_wf t0 b \<longleftrightarrow> tb_tokens b \<le> tb_capacity b \<and> tb_capacity b \<le> u32_max \<and> 0 < tb_refill_interval b \<and>
     (tb_in_suppression b \<longleftrightarrow> tb_suppressed b > 0) \<and>
     (\<exists>j. tb_last_refill b = t0 + j * tb_refill_interval b)"

lemma refill_intervals:
  assumes "now - tb_last_refill b \<le> duration_max" and "0 < tb_refill_interval b"
  shows "bucket_refill now b =
    (let i = min ((now - tb_last_refill b) div tb_refill_interval b) u32_max
     in b\<lparr>tb_tokens := if i = 0 then tb_tokens b else min (min (tb_tokens b + min (tb_refill_amount b * i) u32_max) u32_max) (tb_capacity b),
          tb_last_refill := tb_last_refill b + tb_refill_interval b * i\<rparr>)"
proof -
  define q where "q = (now - tb_last_refill b) div tb_refill_interval b"
  define i where "i = min q u32_max"
  have "tb_refill_interval b * i \<le> tb_refill_interval b * q" unfolding i_def by (rule mult_le_mono2) simp
  also have "\<dots> \<le> now - tb_last_refill b" unfolding q_def by (metis div_times_less_eq_dividend mult.commute)
  finally have le: "min (tb_refill_interval b * i) duration_max = tb_refill_interval b * i"
    using assms(1) by (simp add: min_absorb1)
  have i: "(if q \<le> u32_max then q else u32_max) = i" by (simp add: i_def min_def)
  have z: "q > 0 \<longleftrightarrow> i \<noteq> 0" by (auto simp: i_def min_def u32_max_def)
  show ?thesis
    unfolding bucket_refill_def Let_def q_def [symmetric] i i_def [symmetric] le z by (cases "i = 0") simp_all
qed

lemma bucket_refill_wf:
  assumes "bucket_wf t0 b" and "now - tb_last_refill b \<le> duration_max"
  shows "bucket_wf t0 (bucket_refill now b)"
proof -
  have i: "0 < tb_refill_interval b" using assms(1) by (simp add: bucket_wf_def)
  obtain j where "tb_last_refill b = t0 + j * tb_refill_interval b" using assms(1) by (auto simp: bucket_wf_def)
  then have "\<exists>j'. tb_last_refill b + tb_refill_interval b * k = t0 + j' * tb_refill_interval b" for k
    by (intro exI [of _ "j + k"]) (simp add: algebra_simps)
  then show ?thesis using assms(1) unfolding refill_intervals [OF assms(2) i]
    by (auto simp: bucket_wf_def Let_def)
qed

lemma bucket_refill_shape: "\<exists>x y. bucket_refill now b = b\<lparr>tb_tokens := x, tb_last_refill := y\<rparr>"
proof (cases "(now - tb_last_refill b) div tb_refill_interval b > 0")
  case True
  then show ?thesis unfolding bucket_refill_def Let_def by (simp only: if_True) blast
next
  case False
  have "b = b\<lparr>tb_tokens := tb_tokens b, tb_last_refill := tb_last_refill b\<rparr>" by simp
  then show ?thesis using False unfolding bucket_refill_def Let_def by (simp only: if_False) blast
qed

lemma bucket_refill_frame [simp]:
  "tb_capacity (bucket_refill now b) = tb_capacity b"
  "tb_refill_interval (bucket_refill now b) = tb_refill_interval b"
  "tb_refill_amount (bucket_refill now b) = tb_refill_amount b"
  "tb_suppressed (bucket_refill now b) = tb_suppressed b"
  "tb_in_suppression (bucket_refill now b) = tb_in_suppression b"
  using bucket_refill_shape [of now b] by auto

lemma try_consume_n_eq:
  assumes "0 < n"
  shows "try_consume_n now n b =
    (let r = bucket_refill now b
     in if n \<le> tb_tokens r
        then Ret (r\<lparr>tb_tokens := tb_tokens r - n, tb_suppressed := 0,
                    tb_in_suppression := (if 0 < tb_suppressed b then False else tb_in_suppression b)\<rparr>,
                  if 0 < tb_suppressed b then GrantedAfterSuppression (tb_suppressed b) else Granted)
        else Ret (r\<lparr>tb_suppressed := sat_add64 (tb_suppressed b) 1, tb_in_suppression := True\<rparr>,
                  Denied (\<not> tb_in_suppression b)))"
  using assms by (auto simp: try_consume_n_def Let_def)

lemma try_consume_n_wf:
  assumes "bucket_wf t0 b" and "now - tb_last_refill b \<le> duration_max"
    and "try_consume_n now n b = Ret (b', out)"
  shows "bucket_wf t0 b'"
proof -
  have n: "0 < n" using assms(3) by (auto simp: try_consume_n_def split: if_splits)
  have r: "bucket_wf t0 (bucket_refill now b)" by (rule bucket_refill_wf [OF assms(1,2)])
  show ?thesis
    using assms(3) r unfolding try_consume_n_eq [OF n] Let_def
    by (auto simp: bucket_wf_def sat_add64_def u64_max_def split: if_splits)
qed

section \<open>Draws over time\<close>

text \<open>A sequence of draws, each with the instant it is made at and its size.\<close>

fun bucket_step :: "token_bucket \<Rightarrow> nat \<times> nat \<Rightarrow> (token_bucket \<times> nat \<times> bucket_outcome) exec" where
  "bucket_step b (now, n) = exec_map (map_prod id (Pair n)) (try_consume_n now n b)"

fun drawn :: "nat \<times> bucket_outcome \<Rightarrow> nat" where
  "drawn (n, out) = (if granted out then n else 0)"

text \<open>What the source relies on in a clock: it does not run backwards, and no two calls are more than
  \<^verbatim>\<open>Duration::MAX\<close> apart.\<close>

fun clock_ok :: "nat \<Rightarrow> nat \<Rightarrow> (nat \<times> nat) list \<Rightarrow> bool" where
  "clock_ok t0 t [] \<longleftrightarrow> True"
| "clock_ok t0 t ((now, n) # draws) \<longleftrightarrow> t \<le> now \<and> now - t0 \<le> duration_max \<and> 0 < n \<and> clock_ok t0 now draws"

text \<open>The account of a bucket: what it granted plus what it holds is covered by the burst and the
  refills of the intervals it has advanced over.\<close>

definition bucket_account :: "nat \<Rightarrow> nat \<Rightarrow> token_bucket \<Rightarrow> bool" where
  "bucket_account t0 paid b \<longleftrightarrow>
     (\<exists>j. tb_last_refill b = t0 + j * tb_refill_interval b \<and>
          paid + tb_tokens b \<le> tb_capacity b + j * tb_refill_amount b)"

lemma clamped_le: "min (min (a + min x m) m) c \<le> a + (x::nat)"
  by (meson add_le_mono le_refl min.cobounded1 order_trans)

lemma refill_account:
  assumes "bucket_account t0 paid b" and "0 < tb_refill_interval b" and "now - tb_last_refill b \<le> duration_max"
  shows "bucket_account t0 paid (bucket_refill now b)"
proof -
  obtain j where j: "tb_last_refill b = t0 + j * tb_refill_interval b"
    "paid + tb_tokens b \<le> tb_capacity b + j * tb_refill_amount b" using assms(1) by (auto simp: bucket_account_def)
  define i where "i = min ((now - tb_last_refill b) div tb_refill_interval b) u32_max"
  define tok where "tok = tb_tokens (bucket_refill now b)"
  have r: "tb_last_refill (bucket_refill now b) = tb_last_refill b + tb_refill_interval b * i"
    "tok \<le> tb_tokens b + tb_refill_amount b * i"
    unfolding tok_def refill_intervals [OF assms(3,2)] i_def [symmetric] Let_def
    using clamped_le [of "tb_tokens b" "tb_refill_amount b * i" u32_max "tb_capacity b"] by simp_all
  have "paid + tok \<le> tb_capacity b + (j + i) * tb_refill_amount b"
    using r(2) j(2) by (simp add: algebra_simps)
  then show ?thesis unfolding bucket_account_def tok_def
    by (intro exI [of _ "j + i"]) (simp add: r(1) j(1) algebra_simps)
qed

lemma consume_account:
  assumes "bucket_account t0 paid b" and "0 < tb_refill_interval b" and "now - tb_last_refill b \<le> duration_max"
    and "0 < n" and "try_consume_n now n b = Ret (b', out)"
  shows "bucket_account t0 (paid + drawn (n, out)) b' \<and> tb_capacity b' = tb_capacity b \<and>
     tb_refill_amount b' = tb_refill_amount b \<and> tb_refill_interval b' = tb_refill_interval b \<and>
     tb_last_refill b' = tb_last_refill (bucket_refill now b)"
  using refill_account [OF assms(1-3)] assms(5) unfolding try_consume_n_eq [OF assms(4)] Let_def
  by (auto simp: bucket_account_def split: if_splits)

lemma refill_time:
  assumes "tb_last_refill b \<le> now" and "now - tb_last_refill b \<le> duration_max" and "0 < tb_refill_interval b"
  shows "tb_last_refill b \<le> tb_last_refill (bucket_refill now b)" "tb_last_refill (bucket_refill now b) \<le> now"
proof -
  define q where "q = (now - tb_last_refill b) div tb_refill_interval b"
  have "tb_refill_interval b * min q u32_max \<le> tb_refill_interval b * q" by (rule mult_le_mono2) simp
  also have "\<dots> \<le> now - tb_last_refill b" unfolding q_def by (metis div_times_less_eq_dividend mult.commute)
  finally show "tb_last_refill b \<le> tb_last_refill (bucket_refill now b)" "tb_last_refill (bucket_refill now b) \<le> now"
    unfolding refill_intervals [OF assms(2,3)] Let_def q_def [symmetric] using assms(1) by simp_all
qed

lemma draws_account:
  assumes "bucket_wf t0 b" and "bucket_account t0 paid b" and "clock_ok t0 t draws"
    and "t0 \<le> tb_last_refill b" and "tb_last_refill b \<le> t"
  shows "\<exists>b' outs. run bucket_step b draws = Ret (b', outs) \<and> bucket_wf t0 b' \<and> map fst outs = map snd draws \<and>
     tb_capacity b' = tb_capacity b \<and> tb_refill_amount b' = tb_refill_amount b \<and>
     tb_refill_interval b' = tb_refill_interval b \<and>
     bucket_account t0 (paid + (\<Sum>out\<leftarrow>outs. drawn out)) b' \<and>
     tb_last_refill b' \<le> (if draws = [] then t else fst (last draws))"
  using assms
proof (induction draws arbitrary: b paid t)
  case (Cons d draws)
  obtain now n where d: "d = (now, n)" by (cases d)
  have i: "0 < tb_refill_interval b" using Cons.prems(1) by (simp add: bucket_wf_def)
  have c: "t \<le> now" "now - t0 \<le> duration_max" "0 < n" "clock_ok t0 now draws" using Cons.prems(3) d by simp_all
  have le: "tb_last_refill b \<le> now" using Cons.prems(5) c(1) by simp
  have e: "now - tb_last_refill b \<le> duration_max" using Cons.prems(4) c(2) by simp
  obtain b1 out where st: "try_consume_n now n b = Ret (b1, out)"
    unfolding try_consume_n_eq [OF c(3)] Let_def by (metis (no_types))
  note a = consume_account [OF Cons.prems(2) i e c(3) st]
  have t: "t0 \<le> tb_last_refill b1" "tb_last_refill b1 \<le> now"
    using a refill_time [OF le e i] Cons.prems(4) by simp_all
  from Cons.IH [OF try_consume_n_wf [OF Cons.prems(1) e st] conjunct1 [OF a] c(4) t] obtain b2 outs where
    r: "run bucket_step b1 draws = Ret (b2, outs)" "bucket_wf t0 b2" "map fst outs = map snd draws"
      "tb_capacity b2 = tb_capacity b1" "tb_refill_amount b2 = tb_refill_amount b1"
      "tb_refill_interval b2 = tb_refill_interval b1"
      "bucket_account t0 (paid + drawn (n, out) + (\<Sum>out\<leftarrow>outs. drawn out)) b2"
      "tb_last_refill b2 \<le> (if draws = [] then now else fst (last draws))" by blast
  have "run bucket_step b (d # draws) = Ret (b2, (n, out) # outs)" using st r(1) d by simp
  then show ?case using r a d by (auto simp: algebra_simps)
qed auto

section \<open>Properties\<close>

text \<open>C32. The burst plus the refills bound what is ever granted. From its creation, under any
  sequence of draws on a clock that does not run backwards, the bucket never panics, its balance never
  exceeds its burst, and the tokens granted in total never exceed the burst plus one refill for every
  whole interval that had elapsed when the last draw was made.\<close>

theorem bucket_rate_bounded:
  assumes "capacity \<le> u32_max" and "bucket_new t0 capacity interval amount = Ret b"
    and "clock_ok t0 t0 draws"
  shows "\<exists>b' outs. run bucket_step b draws = Ret (b', outs) \<and> map fst outs = map snd draws \<and>
     tb_tokens b' \<le> capacity \<and>
     (\<Sum>out\<leftarrow>outs. drawn out) \<le>
       capacity + ((if draws = [] then t0 else fst (last draws)) - t0) div interval * amount"
proof -
  have b: "b = \<lparr>tb_capacity = capacity, tb_refill_interval = interval, tb_refill_amount = amount,
      tb_tokens = capacity, tb_last_refill = t0, tb_suppressed = 0, tb_in_suppression = False\<rparr>" "0 < interval"
    using assms(2) by (auto simp: bucket_new_def split: if_splits)
  have wf: "bucket_wf t0 b" using b assms(1) by (simp add: bucket_wf_def)
  have ac: "bucket_account t0 0 b" using b by (simp add: bucket_account_def)
  let ?t = "if draws = [] then t0 else fst (last draws)"
  from draws_account [OF wf ac assms(3)] b obtain b' outs where
    r: "run bucket_step b draws = Ret (b', outs)" "bucket_wf t0 b'" "map fst outs = map snd draws"
      "tb_capacity b' = capacity" "tb_refill_amount b' = amount" "tb_refill_interval b' = interval"
      "bucket_account t0 (\<Sum>out\<leftarrow>outs. drawn out) b'" "tb_last_refill b' \<le> ?t" by auto
  from r(7) obtain j where j: "tb_last_refill b' = t0 + j * interval"
    "(\<Sum>out\<leftarrow>outs. drawn out) + tb_tokens b' \<le> capacity + j * amount"
    unfolding bucket_account_def r by blast
  have "j * interval \<le> ?t - t0" using j(1) r(8) by simp
  then have "j \<le> (?t - t0) div interval" using b(2) by (simp add: less_eq_div_iff_mult_less_eq)
  then have "j * amount \<le> (?t - t0) div interval * amount" by (rule mult_le_mono1)
  then have "(\<Sum>out\<leftarrow>outs. drawn out) \<le> capacity + (?t - t0) div interval * amount" using j(2) by linarith
  moreover have "tb_tokens b' \<le> capacity" using r(2,4) by (simp add: bucket_wf_def)
  ultimately show ?thesis using r(1,3) by blast
qed

theorem bucket_rate_bounded_witness:
  "\<exists>b' outs. run bucket_step \<lparr>tb_capacity = 2, tb_refill_interval = 10, tb_refill_amount = 1, tb_tokens = 2,
        tb_last_refill = 5, tb_suppressed = 0, tb_in_suppression = False\<rparr> [(6, 2), (7, 1), (26, 2)] = Ret (b', outs) \<and>
     (\<Sum>out\<leftarrow>outs. drawn out) \<le> 2 + (26 - 5) div 10 * 1"
proof -
  have u: "(2::nat) \<le> u32_max" by (simp add: u32_max_def)
  have n: "bucket_new 5 2 10 1 = Ret \<lparr>tb_capacity = 2, tb_refill_interval = 10, tb_refill_amount = 1, tb_tokens = 2,
        tb_last_refill = 5, tb_suppressed = 0, tb_in_suppression = False\<rparr>"
    by (simp add: bucket_new_def)
  have c: "clock_ok 5 5 [(6, 2), (7, 1), (26, 2)]" by (simp add: duration_max_def u64_max_def)
  from bucket_rate_bounded [OF u n c] show ?thesis by force
qed

text \<open>The reference account of suppression: replay the bare grant/deny verdicts and narrate them,
  counting the denials since the last grant.\<close>

fun narrate :: "nat \<Rightarrow> bool list \<Rightarrow> bucket_outcome list" where
  "narrate denied [] = []"
| "narrate denied (True # vs) = (if denied > 0 then GrantedAfterSuppression denied else Granted) # narrate 0 vs"
| "narrate denied (False # vs) = Denied (denied = 0) # narrate (denied + 1) vs"

lemma bucket_narrates:
  assumes "bucket_wf t0 b" and "clock_ok t0 t draws" and "t0 \<le> tb_last_refill b" and "tb_last_refill b \<le> t"
    and "tb_suppressed b + length draws \<le> u64_max" and "run bucket_step b draws = Ret (b', outs)"
  shows "map snd outs = narrate (tb_suppressed b) (map (granted \<circ> snd) outs)"
  using assms
proof (induction draws arbitrary: b t outs)
  case (Cons d draws)
  obtain now n where d: "d = (now, n)" by (cases d)
  have i: "0 < tb_refill_interval b" using Cons.prems(1) by (simp add: bucket_wf_def)
  have c: "t \<le> now" "now - t0 \<le> duration_max" "0 < n" "clock_ok t0 now draws" using Cons.prems(2) d by simp_all
  have le: "tb_last_refill b \<le> now" using Cons.prems(4) c(1) by simp
  have e: "now - tb_last_refill b \<le> duration_max" using Cons.prems(3) c(2) by simp
  from Cons.prems(6) obtain b1 o1 outs' where st1: "bucket_step b d = Ret (b1, o1)"
    and rest: "run bucket_step b1 draws = Ret (b', outs')" and o: "outs = o1 # outs'" by (rule run_ConsE)
  then obtain out where st: "try_consume_n now n b = Ret (b1, out)" and o1: "o1 = (n, out)"
    using d by (auto simp: exec_map_Ret_iff)
  have sup: "tb_in_suppression b \<longleftrightarrow> tb_suppressed b > 0" using Cons.prems(1) by (simp add: bucket_wf_def)
  have s: "granted out \<Longrightarrow> tb_suppressed b1 = 0 \<and>
        out = (if tb_suppressed b > 0 then GrantedAfterSuppression (tb_suppressed b) else Granted)"
      "\<not> granted out \<Longrightarrow> tb_suppressed b1 = tb_suppressed b + 1 \<and> out = Denied (tb_suppressed b = 0)"
    using st sup Cons.prems(5) unfolding try_consume_n_eq [OF c(3)] Let_def by (auto split: if_splits)
  have t: "t0 \<le> tb_last_refill b1" "tb_last_refill b1 \<le> now"
    using st refill_time [OF le e i] Cons.prems(3) unfolding try_consume_n_eq [OF c(3)] Let_def
    by (auto split: if_splits)
  have "tb_suppressed b1 + length draws \<le> u64_max" using s Cons.prems(5) by (cases "granted out") auto
  from Cons.IH [OF try_consume_n_wf [OF Cons.prems(1) e st] c(4) t this rest]
  show ?case using s by (cases "granted out") (auto simp: o o1)
qed simp

text \<open>Suppression is reported exactly: the outcomes a caller sees over any run of fewer than
  \<open>2^64\<close> draws are those of the reference account, so the transition into suppression is flagged on
  the first denial of each window and on no other, and the grant that ends a window carries exactly
  the number of draws denied in it.\<close>

lemma bucket_suppression_exact:
  assumes "capacity \<le> u32_max" and "bucket_new t0 capacity interval amount = Ret b"
    and "clock_ok t0 t0 draws" and "length draws \<le> u64_max"
    and "run bucket_step b draws = Ret (b', outs)"
  shows "map snd outs = narrate 0 (map (granted \<circ> snd) outs)"
proof -
  have b: "b = \<lparr>tb_capacity = capacity, tb_refill_interval = interval, tb_refill_amount = amount,
      tb_tokens = capacity, tb_last_refill = t0, tb_suppressed = 0, tb_in_suppression = False\<rparr>" "0 < interval"
    using assms(2) by (auto simp: bucket_new_def split: if_splits)
  have "bucket_wf t0 b" using b assms(1) by (simp add: bucket_wf_def)
  from bucket_narrates [OF this assms(3) _ _ _ assms(5)] b assms(4) show ?thesis by simp
qed

lemma bucket_suppression_exact_example:
  "map snd [(2::nat, Granted), (1, Denied True), (1, Denied False), (1, GrantedAfterSuppression 2)] =
     narrate 0 (map (granted \<circ> snd)
       [(2::nat, Granted), (1, Denied True), (1, Denied False), (1, GrantedAfterSuppression 2)])"
proof -
  let ?b = "\<lparr>tb_capacity = 2, tb_refill_interval = 10, tb_refill_amount = 1, tb_tokens = 2,
        tb_last_refill = 5, tb_suppressed = 0, tb_in_suppression = False\<rparr>"
  let ?draws = "[(6, 2), (7, 1), (8, 1), (16, 1)]"
  have u: "(2::nat) \<le> u32_max" "length ?draws \<le> u64_max" by (simp_all add: u32_max_def u64_max_def)
  have n: "bucket_new 5 2 10 1 = Ret ?b" by (simp add: bucket_new_def)
  have c: "clock_ok 5 5 ?draws" by (simp add: duration_max_def u64_max_def)
  have r: "run bucket_step ?b ?draws = Ret (?b\<lparr>tb_tokens := 0, tb_last_refill := 15\<rparr>,
      [(2, Granted), (1, Denied True), (1, Denied False), (1, GrantedAfterSuppression 2)])"
    by (simp add: try_consume_n_def bucket_refill_def sat_add64_def u32_max_def u64_max_def duration_max_def)
  show ?thesis by (rule bucket_suppression_exact [OF u(1) n c u(2) r])
qed

text \<open>C33. No draw that fits the burst starves: once as many whole intervals have passed since the
  last refill as the draw asks tokens for, on a bucket that refills at all, it is granted.\<close>

theorem bucket_no_starvation:
  assumes "bucket_wf t0 b" and "0 < n" and "n \<le> tb_capacity b" and "0 < tb_refill_amount b"
    and "tb_last_refill b + n * tb_refill_interval b \<le> now" and "now - tb_last_refill b \<le> duration_max"
  shows "\<exists>b' out. try_consume_n now n b = Ret (b', out) \<and> granted out"
proof -
  have i: "0 < tb_refill_interval b" and cap: "tb_capacity b \<le> u32_max" using assms(1) by (simp_all add: bucket_wf_def)
  define q where "q = min ((now - tb_last_refill b) div tb_refill_interval b) u32_max"
  have "n \<le> (now - tb_last_refill b) div tb_refill_interval b"
    using assms(5) i by (simp add: less_eq_div_iff_mult_less_eq)
  then have q: "n \<le> q" using assms(3) cap by (simp add: q_def)
  have "n \<le> tb_refill_amount b * q" using q assms(4) by (metis One_nat_def Suc_leI le_trans mult_le_mono1 nat_mult_1)
  then have m: "n \<le> min (tb_refill_amount b * q) u32_max" using assms(3) cap by simp
  have "n \<le> tb_tokens (bucket_refill now b)"
    unfolding refill_intervals [OF assms(6) i] Let_def q_def [symmetric]
    using m q assms(2,3) cap by auto
  then show ?thesis unfolding try_consume_n_eq [OF assms(2)] Let_def by auto
qed

theorem bucket_no_starvation_witness:
  "let b = \<lparr>tb_capacity = 2, tb_refill_interval = 10, tb_refill_amount = 1, tb_tokens = 0,
        tb_last_refill = 5, tb_suppressed = 3, tb_in_suppression = True\<rparr>
   in \<exists>b' out. try_consume_n 25 2 b = Ret (b', out) \<and> granted out"
  unfolding Let_def
  by (rule bucket_no_starvation [of 5]) (simp_all add: bucket_wf_def u32_max_def duration_max_def u64_max_def)

end
