(* ===== verification/Attach_Session.thy ===== *)
theory Attach_Session
  imports Directory Access Token_Bucket
begin

text \<open>
  The subscription plane of an attach session on the server, from \<^verbatim>\<open>attach/server/src/\<close>: resume
  cursors (\<^verbatim>\<open>cursor.rs\<close>), the profile interface (\<^verbatim>\<open>profile.rs\<close>), active channels, wire positions and
  the four send paths (\<^verbatim>\<open>subscription.rs\<close>), and the session's shared state, counters, buckets and
  frame sender (\<^verbatim>\<open>session.rs\<close>).

  The profile trait is a record of functions. What the session reaches outside itself is the world
  record: the directory, the retention stores behind it (by channel id), the writer's queue and the
  number of frames it will still take before it is gone, and the alert dispatcher's log. The JSON text
  of a cursor is serde's: its printer and parser are a pair of functions. \<^verbatim>\<open>Mutex\<close>-shared sets are
  written by this task alone and are values here.
\<close>

section \<open>Resume cursors\<close>

record 'u cursor_wire =
  cw_incarnation :: int
  cw_channel :: string
  cw_epoch :: 'u
  cw_seq :: nat

record 'u cursor_state =
  cu_incarnation :: int
  cu_channel :: string
  cu_resume :: "'u resume"

record 'u cursor_json =
  cj_to_string :: "'u cursor_wire \<Rightarrow> string"
  cj_from_str :: "string \<Rightarrow> string + 'u cursor_wire"

definition cursor_wrap :: "'u cursor_json \<Rightarrow> 'u cursor_wire \<Rightarrow> cursor_token" where
  "cursor_wrap J wire = Cursor (cj_to_string J wire)"

definition cursor_mint :: "'u cursor_json \<Rightarrow> int \<Rightarrow> string \<Rightarrow> 'u resume \<Rightarrow> cursor_token" where
  "cursor_mint J incarnation ch resume =
     cursor_wrap J \<lparr>cw_incarnation = incarnation, cw_channel = ch, cw_epoch = rs_epoch resume, cw_seq = rs_seq resume\<rparr>"

fun cursor_parse :: "'u cursor_json \<Rightarrow> cursor_token \<Rightarrow> string + 'u cursor_state" where
  "cursor_parse J (Cursor inner) =
     (case cj_from_str J inner of
        Inl e \<Rightarrow> Inl (''malformed cursor encoding: '' @ e)
      | Inr w \<Rightarrow> Inr \<lparr>cu_incarnation = cw_incarnation w, cu_channel = cw_channel w,
                      cu_resume = \<lparr>rs_epoch = cw_epoch w, rs_seq = cw_seq w\<rparr>\<rparr>)"

text \<open>What serde promises of a derived printer and parser: a printed value parses back.\<close>

definition json_ok :: "'u cursor_json \<Rightarrow> bool" where
  "json_ok J \<longleftrightarrow> (\<forall>w. cj_from_str J (cj_to_string J w) = Inr w)"

lemma cursor_round_trip:
  "json_ok J \<Longrightarrow> cursor_parse J (cursor_mint J i ch r) = Inr \<lparr>cu_incarnation = i, cu_channel = ch, cu_resume = r\<rparr>"
  by (simp add: json_ok_def cursor_mint_def cursor_wrap_def)

section \<open>The profile\<close>

record subscription_facts =
  sf_push_depth :: nat
  sf_retain_depth :: nat

definition facts_push_enabled :: "subscription_facts \<Rightarrow> bool" where
  "facts_push_enabled f \<longleftrightarrow> 1 \<le> sf_push_depth f"

definition replay_clamp :: "subscription_facts \<Rightarrow> depth" where
  "replay_clamp f = Bounded (max (sf_push_depth f) (sf_retain_depth f))"

record deferred_target =
  dt_channel :: string
  dt_attribution :: "string option"

datatype publish_posture = PostureInvariant | PostureDiagnostic

record publish_rate =
  pr_burst :: nat
  pr_per_sec :: nat

datatype missing_channel_posture = MissingInvariant | MissingRace

record session_caps =
  sk_per_attacher :: nat
  sk_per_account :: nat

record attach_profile =
  pf_attacher :: participant_id
  pf_subscribable :: "string \<Rightarrow> subscription_facts option"
  pf_publishable :: "string option \<Rightarrow> string \<Rightarrow> bool"
  pf_admit_attribution :: "string option \<Rightarrow> participant_id option"
  pf_publish_posture :: "string \<Rightarrow> publish_posture"
  pf_attach_scope :: attach_scope
  pf_missing_channel_posture :: missing_channel_posture
  pf_deferred_view_targets :: "deferred_target list"
  pf_subscribe_burst :: nat
  pf_publish_rate :: publish_rate
  pf_alert_granted :: bool
  pf_attribution_may_alert :: "string \<Rightarrow> bool"
  pf_session_caps :: session_caps
  pf_max_active_subscriptions :: nat
  pf_runtime_entry :: "string \<Rightarrow> subscriber_entry option"

section \<open>Session state\<close>

record active_channels =
  ac_active :: "(string \<times> subscription_facts) list"
  ac_shared :: "string set"

definition active_new :: "string set \<Rightarrow> active_channels" where
  "active_new shared = \<lparr>ac_active = [], ac_shared = shared\<rparr>"

definition activate :: "string \<Rightarrow> subscription_facts \<Rightarrow> active_channels \<Rightarrow> active_channels" where
  "activate ch facts a = a\<lparr>ac_shared := insert ch (ac_shared a), ac_active := AList.update ch facts (ac_active a)\<rparr>"

definition deactivate :: "string \<Rightarrow> active_channels \<Rightarrow> active_channels \<times> bool" where
  "deactivate ch a =
     (let was_active = map_of (ac_active a) ch \<noteq> None
      in (a\<lparr>ac_active := AList.delete ch (ac_active a),
            ac_shared := (if was_active then ac_shared a - {ch} else ac_shared a)\<rparr>, was_active))"

definition active_facts :: "string \<Rightarrow> active_channels \<Rightarrow> subscription_facts option" where
  "active_facts ch a = map_of (ac_active a) ch"

definition active_is :: "string \<Rightarrow> active_channels \<Rightarrow> bool" where
  "active_is ch a \<longleftrightarrow> map_of (ac_active a) ch \<noteq> None"

definition active_len :: "active_channels \<Rightarrow> nat" where
  "active_len a = length (ac_active a)"

definition active_names :: "active_channels \<Rightarrow> string list" where
  "active_names a = map fst (ac_active a)"

record 'u wire_cursors =
  wc_span_seq :: "(string \<times> nat) list"
  wc_incarnation :: int
  wc_pos :: "(string \<times> 'u resume) list"

definition cursors_new :: "int \<Rightarrow> 'u wire_cursors" where
  "cursors_new incarnation = \<lparr>wc_span_seq = [], wc_incarnation = incarnation, wc_pos = []\<rparr>"

definition start_span :: "string \<Rightarrow> 'u \<Rightarrow> nat \<Rightarrow> 'u wire_cursors \<Rightarrow> 'u wire_cursors" where
  "start_span ch epoch anchor c =
     c\<lparr>wc_span_seq := AList.update ch 0 (wc_span_seq c),
       wc_pos := AList.update ch \<lparr>rs_epoch = epoch, rs_seq = anchor\<rparr> (wc_pos c)\<rparr>"

definition clear_span :: "string \<Rightarrow> 'u wire_cursors \<Rightarrow> 'u wire_cursors" where
  "clear_span ch c = c\<lparr>wc_span_seq := AList.delete ch (wc_span_seq c), wc_pos := AList.delete ch (wc_pos c)\<rparr>"

definition pos_of :: "string \<Rightarrow> 'u wire_cursors \<Rightarrow> 'u resume option" where
  "pos_of ch c = map_of (wc_pos c) ch"

definition next_span_seq :: "string \<Rightarrow> 'u wire_cursors \<Rightarrow> ('u wire_cursors \<times> nat) exec" where
  "next_span_seq ch c =
     (case map_of (wc_span_seq c) ch of
        None \<Rightarrow> Panic
      | Some seq \<Rightarrow> Ret (c\<lparr>wc_span_seq := AList.update ch (seq + 1) (wc_span_seq c)\<rparr>, seq + 1))"

definition cursors_next ::
  "'u cursor_json \<Rightarrow> string \<Rightarrow> nat \<Rightarrow> 'u wire_cursors \<Rightarrow> ('u wire_cursors \<times> nat \<times> cursor_token) exec" where
  "cursors_next J ch retained_seq c = exec_bind (next_span_seq ch c) (\<lambda>(c, seq).
     case map_of (wc_pos c) ch of
       None \<Rightarrow> Panic
     | Some pos \<Rightarrow>
         (let pos = pos\<lparr>rs_seq := max (rs_seq pos) retained_seq\<rparr>
          in Ret (c\<lparr>wc_pos := AList.update ch pos (wc_pos c)\<rparr>, seq, cursor_mint J (wc_incarnation c) ch pos)))"

record attribution_counters =
  at_publishes :: nat
  at_publish_rate_limited :: nat

record session_counters =
  ct_frames_in :: nat
  ct_frames_out :: nat
  ct_publishes :: nat
  ct_publish_rate_limited :: nat
  ct_publish_body_too_large :: nat
  ct_publish_body_cap_disagreement :: nat
  ct_alerts_dispatched :: nat
  ct_alerts_suppressed :: nat
  ct_by_attribution :: "(string \<times> attribution_counters) list"

definition counters_default :: session_counters where
  "counters_default = \<lparr>ct_frames_in = 0, ct_frames_out = 0, ct_publishes = 0, ct_publish_rate_limited = 0,
     ct_publish_body_too_large = 0, ct_publish_body_cap_disagreement = 0, ct_alerts_dispatched = 0,
     ct_alerts_suppressed = 0, ct_by_attribution = []\<rparr>"

definition attribution_entry :: "string \<Rightarrow> session_counters \<Rightarrow> attribution_counters" where
  "attribution_entry name c =
     (case map_of (ct_by_attribution c) name of
        Some e \<Rightarrow> e
      | None \<Rightarrow> \<lparr>at_publishes = 0, at_publish_rate_limited = 0\<rparr>)"

definition count_publish_ok :: "string option \<Rightarrow> session_counters \<Rightarrow> session_counters" where
  "count_publish_ok attribution c =
     (let c = c\<lparr>ct_publishes := ct_publishes c + 1\<rparr> in
      case attribution of
        None \<Rightarrow> c
      | Some name \<Rightarrow>
          (let e = attribution_entry name c
           in c\<lparr>ct_by_attribution :=
                  bt_insert name (e\<lparr>at_publishes := at_publishes e + 1\<rparr>) (ct_by_attribution c)\<rparr>))"

definition count_rate_limited :: "string option \<Rightarrow> session_counters \<Rightarrow> session_counters" where
  "count_rate_limited attribution c =
     (let c = c\<lparr>ct_publish_rate_limited := ct_publish_rate_limited c + 1\<rparr> in
      case attribution of
        None \<Rightarrow> c
      | Some name \<Rightarrow>
          (let e = attribution_entry name c
           in c\<lparr>ct_by_attribution :=
                  bt_insert name (e\<lparr>at_publish_rate_limited := at_publish_rate_limited e + 1\<rparr>) (ct_by_attribution c)\<rparr>))"

record session_buckets =
  bk_subscribe :: token_bucket
  bk_publish :: token_bucket
  bk_alert :: token_bucket

definition nanos_per_sec :: nat where
  "nanos_per_sec = 1000000000"

definition subscribe_refill :: nat where
  "subscribe_refill = 1 * nanos_per_sec"

definition subscribe_bucket :: "nat \<Rightarrow> attach_profile \<Rightarrow> token_bucket exec" where
  "subscribe_bucket now p = bucket_new now (pf_subscribe_burst p) subscribe_refill 1"

definition alert_burst :: nat where
  "alert_burst = 5"

definition alert_refill :: nat where
  "alert_refill = 300 * nanos_per_sec"

definition buckets_new :: "nat \<Rightarrow> attach_profile \<Rightarrow> session_buckets exec" where
  "buckets_new now p =
     (let rate = pf_publish_rate p in
      exec_bind (subscribe_bucket now p) (\<lambda>sub.
      exec_bind (bucket_new now (pr_burst rate) nanos_per_sec (pr_per_sec rate)) (\<lambda>pub.
      exec_map (\<lambda>al. \<lparr>bk_subscribe = sub, bk_publish = pub, bk_alert = al\<rparr>)
        (bucket_new now alert_burst alert_refill 1))))"

record 'u session_state =
  ss_active :: active_channels
  ss_cursors :: "'u wire_cursors"
  ss_buckets :: session_buckets
  ss_counters :: session_counters

definition session_new :: "nat \<Rightarrow> attach_profile \<Rightarrow> string set \<Rightarrow> int \<Rightarrow> 'u session_state exec" where
  "session_new now p shared incarnation = exec_map (\<lambda>buckets.
     \<lparr>ss_active = active_new shared, ss_cursors = cursors_new incarnation, ss_buckets = buckets,
      ss_counters = counters_default\<rparr>) (buckets_new now p)"

datatype frame_outcome = Continue | Violation string | Disconnect

section \<open>Context and world\<close>

record ('u, 'g) session_ctx =
  cx_profile :: attach_profile
  cx_policy :: "'g app_policy"
  cx_max_body_bytes :: nat
  cx_session_id :: 'u
  cx_account :: string
  cx_json :: "'u cursor_json"
  cx_escape_debug :: "char \<Rightarrow> string"

text \<open>The bus behind the session, at the calls the publish plane makes: each call is logged, and each answer is
  a function of the calls so far, the one being answered last.\<close>

datatype publish_result =
    PrOk
  | PrBodyTooLarge nat nat
  | PrMissingSender
  | PrAclDenied string
  | PrUnknownChannel string
  | PrMalformedAddress string
  | PrDeferredQuotaExceeded
  | PrImpetusUnauthorized
  | PrBudgetExhausted
  | PrRateLimited

record 't attach_batch_publish =
  ab_channel_address :: string
  ab_body :: string
  ab_urgency :: urgency
  ab_publish_ts_ns :: int
  ab_deliver_after :: "'t option"

record 'u deferred_view_push =
  dvp_channel :: string
  dvp_attribution :: "string option"
  dvp_entries :: "'u deferred_view_entry list"

datatype ('u, 't) bus_call =
    BusPublish attach_scope "string option" string string urgency
  | BusDraw attach_scope "string option" nat
  | BusCancel string string 'u 't
  | BusEdit string string 'u "string option" "'t option" 't
  | BusRace string string
  | BusKick
  | BusBatch attach_scope "string option" "'t attach_batch_publish list" missing_channel_posture
  | BusParked string string
  | BusView string "'u deferred_view_push"

record ('u, 't) bus =
  bs_publish :: "('u, 't) bus_call list \<Rightarrow> publish_result"
  bs_draw :: "('u, 't) bus_call list \<Rightarrow> bool"
  bs_defer :: "('u, 't) bus_call list \<Rightarrow> 't deferral_outcome"
  bs_batch :: "('u, 't) bus_call list \<Rightarrow> nat"
  bs_parked :: "('u, 't) bus_call list \<Rightarrow> ('u, 't) deferred_message list"
  bs_timestamp_millis :: "'t \<Rightarrow> int"
  bs_from_timestamp_millis :: "int \<Rightarrow> 't option"
  bs_timestamp_nanos :: "'t \<Rightarrow> int"

record ('u, 't) attach_world =
  aw_directory :: "'u directory_inner"
  aw_replay :: "'u \<Rightarrow> 'u resume option \<Rightarrow> depth \<Rightarrow> ('u, 't) store_replay"
  aw_room :: "nat option"
  aw_out :: "('u, 't) server_frame list"
  aw_alerts :: "(alert_severity \<times> string \<times> string) list"
  aw_bus :: "('u, 't) bus"
  aw_calls :: "('u, 't) bus_call list"

type_synonym ('u, 't) session_result = "(('u, 't) attach_world \<times> 'u session_state \<times> frame_outcome) exec"

definition violation_detail :: "('u, 'g) session_ctx \<Rightarrow> string \<Rightarrow> string" where
  "violation_detail cx detail =
     ''attacher '' @ pf_attacher (cx_profile cx) @ '' account '' @ cx_account cx @ '': '' @ detail"

definition violation :: "('u, 'g) session_ctx \<Rightarrow> string \<Rightarrow> frame_outcome" where
  "violation cx detail = Violation (violation_detail cx detail)"

definition sanitize_client_detail :: "('u, 'g) session_ctx \<Rightarrow> string \<Rightarrow> string" where
  "sanitize_client_detail cx s =
     concat (map (cx_escape_debug cx) (take 128 s)) @ (if 128 < length s then ''...'' else '''')"

definition send_frame ::
  "('u, 't) server_frame \<Rightarrow> ('u, 't) attach_world \<Rightarrow> 'u session_state
   \<Rightarrow> ('u, 't) attach_world \<times> 'u session_state \<times> frame_outcome" where
  "send_frame frame w s =
     (if aw_room w = Some 0 then (w, s, Disconnect)
      else (w\<lparr>aw_out := aw_out w @ [frame], aw_room := map_option (\<lambda>n. n - 1) (aw_room w)\<rparr>,
            s\<lparr>ss_counters := (ss_counters s)\<lparr>ct_frames_out := ct_frames_out (ss_counters s) + 1\<rparr>\<rparr>,
            Continue))"

definition store_for_address ::
  "string \<Rightarrow> ('u, 't) attach_world \<Rightarrow> ('u resume option \<Rightarrow> depth \<Rightarrow> ('u, 't) store_replay) exec" where
  "store_for_address ch w =
     (case dir_resolve ch (aw_directory w) of
        None \<Rightarrow> Panic
      | Some entry \<Rightarrow> Ret (aw_replay w (ce_uuid entry)))"


section \<open>Sending a pass\<close>

record ('u, 't) pass_row =
  pw_envelope :: "('u, 't) message_envelope"
  pw_dropped :: nat
  pw_retained_seq :: nat

fun mint_rows ::
  "'u cursor_json \<Rightarrow> string \<Rightarrow> ('u, 't) pass_row list \<Rightarrow> 'u wire_cursors
   \<Rightarrow> ('u wire_cursors \<times> ('u, 't) deliver_row list) exec" where
  "mint_rows J ch [] c = Ret (c, [])"
| "mint_rows J ch (p # ps) c = exec_bind (cursors_next J ch (pw_retained_seq p) c) (\<lambda>(c, seq, cursor).
     exec_map (\<lambda>(c, rows).
         (c, \<lparr>dr_envelope = pw_envelope p, dr_seq = seq, dr_cursor = cursor, dr_dropped = pw_dropped p\<rparr> # rows))
       (mint_rows J ch ps c))"

definition send_pass ::
  "('u, 'g) session_ctx \<Rightarrow> string \<Rightarrow> ('u, 't) pass_row list \<Rightarrow> ('u, 't) attach_world \<Rightarrow> 'u session_state
   \<Rightarrow> ('u, 't) session_result" where
  "send_pass cx ch pass w s =
     (if pass = [] then Ret (w, s, Continue)
      else exec_map (\<lambda>(c, rows). send_frame (Deliver ch rows) w (s\<lparr>ss_cursors := c\<rparr>))
             (mint_rows (cx_json cx) ch pass (ss_cursors s)))"

record ('u, 't) live_delivery =
  ld_envelope :: "('u, 't) message_envelope"
  ld_retained_seq :: nat

datatype ('u, 't) session_push = PushLive "('u, 't) live_delivery" | PushView "'u deferred_view_push"

definition send_deferred_view ::
  "'u deferred_view_push \<Rightarrow> ('u, 't) attach_world \<Rightarrow> 'u session_state
   \<Rightarrow> ('u, 't) attach_world \<times> 'u session_state \<times> frame_outcome" where
  "send_deferred_view v w s = send_frame (DeferredView (dvp_channel v) (dvp_attribution v) (dvp_entries v)) w s"

fun drain_rows :: "nat \<Rightarrow> ('u, 't) message_envelope retained list \<Rightarrow> ('u, 't) pass_row list" where
  "drain_rows dropped [] = []"
| "drain_rows dropped (r # rs) =
     \<lparr>pw_envelope = r_message r, pw_dropped = dropped, pw_retained_seq = r_seq r\<rparr> # drain_rows 0 rs"

definition drain_window ::
  "subscription_facts \<Rightarrow> 'u resume \<Rightarrow> ('u, 't) store_replay \<Rightarrow> ('u, 't) message_envelope retained list \<times> nat" where
  "drain_window facts cursor replay =
     (case sr_decision replay of
        Gap reason \<Rightarrow>
          (let (suffix, lost) = gap_suffix (sr_messages replay) (rs_seq cursor)
           in (suffix, if facts_push_enabled facts then lost else 0))
      | _ \<Rightarrow> (sr_messages replay, 0))"

definition drain_channel ::
  "('u, 'g) session_ctx \<Rightarrow> string \<Rightarrow> ('u, 't) attach_world \<Rightarrow> 'u session_state \<Rightarrow> ('u, 't) session_result" where
  "drain_channel cx ch w s =
     (case pos_of ch (ss_cursors s) of
        None \<Rightarrow> Panic
      | Some cursor \<Rightarrow>
     (case active_facts ch (ss_active s) of
        None \<Rightarrow> Panic
      | Some facts \<Rightarrow>
     exec_bind (store_for_address ch w) (\<lambda>replay_from.
       let replay = replay_from (Some cursor) (replay_clamp facts);
           (window, lost) = drain_window facts cursor replay
       in if window = [] then Ret (w, s, Continue)
          else if \<not> allows_channel_access (cx_policy cx) ch then Ret (w, s, Continue)
          else send_pass cx ch (drain_rows lost window) w s)))"

fun drain_list ::
  "('u, 'g) session_ctx \<Rightarrow> string list \<Rightarrow> ('u, 't) attach_world \<Rightarrow> 'u session_state \<Rightarrow> ('u, 't) session_result" where
  "drain_list cx [] w s = Ret (w, s, Continue)"
| "drain_list cx (ch # chs) w s = exec_bind (drain_channel cx ch w s) (\<lambda>(w, s, out).
     if out = Disconnect then Ret (w, s, Disconnect) else drain_list cx chs w s)"

definition drain_all ::
  "('u, 'g) session_ctx \<Rightarrow> ('u, 't) attach_world \<Rightarrow> 'u session_state \<Rightarrow> ('u, 't) session_result" where
  "drain_all cx w s = drain_list cx (active_names (ss_active s)) w s"

section \<open>Live rows\<close>

definition send_live_one ::
  "('u, 'g) session_ctx \<Rightarrow> ('u, 't) live_delivery \<Rightarrow> ('u, 't) attach_world \<Rightarrow> 'u session_state
   \<Rightarrow> ('u, 't) session_result" where
  "send_live_one cx d w s =
     (let ch = me_channel (ld_envelope d); retained_seq = ld_retained_seq d in
      if \<not> active_is ch (ss_active s) then Ret (w, s, Continue)
      else if \<not> allows_channel_access (cx_policy cx) ch then Ret (w, s, Continue)
      else (case pos_of ch (ss_cursors s) of
              None \<Rightarrow> Panic
            | Some cursor \<Rightarrow>
                if retained_seq \<le> rs_seq cursor then Ret (w, s, Continue)
                else if retained_seq = rs_seq cursor + 1
                then send_pass cx ch
                       [\<lparr>pw_envelope = ld_envelope d, pw_dropped = 0, pw_retained_seq = retained_seq\<rparr>] w s
                else drain_channel cx ch w s))"

fun send_live ::
  "('u, 'g) session_ctx \<Rightarrow> ('u, 't) live_delivery list \<Rightarrow> ('u, 't) attach_world \<Rightarrow> 'u session_state
   \<Rightarrow> ('u, 't) session_result" where
  "send_live cx [] w s = Ret (w, s, Continue)"
| "send_live cx (d # ds) w s = exec_bind (send_live_one cx d w s) (\<lambda>(w, s, out).
     if out = Disconnect then Ret (w, s, Disconnect) else send_live cx ds w s)"

fun live_of :: "('u, 't) session_push list \<Rightarrow> ('u, 't) live_delivery list" where
  "live_of [] = []"
| "live_of (PushLive d # ps) = d # live_of ps"
| "live_of (PushView v # ps) = live_of ps"

fun views_of :: "('u, 't) session_push list \<Rightarrow> 'u deferred_view_push list" where
  "views_of [] = []"
| "views_of (PushLive d # ps) = views_of ps"
| "views_of (PushView v # ps) = v # views_of ps"

fun send_views ::
  "'u deferred_view_push list \<Rightarrow> ('u, 't) attach_world \<Rightarrow> 'u session_state
   \<Rightarrow> ('u, 't) attach_world \<times> 'u session_state \<times> frame_outcome" where
  "send_views [] w s = (w, s, Continue)"
| "send_views (v # vs) w s =
     (case send_deferred_view v w s of
        (w, s, Disconnect) \<Rightarrow> (w, s, Disconnect)
      | (w, s, _) \<Rightarrow> send_views vs w s)"

definition send_session_pushes ::
  "('u, 'g) session_ctx \<Rightarrow> ('u, 't) session_push list \<Rightarrow> ('u, 't) attach_world \<Rightarrow> 'u session_state
   \<Rightarrow> ('u, 't) session_result" where
  "send_session_pushes cx pushes w s =
     exec_map (\<lambda>(w, s, out). if out = Disconnect then (w, s, Disconnect) else send_views (views_of pushes) w s)
       (send_live cx (live_of pushes) w s)"

section \<open>Subscribing and unsubscribing\<close>

definition charge_subscribe_token ::
  "('u, 'g) session_ctx \<Rightarrow> nat \<Rightarrow> token_bucket \<Rightarrow> (token_bucket \<times> (frame_outcome + unit)) exec" where
  "charge_subscribe_token cx now bucket = exec_map (\<lambda>(b, out).
     (b, case out of
           Denied _ \<Rightarrow> Inl (violation cx ''Subscribe/Unsubscribe rate exceeded'')
         | _ \<Rightarrow> Inr ())) (try_consume now bucket)"

definition handle_unsubscribe ::
  "('u, 'g) session_ctx \<Rightarrow> string \<Rightarrow> ('u, 't) attach_world \<Rightarrow> 'u session_state
   \<Rightarrow> ('u, 't) attach_world \<times> 'u session_state \<times> frame_outcome" where
  "handle_unsubscribe cx ch w s =
     (let (a, was_active) = deactivate ch (ss_active s); s = s\<lparr>ss_active := a\<rparr> in
      if was_active then (w, s\<lparr>ss_cursors := clear_span ch (ss_cursors s)\<rparr>, Continue)
      else (w, s, violation cx (''Unsubscribe of non-active subscription '' @ sanitize_client_detail cx ch)))"

definition parse_resume_cursor ::
  "('u, 'g) session_ctx \<Rightarrow> cursor_token \<Rightarrow> string \<Rightarrow> frame_outcome + 'u cursor_state" where
  "parse_resume_cursor cx cursor ch =
     (case cursor_parse (cx_json cx) cursor of
        Inl detail \<Rightarrow> Inl (violation cx (''unparseable resume cursor on '' @ sanitize_client_detail cx ch @ '': ''
          @ sanitize_client_detail cx detail))
      | Inr state \<Rightarrow>
          if cu_channel state \<noteq> ch
          then Inl (violation cx (''resume cursor minted for another channel, echoed on '' @ sanitize_client_detail cx ch))
          else Inr state)"

fun resume_answer :: "replay_decision \<Rightarrow> nat option \<Rightarrow> gap_info option \<times> nat" where
  "resume_answer Fresh echoed = (None, 0)"
| "resume_answer UpToDate echoed = (None, case echoed of Some q \<Rightarrow> q | None \<Rightarrow> 0)"
| "resume_answer Exact echoed = (None, case echoed of Some q \<Rightarrow> q | None \<Rightarrow> 0)"
| "resume_answer (Gap BeyondRetained) echoed = (Some \<lparr>gi_reason = WireBeyondRetained\<rparr>, 0)"
| "resume_answer (Gap EpochChanged) echoed = (Some \<lparr>gi_reason = WireEpochChanged\<rparr>, 0)"
| "resume_answer (Gap ResumeAhead) echoed = (Some \<lparr>gi_reason = WireEpochChanged\<rparr>, 0)"

definition ensure_runtime_entry ::
  "('u, 'g) session_ctx \<Rightarrow> 'u channel_entry \<Rightarrow> string \<Rightarrow> ('u, 't) attach_world \<Rightarrow> ('u, 't) attach_world" where
  "ensure_runtime_entry cx entry ch w =
     (case pf_runtime_entry (cx_profile cx) ch of
        None \<Rightarrow> w
      | Some minted \<Rightarrow>
          (let standing = rch_standing_retain_depth (ce_resolved_channel entry);
               minted = minted\<lparr>en_push_depth := narrowed_by (en_push_depth minted) standing,
                                en_retain_depth := narrowed_by (en_retain_depth minted) standing\<rparr>;
               unchanged = list_ex (\<lambda>existing. same_principal (en_kind existing) (en_kind minted)
                   \<and> en_push_depth existing = en_push_depth minted
                   \<and> en_retain_depth existing = en_retain_depth minted) (ce_subscribers entry)
           in if unchanged then w
              else w\<lparr>aw_directory := fst (add_subscriber (ce_uuid entry) minted (aw_directory w))\<rparr>))"

record subscribe_request =
  sq_channel :: string
  sq_push_depth :: nat
  sq_retain_depth :: nat
  sq_resume :: "cursor_token option"

text \<open>The checks a \<^verbatim>\<open>Subscribe\<close> passes before anything is opened: the clamped depths and the echoed cursor, or
  the violation.\<close>

definition admit_subscribe ::
  "('u, 'g) session_ctx \<Rightarrow> subscribe_request \<Rightarrow> active_channels
   \<Rightarrow> frame_outcome + (subscription_facts \<times> 'u cursor_state option)" where
  "admit_subscribe cx q a =
     (let ch = sq_channel q in
      case pf_subscribable (cx_profile cx) ch of
        None \<Rightarrow> Inl (violation cx (''Subscribe to unsubscribable channel '' @ sanitize_client_detail cx ch))
      | Some bound \<Rightarrow>
      if active_is ch a
      then Inl (violation cx (''duplicate Subscribe to active subscription '' @ sanitize_client_detail cx ch))
      else let cap = pf_max_active_subscriptions (cx_profile cx) in
      if cap \<le> active_len a
      then Inl (violation cx (''Subscribe beyond the '' @ decimal cap @ '' active-subscription cap''))
      else let facts = \<lparr>sf_push_depth = min (sq_push_depth q) (sf_push_depth bound),
                        sf_retain_depth = min (sq_retain_depth q) (sf_retain_depth bound)\<rparr> in
      if sf_push_depth facts = 0 \<and> sf_retain_depth facts = 0
      then Inl (violation cx (''Subscribe with neither a push nor a retain window on '' @ sanitize_client_detail cx ch))
      else (case sq_resume q of
              None \<Rightarrow> Inr (facts, None)
            | Some cursor \<Rightarrow>
                (case parse_resume_cursor cx cursor ch of
                   Inl outcome \<Rightarrow> Inl outcome
                 | Inr state \<Rightarrow> Inr (facts, Some state))))"

definition handle_subscribe ::
  "('u, 'g) session_ctx \<Rightarrow> subscribe_request \<Rightarrow> ('u, 't) attach_world \<Rightarrow> 'u session_state
   \<Rightarrow> ('u, 't) session_result" where
  "handle_subscribe cx q w s =
     (let ch = sq_channel q in
      case admit_subscribe cx q (ss_active s) of
        Inl outcome \<Rightarrow> Ret (w, s, outcome)
      | Inr (facts, echoed) \<Rightarrow>
     (case dir_resolve ch (aw_directory w) of
        None \<Rightarrow> Ret (send_frame (SubscribeResult ch SubscribeUnavailable 0 None) w s)
      | Some entry \<Rightarrow>
          (let s = s\<lparr>ss_active := activate ch facts (ss_active s)\<rparr>;
               w = ensure_runtime_entry cx entry ch w;
               stale = (case echoed of None \<Rightarrow> False | Some state \<Rightarrow> wc_incarnation (ss_cursors s) < cu_incarnation state);
               store_cursor = (case echoed of None \<Rightarrow> None | Some state \<Rightarrow> if stale then None else Some (cu_resume state));
               replay = aw_replay w (ce_uuid entry) store_cursor (replay_clamp facts);
               (gap, anchor) = resume_answer (sr_decision replay) (map_option rs_seq store_cursor);
               gap = (if stale then Some \<lparr>gi_reason = WireEpochChanged\<rparr> else gap);
               s = s\<lparr>ss_cursors := start_span ch (sr_epoch replay) anchor (ss_cursors s)\<rparr>;
               floor_ok = allows_channel_access (cx_policy cx) ch;
               window = sr_messages replay;
               replay_count = (if floor_ok then length window mod 2 ^ 32 else 0);
               (w, s, sent) = send_frame (SubscribeResult ch SubscribeOk replay_count gap) w s
           in if sent = Disconnect then Ret (w, s, Disconnect)
              else if \<not> floor_ok then Ret (w, s, Continue)
              else send_pass cx ch (drain_rows 0 window) w s)))"

end
