(* ===== verification/Budget_Gate.thy ===== *)
theory Budget_Gate
  imports Envelope
begin

text \<open>
  The publish budget of one activation, \<^verbatim>\<open>brenn-budget/src/lib.rs\<close>, \<^verbatim>\<open>gate.rs\<close> and
  \<^verbatim>\<open>refusal.rs\<close>: the saturating grant and seed arithmetic, the gate with its counters and
  per-sink buckets, and the classification of its refusals. The bound on representable release
  times is asked of the parameter \<open>from_ms\<close>, the \<^verbatim>\<open>chrono\<close> conversion behind
  \<open>utc_from_epoch_ms\<close>.
\<close>

section \<open>Budget arithmetic\<close>

definition millitokens_per_publish :: nat where "millitokens_per_publish = 1000"
definition max_publishes_per_activation :: nat where "max_publishes_per_activation = 256"
definition max_publish_bytes_per_activation :: nat where "max_publish_bytes_per_activation = 4 * 1024 * 1024"
definition max_publish_calls_per_activation :: nat where "max_publish_calls_per_activation = 512"

record sink_budget =
  sb_fill_mt :: nat
  sb_capacity_mt :: nat

definition grant_input_mt :: "(nat \<times> nat) list \<Rightarrow> nat" where
  "grant_input_mt ports = foldl sat_add64 0 (map (\<lambda>(amplification_mt, new_count). sat_mul64 amplification_mt new_count) ports)"

definition seed_sink_budget :: "nat \<Rightarrow> sink_budget \<Rightarrow> nat \<Rightarrow> nat" where
  "seed_sink_budget carry_mt budget grant_mt =
     sat_add64 (sat_add64 (min carry_mt (sb_capacity_mt budget)) (sb_fill_mt budget)) grant_mt"

section \<open>The gate\<close>

datatype gate_refusal =
    CallCap nat
  | BodyTooLarge nat nat
  | UnrepresentableDeliverAfter nat
  | SinkExhausted
  | EntryCap nat
  | ByteCap nat
  | OpCap nat

definition check_deliver_after :: "(int \<Rightarrow> 't option) \<Rightarrow> nat option \<Rightarrow> gate_refusal + unit" where
  "check_deliver_after from_ms deliver_after =
     (case deliver_after of
        Some ms \<Rightarrow> if utc_from_epoch_ms from_ms ms = None then Inl (UnrepresentableDeliverAfter ms) else Inr ()
      | None \<Rightarrow> Inr ())"

record 'k publish_check =
  pc_sink :: 'k
  pc_body_len :: nat
  pc_deliver_after :: "nat option"
  pc_entry_addend :: nat

record 'k activation_gate =
  ag_max_body_bytes :: nat
  ag_sinks :: "('k \<times> nat) list"
  ag_calls :: nat
  ag_entries :: nat
  ag_dropped :: nat
  ag_ops :: nat
  ag_bytes :: nat

definition gate_new :: "nat \<Rightarrow> ('k \<times> nat) list \<Rightarrow> 'k activation_gate" where
  "gate_new max_body_bytes sinks =
     \<lparr>ag_max_body_bytes = max_body_bytes, ag_sinks = sinks, ag_calls = 0, ag_entries = 0,
      ag_dropped = 0, ag_ops = 0, ag_bytes = 0\<rparr>"

definition charge_call :: "'k activation_gate \<Rightarrow> 'k activation_gate \<times> (gate_refusal + unit)" where
  "charge_call g =
     (let g = g\<lparr>ag_calls := ag_calls g + 1\<rparr>
      in if ag_calls g > max_publish_calls_per_activation
         then (g, Inl (CallCap max_publish_calls_per_activation))
         else (g, Inr ()))"

definition admit_publish ::
  "(int \<Rightarrow> 't option) \<Rightarrow> 'k publish_check \<Rightarrow> 'k activation_gate \<Rightarrow>
     ('k activation_gate \<times> (gate_refusal + unit)) exec" where
  "admit_publish from_ms check g =
     (if pc_body_len check > ag_max_body_bytes g
      then Ret (g, Inl (BodyTooLarge (pc_body_len check) (ag_max_body_bytes g)))
      else case check_deliver_after from_ms (pc_deliver_after check) of
        Inl e \<Rightarrow> Ret (g, Inl e)
      | Inr _ \<Rightarrow>
         (case map_of (ag_sinks g) (pc_sink check) of
            None \<Rightarrow> Panic
          | Some remaining \<Rightarrow>
              if remaining < millitokens_per_publish then Ret (g, Inl SinkExhausted)
              else if ag_entries g + pc_entry_addend check \<ge> max_publishes_per_activation
              then Ret (g, Inl (EntryCap max_publishes_per_activation))
              else if ag_bytes g + pc_body_len check > max_publish_bytes_per_activation
              then Ret (g, Inl (ByteCap max_publish_bytes_per_activation))
              else Ret (g\<lparr>ag_sinks := AList.update (pc_sink check) (remaining - millitokens_per_publish) (ag_sinks g),
                          ag_bytes := ag_bytes g + pc_body_len check,
                          ag_entries := ag_entries g + 1\<rparr>, Inr ())))"

definition admit_publish_without_sink ::
  "(int \<Rightarrow> 't option) \<Rightarrow> nat \<Rightarrow> nat option \<Rightarrow> nat \<Rightarrow> 'k activation_gate \<Rightarrow>
     'k activation_gate \<times> (gate_refusal + unit)" where
  "admit_publish_without_sink from_ms body_len deliver_after entry_addend g =
     (if body_len > ag_max_body_bytes g
      then (g, Inl (BodyTooLarge body_len (ag_max_body_bytes g)))
      else case check_deliver_after from_ms deliver_after of
        Inl e \<Rightarrow> (g, Inl e)
      | Inr _ \<Rightarrow>
          if ag_entries g + entry_addend \<ge> max_publishes_per_activation
          then (g, Inl (EntryCap max_publishes_per_activation))
          else if ag_bytes g + body_len > max_publish_bytes_per_activation
          then (g, Inl (ByteCap max_publish_bytes_per_activation))
          else (g\<lparr>ag_bytes := ag_bytes g + body_len, ag_entries := ag_entries g + 1,
                  ag_dropped := ag_dropped g + 1\<rparr>, Inr ()))"

definition entries_at_ceiling :: "nat \<Rightarrow> 'k activation_gate \<Rightarrow> bool" where
  "entries_at_ceiling addend g \<longleftrightarrow> ag_entries g + addend \<ge> max_publishes_per_activation"

definition admit_op :: "nat option \<Rightarrow> 'k activation_gate \<Rightarrow> 'k activation_gate \<times> (gate_refusal + unit)" where
  "admit_op edit_body_len g =
     (if ag_ops g \<ge> max_publishes_per_activation then (g, Inl (OpCap max_publishes_per_activation))
      else case edit_body_len of
        Some len \<Rightarrow>
          if len > ag_max_body_bytes g then (g, Inl (BodyTooLarge len (ag_max_body_bytes g)))
          else if ag_bytes g + len > max_publish_bytes_per_activation
          then (g, Inl (ByteCap max_publish_bytes_per_activation))
          else (g\<lparr>ag_bytes := ag_bytes g + len, ag_ops := ag_ops g + 1\<rparr>, Inr ())
      | None \<Rightarrow> (g\<lparr>ag_ops := ag_ops g + 1\<rparr>, Inr ()))"

definition charge_sink_on_attempt ::
  "'k \<Rightarrow> 'k activation_gate \<Rightarrow> 'k activation_gate \<times> (gate_refusal + unit)" where
  "charge_sink_on_attempt sink g =
     (case map_of (ag_sinks g) sink of
        None \<Rightarrow> (g, Inr ())
      | Some remaining \<Rightarrow>
          if remaining < millitokens_per_publish then (g, Inl SinkExhausted)
          else (g\<lparr>ag_sinks := AList.update sink (remaining - millitokens_per_publish) (ag_sinks g)\<rparr>, Inr ()))"

section \<open>What a guest is told\<close>

datatype payload_fault = FaultBodyTooLarge nat nat | FaultUnrepresentableDeliverAfter nat

datatype publish_refusal_kind = InvalidPayload payload_fault | PublishQuotaExceeded

datatype defer_refusal_kind = InvalidDeliverAfter | DeferQuotaExceeded

fun publish_refusal_kind_of :: "gate_refusal \<Rightarrow> publish_refusal_kind" where
  "publish_refusal_kind_of (BodyTooLarge len mx) = InvalidPayload (FaultBodyTooLarge len mx)"
| "publish_refusal_kind_of (UnrepresentableDeliverAfter ms) =
     InvalidPayload (FaultUnrepresentableDeliverAfter ms)"
| "publish_refusal_kind_of (CallCap _) = PublishQuotaExceeded"
| "publish_refusal_kind_of SinkExhausted = PublishQuotaExceeded"
| "publish_refusal_kind_of (EntryCap _) = PublishQuotaExceeded"
| "publish_refusal_kind_of (ByteCap _) = PublishQuotaExceeded"
| "publish_refusal_kind_of (OpCap _) = PublishQuotaExceeded"

fun defer_refusal_kind_of :: "gate_refusal \<Rightarrow> defer_refusal_kind" where
  "defer_refusal_kind_of (UnrepresentableDeliverAfter _) = InvalidDeliverAfter"
| "defer_refusal_kind_of (CallCap _) = DeferQuotaExceeded"
| "defer_refusal_kind_of (BodyTooLarge _ _) = DeferQuotaExceeded"
| "defer_refusal_kind_of SinkExhausted = DeferQuotaExceeded"
| "defer_refusal_kind_of (EntryCap _) = DeferQuotaExceeded"
| "defer_refusal_kind_of (ByteCap _) = DeferQuotaExceeded"
| "defer_refusal_kind_of (OpCap _) = DeferQuotaExceeded"

section \<open>A gate driven by its host\<close>

text \<open>The calls a host makes on one activation's gate. The verdict of each is the output.\<close>

datatype 'k gate_call =
    GCharge
  | GPublish "'k publish_check"
  | GSinkless nat "nat option" nat
  | GOp "nat option"
  | GAttempt 'k

fun gate_step ::
  "(int \<Rightarrow> 't option) \<Rightarrow> 'k activation_gate \<Rightarrow> 'k gate_call \<Rightarrow>
     ('k activation_gate \<times> 'k gate_call \<times> (gate_refusal + unit)) exec" where
  "gate_step from_ms g GCharge = Ret (map_prod id (Pair GCharge) (charge_call g))"
| "gate_step from_ms g (GPublish c) = exec_map (map_prod id (Pair (GPublish c))) (admit_publish from_ms c g)"
| "gate_step from_ms g (GSinkless n d a) =
     Ret (map_prod id (Pair (GSinkless n d a)) (admit_publish_without_sink from_ms n d a g))"
| "gate_step from_ms g (GOp b) = Ret (map_prod id (Pair (GOp b)) (admit_op b g))"
| "gate_step from_ms g (GAttempt k) = Ret (map_prod id (Pair (GAttempt k)) (charge_sink_on_attempt k g))"

text \<open>A host only admits a publish for a sink it seeded.\<close>

fun gate_legal :: "'k activation_gate \<Rightarrow> 'k gate_call \<Rightarrow> bool" where
  "gate_legal g (GPublish c) \<longleftrightarrow> pc_sink c \<in> fst ` set (ag_sinks g)"
| "gate_legal g _ \<longleftrightarrow> True"

definition gate_wf :: "'k activation_gate \<Rightarrow> bool" where
  "gate_wf g \<longleftrightarrow> hm_ok (ag_sinks g) \<and> ag_entries g \<le> max_publishes_per_activation \<and>
     ag_ops g \<le> max_publishes_per_activation \<and> ag_bytes g \<le> max_publish_bytes_per_activation \<and>
     ag_dropped g \<le> ag_entries g"

text \<open>What an accepted call costs: body bytes, a buffered entry, an op, tokens of one sink.\<close>

fun call_bytes :: "'k gate_call \<times> (gate_refusal + unit) \<Rightarrow> nat" where
  "call_bytes (GPublish c, Inr ()) = pc_body_len c"
| "call_bytes (GSinkless n d a, Inr ()) = n"
| "call_bytes (GOp (Some n), Inr ()) = n"
| "call_bytes _ = 0"

fun call_entry :: "'k gate_call \<times> (gate_refusal + unit) \<Rightarrow> nat" where
  "call_entry (GPublish c, Inr ()) = 1"
| "call_entry (GSinkless n d a, Inr ()) = 1"
| "call_entry _ = 0"

fun call_op :: "'k gate_call \<times> (gate_refusal + unit) \<Rightarrow> nat" where
  "call_op (GOp b, Inr ()) = 1"
| "call_op _ = 0"

fun call_paid :: "'k \<Rightarrow> 'k gate_call \<times> (gate_refusal + unit) \<Rightarrow> nat" where
  "call_paid k (GPublish c, Inr ()) = (if pc_sink c = k then 1 else 0)"
| "call_paid k (GAttempt k', Inr ()) = (if k' = k then 1 else 0)"
| "call_paid k _ = 0"

fun call_charged :: "'k gate_call \<times> (gate_refusal + unit) \<Rightarrow> nat" where
  "call_charged (GCharge, _) = 1"
| "call_charged _ = 0"

section \<open>One call\<close>

lemma keys_update: "k \<in> fst ` set m \<Longrightarrow> fst ` set (AList.update k v m) = fst ` set m"
  by (simp add: dom_update insert_absorb flip: dom_map_of_conv_image_fst)
    (auto simp: dom_map_of_conv_image_fst update_conv')

lemma map_of_key: "map_of m k = Some v \<Longrightarrow> k \<in> fst ` set m"
  by (metis domI dom_map_of_conv_image_fst)

text \<open>The ledger entry a call leaves.\<close>

definition ledger :: "'k activation_gate \<Rightarrow> 'k gate_call \<times> (gate_refusal + unit) \<Rightarrow> 'k activation_gate \<Rightarrow> bool" where
  "ledger g out g' \<longleftrightarrow>
     fst ` set (ag_sinks g') = fst ` set (ag_sinks g) \<and>
     ag_max_body_bytes g' = ag_max_body_bytes g \<and>
     ag_calls g' = ag_calls g + call_charged out \<and>
     ag_entries g' = ag_entries g + call_entry out \<and>
     ag_ops g' = ag_ops g + call_op out \<and>
     ag_bytes g' = ag_bytes g + call_bytes out \<and>
     (\<forall>k r. map_of (ag_sinks g) k = Some r \<longrightarrow>
        (\<exists>r'. map_of (ag_sinks g') k = Some r' \<and> r = r' + millitokens_per_publish * call_paid k out))"

lemma ledger_charge: "ledger g (GCharge, v) (fst (charge_call g))"
  by (simp add: ledger_def charge_call_def Let_def)

lemma ledger_pay:
  assumes "map_of (ag_sinks g) k = Some r" and "\<not> r < millitokens_per_publish"
    and "\<And>k'. call_paid k' out = (if k = k' then 1 else 0)"
  shows "fst ` set (AList.update k (r - millitokens_per_publish) (ag_sinks g)) = fst ` set (ag_sinks g)"
    and "\<forall>k' q. map_of (ag_sinks g) k' = Some q \<longrightarrow>
        (\<exists>q'. map_of (AList.update k (r - millitokens_per_publish) (ag_sinks g)) k' = Some q' \<and>
              q = q' + millitokens_per_publish * call_paid k' out)"
  using assms keys_update [OF map_of_key [OF assms(1)]] by (simp_all add: hm.get_put)

lemma ledger_publish:
  assumes "admit_publish from_ms c g = Ret (g', v)"
  shows "ledger g (GPublish c, v) g'"
proof (cases v)
  case (Inl e)
  then have "g' = g" using assms by (auto simp: admit_publish_def split: if_splits sum.splits option.splits)
  then show ?thesis using Inl by (simp add: ledger_def)
next
  case (Inr u)
  then obtain r where r: "map_of (ag_sinks g) (pc_sink c) = Some r" "\<not> r < millitokens_per_publish"
    and g': "g' = g\<lparr>ag_sinks := AList.update (pc_sink c) (r - millitokens_per_publish) (ag_sinks g),
                     ag_bytes := ag_bytes g + pc_body_len c, ag_entries := ag_entries g + 1\<rparr>"
    using assms by (auto simp: admit_publish_def split: if_splits sum.splits option.splits)
  show ?thesis using Inr ledger_pay [OF r, of "(GPublish c, v)"] unfolding g' by (simp add: ledger_def)
qed

lemma ledger_sinkless: "ledger g (GSinkless n d a, snd (admit_publish_without_sink from_ms n d a g))
    (fst (admit_publish_without_sink from_ms n d a g))"
  by (auto simp: ledger_def admit_publish_without_sink_def split: if_splits sum.splits)

lemma ledger_op: "ledger g (GOp b, snd (admit_op b g)) (fst (admit_op b g))"
  by (auto simp: ledger_def admit_op_def split: if_splits option.splits)

lemma ledger_attempt: "ledger g (GAttempt k, snd (charge_sink_on_attempt k g)) (fst (charge_sink_on_attempt k g))"
proof (cases "map_of (ag_sinks g) k")
  case None
  then show ?thesis by (auto simp: ledger_def charge_sink_on_attempt_def)
next
  case (Some r)
  show ?thesis
  proof (cases "r < millitokens_per_publish")
    case True
    then show ?thesis using Some by (simp add: ledger_def charge_sink_on_attempt_def)
  next
    case False
    then show ?thesis using Some ledger_pay [OF Some False, of "(GAttempt k, Inr ())"]
      by (simp add: ledger_def charge_sink_on_attempt_def)
  qed
qed

lemma gate_step_ledger:
  assumes "gate_step from_ms g call = Ret (g', out)"
  shows "fst out = call \<and> ledger g out g'"
  using assms ledger_charge [of g] ledger_publish [of from_ms _ g] ledger_sinkless [of g _ _ _ from_ms]
    ledger_op [of g] ledger_attempt [of g]
  by (cases call) (auto simp: exec_map_Ret_iff map_prod_def split_beta)

lemma gate_wf_step:
  assumes "gate_wf g" and "gate_step from_ms g call = Ret (g', out)"
  shows "gate_wf g'"
proof (cases call)
  case GCharge
  then show ?thesis using assms by (auto simp: gate_wf_def charge_call_def Let_def split: if_splits)
next
  case (GPublish c)
  then show ?thesis using assms
    by (auto simp: gate_wf_def admit_publish_def exec_map_Ret_iff hm.ok_put
        split: if_splits sum.splits option.splits)
next
  case (GSinkless n d a)
  then show ?thesis using assms
    by (auto simp: gate_wf_def admit_publish_without_sink_def split: if_splits sum.splits)
next
  case (GOp b)
  then show ?thesis using assms by (auto simp: gate_wf_def admit_op_def split: if_splits option.splits)
next
  case (GAttempt k)
  then show ?thesis using assms
    by (auto simp: gate_wf_def charge_sink_on_attempt_def hm.ok_put split: if_splits option.splits)
qed

lemma gate_step_returns: "gate_legal g call \<Longrightarrow> returns (gate_step from_ms g call)"
proof (cases call)
  case (GPublish c)
  assume "gate_legal g call"
  then have "map_of (ag_sinks g) (pc_sink c) \<noteq> None" using GPublish by (simp add: map_of_eq_None_iff)
  then show ?thesis using GPublish by (auto simp: admit_publish_def split: sum.splits option.splits)
qed simp_all

interpretation gate_sys: contract_system "gate_step from_ms" gate_wf gate_legal
proof
  fix g :: "'k activation_gate" and call
  assume wf: "gate_wf g" and "gate_legal g call"
  then obtain g' out where st: "gate_step from_ms g call = Ret (g', out)"
    by (metis gate_step_returns returnsE surj_pair)
  then show "\<exists>g' out. gate_step from_ms g call = Ret (g', out) \<and> gate_wf g'"
    using gate_wf_step [OF wf st] by blast
qed

lemma legal_keys:
  "fst ` set (ag_sinks g') = fst ` set (ag_sinks g) \<Longrightarrow> gate_legal g' call = gate_legal g call"
  by (cases call) auto

text \<open>Ledgers of a run add up.\<close>

lemma gate_run_ledger:
  assumes "gate_wf g" and "list_all (gate_legal g) calls"
  shows "\<exists>g' outs. run (gate_step from_ms) g calls = Ret (g', outs) \<and> gate_wf g' \<and> map fst outs = calls \<and>
     ag_calls g' = ag_calls g + (\<Sum>out\<leftarrow>outs. call_charged out) \<and>
     ag_entries g' = ag_entries g + (\<Sum>out\<leftarrow>outs. call_entry out) \<and>
     ag_ops g' = ag_ops g + (\<Sum>out\<leftarrow>outs. call_op out) \<and>
     ag_bytes g' = ag_bytes g + (\<Sum>out\<leftarrow>outs. call_bytes out) \<and>
     (\<forall>k r. map_of (ag_sinks g) k = Some r \<longrightarrow>
        (\<exists>r'. map_of (ag_sinks g') k = Some r' \<and>
              r = r' + millitokens_per_publish * (\<Sum>out\<leftarrow>outs. call_paid k out)))"
  using assms
proof (induction calls arbitrary: g)
  case (Cons call calls)
  have "gate_legal g call" using Cons.prems(2) by simp
  then obtain g1 out where st: "gate_step from_ms g call = Ret (g1, out)"
    by (metis gate_step_returns returnsE surj_pair)
  note l = gate_step_ledger [OF st, unfolded ledger_def]
  have keys: "fst ` set (ag_sinks g1) = fst ` set (ag_sinks g)" using l by blast
  have "list_all (gate_legal g1) calls"
    using Cons.prems(2) legal_keys [OF keys] by (simp add: list_all_iff)
  from Cons.IH [OF gate_wf_step [OF Cons.prems(1) st] this] obtain g2 outs where
    r: "run (gate_step from_ms) g1 calls = Ret (g2, outs)" "gate_wf g2" "map fst outs = calls"
      "ag_calls g2 = ag_calls g1 + (\<Sum>out\<leftarrow>outs. call_charged out)"
      "ag_entries g2 = ag_entries g1 + (\<Sum>out\<leftarrow>outs. call_entry out)"
      "ag_ops g2 = ag_ops g1 + (\<Sum>out\<leftarrow>outs. call_op out)"
      "ag_bytes g2 = ag_bytes g1 + (\<Sum>out\<leftarrow>outs. call_bytes out)"
    and s: "\<forall>k r. map_of (ag_sinks g1) k = Some r \<longrightarrow>
        (\<exists>r'. map_of (ag_sinks g2) k = Some r' \<and>
              r = r' + millitokens_per_publish * (\<Sum>out\<leftarrow>outs. call_paid k out))" by blast
  have "\<forall>k r. map_of (ag_sinks g) k = Some r \<longrightarrow>
        (\<exists>r'. map_of (ag_sinks g2) k = Some r' \<and>
              r = r' + millitokens_per_publish * (\<Sum>out\<leftarrow>out # outs. call_paid k out))"
  proof (intro allI impI)
    fix k q assume "map_of (ag_sinks g) k = Some q"
    then obtain q1 where "map_of (ag_sinks g1) k = Some q1" "q = q1 + millitokens_per_publish * call_paid k out"
      using l by blast
    then show "\<exists>r'. map_of (ag_sinks g2) k = Some r' \<and>
              q = r' + millitokens_per_publish * (\<Sum>out\<leftarrow>out # outs. call_paid k out)"
      using s by (fastforce simp: algebra_simps)
  qed
  then show ?case using st r l by (auto simp: exec_map_Ret_iff)
qed simp

section \<open>Properties\<close>



text \<open>Agreement on everything a guest can observe through the gate's verdicts.\<close>

definition gates_agree :: "'k activation_gate \<Rightarrow> 'k activation_gate \<Rightarrow> bool" where
  "gates_agree g h \<longleftrightarrow> ag_max_body_bytes g = ag_max_body_bytes h \<and> ag_calls g = ag_calls h \<and>
     ag_entries g = ag_entries h \<and> ag_ops g = ag_ops h \<and> ag_bytes g = ag_bytes h"

text \<open>A guest cannot read its wiring off the gate. Two gates that agree on everything but their
  buckets and their count of dropped publishes are given the same publish, one through a wired port
  whose bucket can pay, the other through an unwired port: the verdicts are the same on every branch,
  and the gates still agree afterwards.\<close>

lemma sinkless_indistinguishable:
  assumes "gates_agree g h" and "map_of (ag_sinks g) (pc_sink c) = Some r" and "1000 \<le> r"
  shows "\<exists>g' v. admit_publish from_ms c g = Ret (g', v) \<and>
     snd (admit_publish_without_sink from_ms (pc_body_len c) (pc_deliver_after c) (pc_entry_addend c) h) = v \<and>
     gates_agree g' (fst (admit_publish_without_sink from_ms (pc_body_len c) (pc_deliver_after c) (pc_entry_addend c) h))"
  using assms
  by (auto simp: gates_agree_def admit_publish_def admit_publish_without_sink_def millitokens_per_publish_def
      split: sum.splits)

lemma sinkless_indistinguishable_example:
  "let g = gate_new 10 [(''p'', 1500)]; h = (gate_new 10 [] :: string activation_gate);
       c = \<lparr>pc_sink = ''p'', pc_body_len = 30, pc_deliver_after = None, pc_entry_addend = 0\<rparr>
   in \<exists>g' v. admit_publish (\<lambda>_. Some ()) c g = Ret (g', v) \<and>
        snd (admit_publish_without_sink (\<lambda>_. Some ()) 30 None 0 h) = v"
  unfolding Let_def using sinkless_indistinguishable [of "gate_new 10 [(''p'', 1500)]" "gate_new 10 []"
      "\<lparr>pc_sink = ''p'', pc_body_len = 30, pc_deliver_after = None, pc_entry_addend = 0\<rparr>" 1500 "\<lambda>_. Some ()"]
  by (auto simp: gates_agree_def gate_new_def)

lemma foldl_sat_add: "a \<le> u64_max \<Longrightarrow> foldl sat_add64 a xs = min (a + sum_list xs) u64_max"
proof (induction xs arbitrary: a)
  case (Cons x xs)
  have "foldl sat_add64 (sat_add64 a x) xs = min (sat_add64 a x + sum_list xs) u64_max"
    by (rule Cons.IH) (rule sat_add64_bound)
  moreover have "min (sat_add64 a x + sum_list xs) u64_max = min (a + (x + sum_list xs)) u64_max"
    by (simp add: sat_add64_def min_def)
  ultimately show ?case by simp
qed simp

lemma min_sum_min: "min (\<Sum>x\<leftarrow>xs. min (f x) M) M = min (\<Sum>x\<leftarrow>xs. f x) (M::nat)"
proof (induction xs)
  case (Cons x xs)
  show ?case
  proof (cases "f x \<le> M \<and> (\<Sum>x\<leftarrow>xs. f x) \<le> M")
    case True
    then have "(\<Sum>x\<leftarrow>xs. min (f x) M) = (\<Sum>x\<leftarrow>xs. f x) \<or> M \<le> (\<Sum>x\<leftarrow>xs. min (f x) M)"
      using Cons.IH by (auto simp: min_def split: if_splits)
    moreover have "(\<Sum>x\<leftarrow>xs. min (f x) M) \<le> (\<Sum>x\<leftarrow>xs. f x)" by (rule sum_list_mono) simp
    ultimately show ?thesis using True by (auto simp: min_def)
  next
    case False
    then have "M \<le> min (f x) M + (\<Sum>x\<leftarrow>xs. min (f x) M)"
      using Cons.IH by (auto simp: min_def split: if_splits)
    moreover have "M \<le> f x + (\<Sum>x\<leftarrow>xs. f x)" using False by auto
    ultimately show ?thesis by simp
  qed
qed simp

lemma grant_exact: "grant_input_mt ports = min (\<Sum>(a, n)\<leftarrow>ports. a * n) u64_max"
proof -
  have "grant_input_mt ports = min (\<Sum>x\<leftarrow>ports. min (fst x * snd x) u64_max) u64_max"
    unfolding grant_input_mt_def split_beta sat_mul64_def
    by (subst foldl_sat_add) simp_all
  then show ?thesis by (simp add: min_sum_min case_prod_beta')
qed

text \<open>Saturating step by step loses nothing: the input grant is the exact sum over the ports of
  amplification times new messages, clamped once to the largest \<^verbatim>\<open>u64\<close>, and a sink's seed is the
  exact sum of the clamped carryover, the fill and the grant, clamped once; an idle component
  therefore never starts an activation with more than its capacity plus one fill plus its grant.\<close>

lemma seed_arithmetic_exact:
  "grant_input_mt ports = min (\<Sum>(a, n)\<leftarrow>ports. a * n) u64_max \<and>
   seed_sink_budget carry budget grant =
     min (min carry (sb_capacity_mt budget) + sb_fill_mt budget + grant) u64_max \<and>
   seed_sink_budget carry budget grant \<le> sb_capacity_mt budget + sb_fill_mt budget + grant"
  using grant_exact by (auto simp: seed_sink_budget_def sat_add64_def)

text \<open>One sink over a series of activations: each seeds its bucket from what the previous one
  left, runs its calls, and hands the remainder on.\<close>

fun activation_series ::
  "(int \<Rightarrow> 't option) \<Rightarrow> nat \<Rightarrow> sink_budget \<Rightarrow> 'k \<Rightarrow> nat \<Rightarrow> (nat \<times> 'k gate_call list) list \<Rightarrow> (nat \<times> nat) exec" where
  "activation_series from_ms b budget k carry [] = Ret (carry, 0)"
| "activation_series from_ms b budget k carry ((grant, calls) # rest) =
     (case run (gate_step from_ms) (gate_new b [(k, seed_sink_budget carry budget grant)]) calls of
        Panic \<Rightarrow> Panic
      | Ret (g, outs) \<Rightarrow>
          (case map_of (ag_sinks g) k of
             None \<Rightarrow> Panic
           | Some left \<Rightarrow> exec_map (\<lambda>(carry', paid). (carry', (\<Sum>out\<leftarrow>outs. call_paid k out) + paid))
                           (activation_series from_ms b budget k left rest)))"

lemma activation_run:
  assumes "\<forall>c. GPublish c \<in> set calls \<longrightarrow> pc_sink c = k"
  obtains g outs left where "run (gate_step from_ms) (gate_new b [(k, r)]) calls = Ret (g, outs)"
    "map_of (ag_sinks g) k = Some left" "r = left + 1000 * (\<Sum>out\<leftarrow>outs. call_paid k out)"
proof -
  have wf: "gate_wf (gate_new b [(k, r)])" by (simp add: gate_wf_def gate_new_def hm_ok_def)
  have "list_all (gate_legal (gate_new b [(k, r)])) calls"
    unfolding list_all_iff
  proof
    fix call assume "call \<in> set calls"
    then have "\<And>c. call = GPublish c \<Longrightarrow> pc_sink c = k" using assms by blast
    then show "gate_legal (gate_new b [(k, r)]) call"
      by (cases call rule: gate_call.exhaust) (auto simp: gate_new_def)
  qed
  from gate_run_ledger [OF wf this, of from_ms] obtain g outs where
    g: "run (gate_step from_ms) (gate_new b [(k, r)]) calls = Ret (g, outs)" and
    s: "\<forall>k' q. map_of (ag_sinks (gate_new b [(k, r)])) k' = Some q \<longrightarrow>
        (\<exists>q'. map_of (ag_sinks g) k' = Some q' \<and>
              q = q' + millitokens_per_publish * (\<Sum>out\<leftarrow>outs. call_paid k' out))" by blast
  from s [rule_format, of k r] obtain left where "map_of (ag_sinks g) k = Some left"
    "r = left + 1000 * (\<Sum>out\<leftarrow>outs. call_paid k out)"
    by (auto simp: gate_new_def millitokens_per_publish_def)
  then show thesis by (rule that [OF g])
qed

text \<open>C31. The long-run rate of a sink is bounded. Over any series of activations the series runs to
  its end, and the publishes one sink paid for, at 1000 millitokens each, together with what is left,
  never exceed the first carryover plus one fill and one input grant per activation.\<close>

theorem sink_rate_bounded:
  assumes "\<forall>(grant, calls)\<in>set acts. \<forall>c. GPublish c \<in> set calls \<longrightarrow> pc_sink c = k"
  shows "\<exists>carry' paid. activation_series from_ms b budget k carry acts = Ret (carry', paid) \<and>
     1000 * paid + carry' \<le> carry + (\<Sum>(grant, calls)\<leftarrow>acts. sb_fill_mt budget + grant)"
  using assms
proof (induction acts arbitrary: carry)
  case (Cons act acts)
  obtain grant calls where act: "act = (grant, calls)" by (cases act)
  let ?seed = "seed_sink_budget carry budget grant"
  have "\<forall>c. GPublish c \<in> set calls \<longrightarrow> pc_sink c = k" using Cons.prems act by simp
  from activation_run [OF this, of from_ms b ?seed] obtain g outs left where
    r: "run (gate_step from_ms) (gate_new b [(k, ?seed)]) calls = Ret (g, outs)"
      "map_of (ag_sinks g) k = Some left" "?seed = left + 1000 * (\<Sum>out\<leftarrow>outs. call_paid k out)" .
  from Cons.IH [of left] Cons.prems obtain carry' paid where
    s: "activation_series from_ms b budget k left acts = Ret (carry', paid)"
      "1000 * paid + carry' \<le> left + (\<Sum>(grant, calls)\<leftarrow>acts. sb_fill_mt budget + grant)" by auto
  have "?seed \<le> carry + sb_fill_mt budget + grant" by (simp add: seed_sink_budget_def sat_add64_def)
  then show ?case using r s act by (simp add: algebra_simps)
qed simp

theorem sink_rate_bounded_witness:
  "\<exists>carry' paid. activation_series (\<lambda>_. Some ()) 10 \<lparr>sb_fill_mt = 500, sb_capacity_mt = 2000\<rparr> ''p'' 0
       [(500, [GAttempt ''p'']), (0, [GAttempt ''p''])] = Ret (carry', paid) \<and>
     1000 * paid + carry' \<le> 0 + (\<Sum>(grant, calls)\<leftarrow>[(500, [GAttempt ''p'']), (0, [GAttempt ''p''])].
        sb_fill_mt \<lparr>sb_fill_mt = 500, sb_capacity_mt = 2000\<rparr> + grant)"
  by (rule sink_rate_bounded) simp

end
