(* ===== verification/Attach_Publish.thy ===== *)
theory Attach_Publish
  imports Attach_Session Budget_Gate
begin

text \<open>
  The publish and alert planes of an attach session and the dispatch of an inbound frame, from
  \<^verbatim>\<open>attach/server/src/publish.rs\<close> and \<^verbatim>\<open>attach/server/src/session.rs\<close>. Calls into the bus are logged in
  the world; the parser of client frames and the sanitizer of alert text, which are other crates',
  are parameters. The \<^verbatim>\<open>k\<close>-th reading of the wall clock while a frame is handled is \<open>clk k\<close>.

  Here are the definitions; that the handlers keep a session's books is shown in \<open>Session_Books\<close>, and what they
  place on the bus and what they refuse in \<open>Publish_Plane\<close>.
\<close>

section \<open>Admission\<close>

definition body_too_large_violation_threshold :: nat where
  "body_too_large_violation_threshold = 8"

record publish_request =
  pq_channel :: string
  pq_attribution :: "string option"
  pq_body :: string
  pq_urgency :: urgency
  pq_correlation :: "nat option"

definition admit_attribution_or_violate ::
  "('u, 'g) session_ctx \<Rightarrow> string option \<Rightarrow> string \<Rightarrow> frame_outcome + participant_id" where
  "admit_attribution_or_violate cx attribution frame =
     (case pf_admit_attribution (cx_profile cx) attribution of
        Some who \<Rightarrow> Inr who
      | None \<Rightarrow> Inl (violation cx (frame @ '' under undeclared attribution ''
          @ sanitize_client_detail cx (case attribution of Some a \<Rightarrow> a | None \<Rightarrow> ''''))))"

definition assert_publishable ::
  "('u, 'g) session_ctx \<Rightarrow> string option \<Rightarrow> string \<Rightarrow> string \<Rightarrow> (frame_outcome + unit) exec" where
  "assert_publishable cx attribution ch what =
     (if \<not> pf_publishable (cx_profile cx) attribution ch
      then Ret (Inl (violation cx (what @ '' names unpublishable channel '' @ sanitize_client_detail cx ch)))
      else if is_local_channel ch then Panic
      else if (case scheme_of ch of None \<Rightarrow> False | Some scheme \<Rightarrow> well_formed_name ch scheme \<noteq> None)
      then Ret (Inr ())
      else Ret (Inl (violation cx (what @ '' names malformed channel '' @ sanitize_client_detail cx ch))))"

definition call_bus :: "('u, 't) bus_call \<Rightarrow> ('u, 't) attach_world \<Rightarrow> ('u, 't) attach_world" where
  "call_bus c w = w\<lparr>aw_calls := aw_calls w @ [c]\<rparr>"

section \<open>A single publish\<close>

definition map_counters :: "(session_counters \<Rightarrow> session_counters) \<Rightarrow> 'u session_state \<Rightarrow> 'u session_state" where
  "map_counters f s = s\<lparr>ss_counters := f (ss_counters s)\<rparr>"

definition settle_publish ::
  "('u, 'g) session_ctx \<Rightarrow> string option \<Rightarrow> publish_posture \<Rightarrow> publish_result \<Rightarrow> session_counters
   \<Rightarrow> (session_counters \<times> publish_outcome) exec" where
  "settle_publish cx attribution posture result c =
     (case result of
        PrOk \<Rightarrow> Ret (count_publish_ok attribution c, PublishOk)
      | PrBodyTooLarge len limit \<Rightarrow>
          Ret (c\<lparr>ct_publish_body_cap_disagreement := ct_publish_body_cap_disagreement c + 1\<rparr>, PublishBodyTooLarge len limit)
      | PrBudgetExhausted \<Rightarrow> Ret (count_rate_limited attribution c, PublishRateLimited)
      | PrRateLimited \<Rightarrow> Ret (count_rate_limited attribution c, PublishRateLimited)
      | _ \<Rightarrow> (case posture of PostureDiagnostic \<Rightarrow> Ret (c, PublishFailed) | PostureInvariant \<Rightarrow> Panic))"

definition handle_publish ::
  "('u, 'g) session_ctx \<Rightarrow> nat \<Rightarrow> publish_request \<Rightarrow> ('u, 't) attach_world \<Rightarrow> 'u session_state
   \<Rightarrow> ('u, 't) session_result" where
  "handle_publish cx now q w s =
     (let ch = pq_channel q; attribution = pq_attribution q; body = pq_body q; limit = cx_max_body_bytes cx in
      case admit_attribution_or_violate cx attribution ''Publish'' of
        Inl v \<Rightarrow> Ret (w, s, v)
      | Inr _ \<Rightarrow>
     exec_bind (assert_publishable cx attribution ch ''Publish'') (\<lambda>ok.
      case ok of
        Inl v \<Rightarrow> Ret (w, s, v)
      | Inr _ \<Rightarrow>
      if limit < length body then
        let s = map_counters (\<lambda>c. c\<lparr>ct_publish_body_too_large := ct_publish_body_too_large c + 1\<rparr>) s;
            rejects = ct_publish_body_too_large (ss_counters s) in
        if body_too_large_violation_threshold \<le> rejects
        then Ret (w, s, violation cx (''persistent oversized Publish bodies ('' @ decimal rejects
               @ '' rejects this connection)''))
        else Ret (send_frame (PublishResult (pq_correlation q) (PublishBodyTooLarge (length body) limit)) w s)
      else exec_bind (try_consume now (bk_publish (ss_buckets s))) (\<lambda>(bucket, drawn).
        let s = s\<lparr>ss_buckets := (ss_buckets s)\<lparr>bk_publish := bucket\<rparr>\<rparr> in
        case drawn of
          Denied first \<Rightarrow>
            Ret (send_frame (PublishResult (pq_correlation q) PublishRateLimited) w
                  (map_counters (count_rate_limited attribution) s))
        | _ \<Rightarrow>
            (let posture = pf_publish_posture (cx_profile cx) ch;
                 w = call_bus (BusPublish (pf_attach_scope (cx_profile cx)) attribution ch body (pq_urgency q)) w in
             exec_map (\<lambda>(c, outcome).
                 send_frame (PublishResult (pq_correlation q) outcome) w (s\<lparr>ss_counters := c\<rparr>))
               (settle_publish cx attribution posture (bs_publish (aw_bus w) (aw_calls w)) (ss_counters s))))))"

section \<open>A batch\<close>

record 'u publish_batch_request =
  bq_attribution :: "string option"
  bq_correlation :: nat
  bq_publishes :: "batch_entry list"
  bq_deferred_ops :: "'u batch_deferred_op list"

record 't resolved_batch_entry =
  re_channel :: string
  re_body :: string
  re_urgency :: urgency
  re_deliver_after :: "'t option"

record ('u, 't) resolved_deferred_op =
  ro_channel :: string
  ro_message_id :: 'u
  ro_edit :: "(string option \<times> 't option) option"

datatype op_effect = OpApplied | OpRaced

definition edit_bytes :: "'u batch_deferred_op \<Rightarrow> nat" where
  "edit_bytes op = (case bo_op op of Cancel \<Rightarrow> 0 | Edit body _ \<Rightarrow> (case body of None \<Rightarrow> 0 | Some b \<Rightarrow> length b))"

fun batch_illegal_text :: "batch_illegal \<Rightarrow> string" where
  "batch_illegal_text (TooManyOps ops cap) = decimal ops @ '' batch operations, over the cap of '' @ decimal cap"
| "batch_illegal_text (TooManyBytes bytes cap) =
     decimal bytes @ '' charged batch bytes, over the '' @ decimal cap @ ''-byte body cap''"

definition batch_shape ::
  "('u, 'g) session_ctx \<Rightarrow> 'u publish_batch_request \<Rightarrow> frame_outcome + unit" where
  "batch_shape cx q =
     (let publishes = bq_publishes q; ops = bq_deferred_ops q;
          total_bytes = sum_list (map (\<lambda>e. length (be_body e)) publishes) + sum_list (map edit_bytes ops) in
      if publishes = [] \<and> ops = [] then Inl (violation cx ''empty PublishBatch'')
      else if max_publishes_per_activation < length publishes
      then Inl (violation cx (''PublishBatch carries '' @ decimal (length publishes) @ '' entries, over the ''
             @ decimal max_publishes_per_activation @ '' per-activation cap''))
      else if max_publishes_per_activation < length ops
      then Inl (violation cx (''PublishBatch carries '' @ decimal (length ops) @ '' control ops, over the ''
             @ decimal max_publishes_per_activation @ '' per-activation cap''))
      else if max_publish_bytes_per_activation < total_bytes
      then Inl (violation cx (''PublishBatch carries '' @ decimal total_bytes @ '' body bytes, over the ''
             @ decimal max_publish_bytes_per_activation @ ''-byte per-activation cap''))
      else (case check_batch_legality publishes ops (cx_max_body_bytes cx) of
              Inl illegal \<Rightarrow> Inl (violation cx (''illegal PublishBatch: '' @ batch_illegal_text illegal))
            | Inr _ \<Rightarrow> Inr ()))"


fun resolve_batch_entries ::
  "('u, 'g) session_ctx \<Rightarrow> (int \<Rightarrow> 't option) \<Rightarrow> string option \<Rightarrow> 't::linorder \<Rightarrow> batch_entry list
   \<Rightarrow> (frame_outcome + 't resolved_batch_entry list) exec" where
  "resolve_batch_entries cx fm attribution flush_now [] = Ret (Inr [])"
| "resolve_batch_entries cx fm attribution flush_now (e # es) =
     exec_bind (assert_publishable cx attribution (be_channel e) ''PublishBatch entry'') (\<lambda>ok.
       case ok of
         Inl v \<Rightarrow> Ret (Inl v)
       | Inr _ \<Rightarrow>
      (case (case be_deliver_after e of
               None \<Rightarrow> Inr None
             | Some ms \<Rightarrow>
                 (case utc_from_epoch_ms fm ms of
                    None \<Rightarrow> Inl (violation cx (''PublishBatch entry on channel '' @ sanitize_client_detail cx (be_channel e)
                      @ '' carries an unrepresentable deliver_after of '' @ decimal ms @ '' ms''))
                  | Some at \<Rightarrow> Inr (if flush_now < at then Some at else None))) of
         Inl v \<Rightarrow> Ret (Inl v)
       | Inr deliver_after \<Rightarrow>
           exec_map (\<lambda>rest. case rest of
               Inl v \<Rightarrow> Inl v
             | Inr rs \<Rightarrow> Inr (\<lparr>re_channel = be_channel e, re_body = be_body e, re_urgency = be_urgency e,
                               re_deliver_after = deliver_after\<rparr> # rs))
             (resolve_batch_entries cx fm attribution flush_now es)))"

fun resolve_deferred_ops ::
  "('u, 'g) session_ctx \<Rightarrow> (int \<Rightarrow> 't option) \<Rightarrow> string option \<Rightarrow> 'u batch_deferred_op list
   \<Rightarrow> (frame_outcome + ('u, 't) resolved_deferred_op list) exec" where
  "resolve_deferred_ops cx fm attribution [] = Ret (Inr [])"
| "resolve_deferred_ops cx fm attribution (op # ops) =
     exec_bind (assert_publishable cx attribution (bo_channel op) ''PublishBatch control op'') (\<lambda>ok.
       case ok of
         Inl v \<Rightarrow> Ret (Inl v)
       | Inr _ \<Rightarrow>
      (case (case bo_op op of
               Cancel \<Rightarrow> Inr None
             | Edit body deliver_after \<Rightarrow>
                 (case deliver_after of
                    None \<Rightarrow> Inr (Some (body, None))
                  | Some ms \<Rightarrow>
                      (case utc_from_epoch_ms fm ms of
                         None \<Rightarrow> Inl (violation cx (''PublishBatch control op on channel ''
                           @ sanitize_client_detail cx (bo_channel op)
                           @ '' carries an unrepresentable deliver_after of '' @ decimal ms @ '' ms''))
                       | Some at \<Rightarrow> Inr (Some (body, Some at))))) of
         Inl v \<Rightarrow> Ret (Inl v)
       | Inr edit \<Rightarrow>
           exec_map (\<lambda>rest. case rest of
               Inl v \<Rightarrow> Inl v
             | Inr rs \<Rightarrow> Inr (\<lparr>ro_channel = bo_channel op, ro_message_id = bo_message_id op, ro_edit = edit\<rparr> # rs))
             (resolve_deferred_ops cx fm attribution ops)))"

definition apply_deferred_op ::
  "('u, 'g) session_ctx \<Rightarrow> ('u \<Rightarrow> string) \<Rightarrow> participant_id \<Rightarrow> ('u, 't) resolved_deferred_op \<Rightarrow> 't
   \<Rightarrow> ('u, 't) attach_world \<Rightarrow> ('u, 't) attach_world \<times> (frame_outcome + op_effect)" where
  "apply_deferred_op cx id_text sender op now w =
     (let w = call_bus (case ro_edit op of
                 None \<Rightarrow> BusCancel (ro_channel op) sender (ro_message_id op) now
               | Some (body, release_at) \<Rightarrow> BusEdit (ro_channel op) sender (ro_message_id op) body release_at now) w in
      case bs_defer (aw_bus w) (aw_calls w) of
        DeferApplied \<Rightarrow> (w, Inr OpApplied)
      | NotDeferred _ \<Rightarrow> (call_bus (BusRace sender (ro_channel op)) w, Inr OpRaced)
      | DeferWrongSender \<Rightarrow>
          (w, Inl (violation cx (''PublishBatch control op names message '' @ id_text (ro_message_id op) @ '' on ''
             @ sanitize_client_detail cx (ro_channel op) @ '', parked by another sender''))))"

text \<open>The control ops in order: the channels touched, whether any applied, and the violation that stopped them.\<close>

fun apply_ops ::
  "('u, 'g) session_ctx \<Rightarrow> ('u \<Rightarrow> string) \<Rightarrow> participant_id \<Rightarrow> 't \<Rightarrow> ('u, 't) resolved_deferred_op list
   \<Rightarrow> string list \<Rightarrow> bool \<Rightarrow> ('u, 't) attach_world
   \<Rightarrow> ('u, 't) attach_world \<times> string list \<times> bool \<times> frame_outcome option" where
  "apply_ops cx id_text sender now [] chs applied_any w = (w, chs, applied_any, None)"
| "apply_ops cx id_text sender now (op # ops) chs applied_any w =
     (case apply_deferred_op cx id_text sender op now w of
        (w, Inr effect) \<Rightarrow>
          apply_ops cx id_text sender now ops (chs @ [ro_channel op]) (applied_any \<or> effect = OpApplied) w
      | (w, Inl v) \<Rightarrow> (w, chs, applied_any, Some v))"

definition view_entry :: "('t \<Rightarrow> int) \<Rightarrow> ('u, 't) deferred_message \<Rightarrow> 'u deferred_view_entry exec" where
  "view_entry tm m =
     (let ms = tm (dm_release_at m) in
      if ms < 0 then Panic
      else Ret \<lparr>dv_message_id = me_message_id (dm_envelope m), dv_body = me_body (dm_envelope m), dv_deliver_after = nat ms\<rparr>)"

definition deferred_view_entries :: "('t \<Rightarrow> int) \<Rightarrow> ('u, 't) deferred_message list \<Rightarrow> 'u deferred_view_entry list exec" where
  "deferred_view_entries tm parked = exec_traverse (view_entry tm) parked"

definition parked_sender :: "('u, 'g) session_ctx \<Rightarrow> string option \<Rightarrow> participant_id exec" where
  "parked_sender cx attribution =
     (case pf_admit_attribution (cx_profile cx) attribution of Some who \<Rightarrow> Ret who | None \<Rightarrow> Panic)"

definition broadcast_deferred_view ::
  "('u, 'g) session_ctx \<Rightarrow> string option \<Rightarrow> string \<Rightarrow> ('u, 't) attach_world \<Rightarrow> ('u, 't) attach_world exec" where
  "broadcast_deferred_view cx attribution ch w =
     exec_bind (parked_sender cx attribution) (\<lambda>sender.
       let w = call_bus (BusParked ch sender) w in
       exec_map (\<lambda>entries.
           call_bus (BusView (registry_key (pf_attach_scope (cx_profile cx)))
             \<lparr>dvp_channel = ch, dvp_attribution = attribution, dvp_entries = entries\<rparr>) w)
         (deferred_view_entries (bs_timestamp_millis (aw_bus w)) (bs_parked (aw_bus w) (aw_calls w))))"

fun broadcast_each ::
  "('u, 'g) session_ctx \<Rightarrow> string option \<Rightarrow> string list \<Rightarrow> ('u, 't) attach_world \<Rightarrow> ('u, 't) attach_world exec" where
  "broadcast_each cx attribution [] w = Ret w"
| "broadcast_each cx attribution (ch # chs) w =
     exec_bind (broadcast_deferred_view cx attribution ch w) (broadcast_each cx attribution chs)"

definition emit_views ::
  "('u, 'g) session_ctx \<Rightarrow> string option \<Rightarrow> string list \<Rightarrow> ('u, 't) attach_world \<Rightarrow> ('u, 't) attach_world exec" where
  "emit_views cx attribution chs w = broadcast_each cx attribution (remdups_adj (sort chs)) w"

fun stamp_entries :: "('t \<Rightarrow> int) \<Rightarrow> (nat \<Rightarrow> 't) \<Rightarrow> nat \<Rightarrow> int option \<Rightarrow> 't resolved_batch_entry list
   \<Rightarrow> 't attach_batch_publish list" where
  "stamp_entries ns clk k prev_ts [] = []"
| "stamp_entries ns clk k prev_ts (e # es) =
     (let now_ns = ns (clk k);
          ts = (case prev_ts of None \<Rightarrow> now_ns | Some prev \<Rightarrow> max (prev + 1) now_ns)
      in \<lparr>ab_channel_address = re_channel e, ab_body = re_body e, ab_urgency = re_urgency e,
          ab_publish_ts_ns = ts, ab_deliver_after = re_deliver_after e\<rparr> # stamp_entries ns clk (k + 1) (Some ts) es)"

definition apply_batch ::
  "('u, 'g) session_ctx \<Rightarrow> ('u \<Rightarrow> string) \<Rightarrow> (nat \<Rightarrow> 't) \<Rightarrow> 'u publish_batch_request \<Rightarrow> participant_id
   \<Rightarrow> 't resolved_batch_entry list \<Rightarrow> ('u, 't) resolved_deferred_op list \<Rightarrow> ('u, 't) attach_world \<Rightarrow> 'u session_state
   \<Rightarrow> ('u, 't) session_result" where
  "apply_batch cx id_text clk q sender resolved resolved_ops w s =
     (let attribution = bq_attribution q;
          (w, op_channels, applied_any, stopped) = apply_ops cx id_text sender (clk 0) resolved_ops [] False w;
          w = (if applied_any then call_bus BusKick w else w) in
      case stopped of
        Some v \<Rightarrow> exec_map (\<lambda>w. (w, s, v)) (emit_views cx attribution op_channels w)
      | None \<Rightarrow>
          (let batch = stamp_entries (bs_timestamp_nanos (aw_bus w)) clk 1 None resolved;
               w = call_bus (BusBatch (pf_attach_scope (cx_profile cx)) attribution batch
                     (pf_missing_channel_posture (cx_profile cx))) w;
               schedules_dropped = bs_batch (aw_bus w) (aw_calls w) in
           if length batch < schedules_dropped then Panic
           else
             (let s = map_counters ((count_publish_ok attribution) ^^ (length batch - schedules_dropped)) s;
                  touched = map re_channel (filter (\<lambda>e. re_deliver_after e \<noteq> None) resolved) @ op_channels
              in exec_map (\<lambda>w. send_frame (PublishBatchResult (bq_correlation q) BatchOk) w s)
                   (emit_views cx attribution touched w))))"

definition handle_publish_batch ::
  "('u, 'g) session_ctx \<Rightarrow> ('u \<Rightarrow> string) \<Rightarrow> (nat \<Rightarrow> 't::linorder) \<Rightarrow> 'u publish_batch_request
   \<Rightarrow> ('u, 't) attach_world \<Rightarrow> 'u session_state \<Rightarrow> ('u, 't) session_result" where
  "handle_publish_batch cx id_text clk q w s =
     (let attribution = bq_attribution q; fm = bs_from_timestamp_millis (aw_bus w) in
      case admit_attribution_or_violate cx attribution ''PublishBatch'' of
        Inl v \<Rightarrow> Ret (w, s, v)
      | Inr sender \<Rightarrow>
     (case batch_shape cx q of
        Inl v \<Rightarrow> Ret (w, s, v)
      | Inr _ \<Rightarrow>
     exec_bind (resolve_batch_entries cx fm attribution (clk 0) (bq_publishes q)) (\<lambda>entries.
      case entries of
        Inl v \<Rightarrow> Ret (w, s, v)
      | Inr resolved \<Rightarrow>
     exec_bind (resolve_deferred_ops cx fm attribution (bq_deferred_ops q)) (\<lambda>ops.
      case ops of
        Inl v \<Rightarrow> Ret (w, s, v)
      | Inr resolved_ops \<Rightarrow>
          (let draw = max (length resolved) 1;
               w = call_bus (BusDraw (pf_attach_scope (cx_profile cx)) attribution draw) w in
           if \<not> bs_draw (aw_bus w) (aw_calls w)
           then Ret (send_frame (PublishBatchResult (bq_correlation q) BatchRateLimited) w
                  (map_counters ((count_rate_limited attribution) ^^ length resolved) s))
           else apply_batch cx id_text clk q sender resolved resolved_ops w s)))))"


section \<open>Parked views\<close>

fun seed_views ::
  "('u, 'g) session_ctx \<Rightarrow> deferred_target list \<Rightarrow> ('u, 't) attach_world \<Rightarrow> 'u session_state \<Rightarrow> ('u, 't) session_result" where
  "seed_views cx [] w s = Ret (w, s, Continue)"
| "seed_views cx (t # ts) w s =
     exec_bind (parked_sender cx (dt_attribution t)) (\<lambda>sender.
       let w = call_bus (BusParked (dt_channel t) sender) w in
       exec_bind (deferred_view_entries (bs_timestamp_millis (aw_bus w)) (bs_parked (aw_bus w) (aw_calls w))) (\<lambda>entries.
         if entries = [] then seed_views cx ts w s
         else (case send_frame (DeferredView (dt_channel t) (dt_attribution t) entries) w s of
                 (w, s, Disconnect) \<Rightarrow> Ret (w, s, Disconnect)
               | (w, s, _) \<Rightarrow> seed_views cx ts w s)))"

text \<open>The orphan report that follows only logs.\<close>

definition seed_deferred_views ::
  "('u, 'g) session_ctx \<Rightarrow> ('u, 't) attach_world \<Rightarrow> 'u session_state \<Rightarrow> ('u, 't) session_result" where
  "seed_deferred_views cx w s = seed_views cx (pf_deferred_view_targets (cx_profile cx)) w s"

section \<open>Alerts\<close>

definition max_alert_title_bytes :: nat where "max_alert_title_bytes = 256"
definition max_alert_body_bytes :: nat where "max_alert_body_bytes = 4 * 1024"

definition truncation_marker :: string where
  "truncation_marker = [CHR 0xE2, CHR 0x80, CHR 0xA6] @ ''(truncated)''"

fun sanitize_onto :: "(char \<Rightarrow> string) \<Rightarrow> nat \<Rightarrow> string \<Rightarrow> string \<Rightarrow> string" where
  "sanitize_onto esc max_bytes out [] = out"
| "sanitize_onto esc max_bytes out (c # cs) =
     (if max_bytes < length (out @ esc c) then out @ truncation_marker
      else sanitize_onto esc max_bytes (out @ esc c) cs)"

definition sanitize_untrusted_str :: "(char \<Rightarrow> string) \<Rightarrow> string \<Rightarrow> nat \<Rightarrow> string" where
  "sanitize_untrusted_str esc raw max_bytes = sanitize_onto esc max_bytes '''' raw"

text \<open>\<^verbatim>\<open>map_alert_severity\<close> renames each severity to itself; \<open>id_text\<close> prints the session id.\<close>

definition handle_alert ::
  "('u, 'g) session_ctx \<Rightarrow> ('u \<Rightarrow> string) \<Rightarrow> nat \<Rightarrow> string option \<Rightarrow> alert_severity \<Rightarrow> string \<Rightarrow> string
   \<Rightarrow> ('u, 't) attach_world \<Rightarrow> 'u session_state \<Rightarrow> ('u, 't) session_result" where
  "handle_alert cx id_text now attribution severity title body w s =
     (if \<not> pf_alert_granted (cx_profile cx)
      then Ret (w, s, violation cx ''Alert from an attacher without the alert grant'')
      else case admit_attribution_or_violate cx attribution ''Alert'' of
        Inl v \<Rightarrow> Ret (w, s, v)
      | Inr who \<Rightarrow>
      if (case attribution of None \<Rightarrow> False | Some inst \<Rightarrow> \<not> pf_attribution_may_alert (cx_profile cx) inst)
      then Ret (w, s, violation cx (''Alert from declared attribution '' @ sanitize_client_detail cx (the attribution)
             @ '' without the alert grant''))
      else if max_alert_title_bytes < length title \<or> max_alert_body_bytes < length body
      then Ret (w, s, violation cx (''Alert field exceeds size cap (title '' @ decimal (length title) @ ''/''
             @ decimal max_alert_title_bytes @ '', body '' @ decimal (length body) @ ''/'' @ decimal max_alert_body_bytes @ '')''))
      else exec_map (\<lambda>(bucket, drawn).
        let s = s\<lparr>ss_buckets := (ss_buckets s)\<lparr>bk_alert := bucket\<rparr>\<rparr> in
        case drawn of
          Denied first \<Rightarrow> (w, map_counters (\<lambda>c. c\<lparr>ct_alerts_suppressed := ct_alerts_suppressed c + 1\<rparr>) s, Continue)
        | _ \<Rightarrow>
            (let esc = cx_escape_debug cx;
                 title = sanitize_untrusted_str esc title max_alert_title_bytes;
                 body = sanitize_untrusted_str esc body max_alert_body_bytes;
                 attributed_body = body @ [CHR 0x0A] @ ''attacher='' @ pf_attacher (cx_profile cx) @ '' account='' @ cx_account cx
                   @ '' session='' @ id_text (cx_session_id cx)
             in (w\<lparr>aw_alerts := aw_alerts w @ [(severity, ''Attacher '' @ who @ '': '' @ title, attributed_body)]\<rparr>,
                 map_counters (\<lambda>c. c\<lparr>ct_alerts_dispatched := ct_alerts_dispatched c + 1\<rparr>) s, Continue)))
        (try_consume now (bk_alert (ss_buckets s))))"

section \<open>Dispatch\<close>

definition charged_subscription ::
  "('u, 'g) session_ctx \<Rightarrow> nat \<Rightarrow> ('u, 't) attach_world \<Rightarrow> 'u session_state
   \<Rightarrow> ('u session_state \<Rightarrow> ('u, 't) session_result) \<Rightarrow> ('u, 't) session_result" where
  "charged_subscription cx now w s handler =
     exec_bind (charge_subscribe_token cx now (bk_subscribe (ss_buckets s))) (\<lambda>(bucket, charged).
       let s = s\<lparr>ss_buckets := (ss_buckets s)\<lparr>bk_subscribe := bucket\<rparr>\<rparr> in
       case charged of Inl v \<Rightarrow> Ret (w, s, v) | Inr _ \<Rightarrow> handler s)"

definition handle_client_frame ::
  "('u, 'g) session_ctx \<Rightarrow> (string \<Rightarrow> 'u client_frame option) \<Rightarrow> ('u \<Rightarrow> string) \<Rightarrow> nat \<Rightarrow> (nat \<Rightarrow> 't::linorder) \<Rightarrow> string
   \<Rightarrow> ('u, 't) attach_world \<Rightarrow> 'u session_state \<Rightarrow> ('u, 't) session_result" where
  "handle_client_frame cx parse id_text now clk json w s =
     (case parse json of
        None \<Rightarrow> Ret (w, s, violation cx ''unparseable client frame'')
      | Some frame \<Rightarrow>
     (case frame of
        CHello _ _ \<Rightarrow> Ret (w, s, violation cx ''Hello after the handshake'')
      | Subscribe ch push_depth retain_depth resume \<Rightarrow>
          charged_subscription cx now w s (\<lambda>s. handle_subscribe cx
            \<lparr>sq_channel = ch, sq_push_depth = push_depth, sq_retain_depth = retain_depth, sq_resume = resume\<rparr> w s)
      | Unsubscribe ch \<Rightarrow>
          charged_subscription cx now w s (\<lambda>s. Ret (handle_unsubscribe cx ch w s))
      | Publish ch attribution body urgency correlation \<Rightarrow>
          handle_publish cx now \<lparr>pq_channel = ch, pq_attribution = attribution, pq_body = body, pq_urgency = urgency,
            pq_correlation = correlation\<rparr> w s
      | PublishBatch attribution correlation publishes ops \<Rightarrow>
          handle_publish_batch cx id_text clk \<lparr>bq_attribution = attribution, bq_correlation = correlation,
            bq_publishes = publishes, bq_deferred_ops = ops\<rparr> w s
      | CAlert attribution severity title body \<Rightarrow>
          handle_alert cx id_text now attribution severity title body w s))"

end
