(* ===== verification/Subscriptions.thy ===== *)
theory Subscriptions
  imports Attach_Proto
begin

text \<open>
  The wire subscription plane of an attachment, \<^verbatim>\<open>attach/client/src/subs.rs\<close>: per channel a
  refcount, the subscribe handshake, the opaque resume cursor and the continuity check of the
  current span. The main lemma is a simulation: what the plane holds of a channel is always what
  the peer holds of it, so no frame it sends can be one the protocol forbids.
\<close>

section \<open>Data\<close>

record subscription_depths =
  sd_push_depth :: nat
  sd_retain_depth :: nat

datatype resume_policy = Resume | Cursorless

datatype wire_state = Unsubscribed | Pending | Active

record 'u subscribe_ack =
  sa_frames :: "'u client_frame list"
  sa_live :: bool
  sa_replay_count :: nat
  sa_gap :: "gap_info option"

datatype 'u subscribe_settlement = Opened "'u subscribe_ack" | Unavailable

datatype deliver_disposition = Accept nat | Discard bool nat

record channel_subscription =
  cs_refcount :: nat
  cs_depths :: subscription_depths
  cs_resume_policy :: resume_policy
  cs_wire :: wire_state
  cs_token :: "cursor_token option"
  cs_span_hw :: "nat option"
  cs_has_been_active :: bool
  cs_straggler_reported :: bool
  cs_stated :: "(subscription_depths \<times> resume_policy) option"

record subscriptions =
  su_channels :: "(string \<times> channel_subscription) list"
  su_live :: bool

text \<open>The formatted error texts of the intake methods, by what they say.\<close>

datatype sub_error =
    ResultNotPending string
  | DeliverNoRows string
  | DeliverLateLoss string nat
  | DeliverNeverActive string
  | DeliverSeqRegression string nat nat

section \<open>Operations\<close>

definition prepare_subscribe :: "channel_subscription \<Rightarrow> channel_subscription \<times> cursor_token option" where
  "prepare_subscribe e =
     (let e = e\<lparr>cs_wire := Pending, cs_span_hw := None, cs_stated := Some (cs_depths e, cs_resume_policy e)\<rparr>
      in (e, case cs_resume_policy e of Resume \<Rightarrow> cs_token e | Cursorless \<Rightarrow> None))"

definition subscribe_frame :: "string \<Rightarrow> channel_subscription \<Rightarrow> channel_subscription \<times> 'u client_frame" where
  "subscribe_frame channel e =
     (let (e, resume) = prepare_subscribe e
      in (e, Subscribe channel (sd_push_depth (cs_depths e)) (sd_retain_depth (cs_depths e)) resume))"

definition unsubscribe_frame :: "string \<Rightarrow> 'u client_frame" where
  "unsubscribe_frame channel = Unsubscribe channel"

definition subs_new :: subscriptions where
  "subs_new = \<lparr>su_channels = [], su_live = False\<rparr>"

definition subs_acquire ::
  "string \<Rightarrow> subscription_depths \<Rightarrow> resume_policy \<Rightarrow> subscriptions \<Rightarrow>
     (subscriptions \<times> 'u client_frame list) exec" where
  "subs_acquire channel depths policy s =
     (if is_local_channel channel then Panic
      else if \<not> (sd_push_depth depths > 0 \<or> sd_retain_depth depths > 0) then Panic
      else
        let entry = (case map_of (su_channels s) channel of
                       Some e \<Rightarrow> e
                     | None \<Rightarrow> \<lparr>cs_refcount = 0, cs_depths = depths, cs_resume_policy = policy,
                                cs_wire = Unsubscribed, cs_token = None, cs_span_hw = None,
                                cs_has_been_active = False, cs_straggler_reported = False, cs_stated = None\<rparr>);
            entry = (if cs_refcount entry = 0
                     then entry\<lparr>cs_depths := depths, cs_resume_policy := policy\<rparr> else entry)
        in if \<not> (cs_depths entry = depths \<and> cs_resume_policy entry = policy) then Panic
           else
             let entry = entry\<lparr>cs_refcount := min (cs_refcount entry + 1) u32_max\<rparr>
             in if cs_wire entry = Unsubscribed \<and> su_live s
                then let (entry, frame) = subscribe_frame channel entry
                     in Ret (s\<lparr>su_channels := bt_insert channel entry (su_channels s)\<rparr>, [frame])
                else Ret (s\<lparr>su_channels := bt_insert channel entry (su_channels s)\<rparr>, []))"

definition forget_if_spent :: "string \<Rightarrow> subscriptions \<Rightarrow> subscriptions" where
  "forget_if_spent channel s =
     (case map_of (su_channels s) channel of
        None \<Rightarrow> s
      | Some e \<Rightarrow>
          if cs_refcount e = 0 \<and> cs_wire e = Unsubscribed \<and> \<not> cs_has_been_active e
          then s\<lparr>su_channels := AList.delete channel (su_channels s)\<rparr> else s)"

definition subs_release :: "string \<Rightarrow> subscriptions \<Rightarrow> (subscriptions \<times> 'u client_frame list) exec" where
  "subs_release channel s =
     (case map_of (su_channels s) channel of
        None \<Rightarrow> Panic
      | Some e \<Rightarrow>
          if cs_refcount e = 0 then Panic
          else
            let e = e\<lparr>cs_refcount := cs_refcount e - 1\<rparr>
            in if cs_refcount e > 0
               then Ret (s\<lparr>su_channels := bt_insert channel e (su_channels s)\<rparr>, [])
               else
                 let e = e\<lparr>cs_token := None\<rparr>;
                     (e, frames) = (case cs_wire e of
                                      Active \<Rightarrow> (e\<lparr>cs_wire := Unsubscribed\<rparr>, [unsubscribe_frame channel])
                                    | _ \<Rightarrow> (e, []))
                 in Ret (forget_if_spent channel (s\<lparr>su_channels := bt_insert channel e (su_channels s)\<rparr>), frames))"

definition go_live :: "subscriptions \<Rightarrow> subscriptions" where
  "go_live s = s\<lparr>su_live := True\<rparr>"

fun resubscribe_loop ::
  "(string \<times> channel_subscription) list \<Rightarrow> (string \<times> channel_subscription) list \<times> 'u client_frame list" where
  "resubscribe_loop [] = ([], [])"
| "resubscribe_loop ((channel, entry) # rest) =
     (let (rest', frames) = resubscribe_loop rest
      in if cs_refcount entry > 0 \<and> cs_wire entry = Unsubscribed
         then let (entry', frame) = subscribe_frame channel entry
              in ((channel, entry') # rest', frame # frames)
         else ((channel, entry) # rest', frames))"

definition resubscribe_survivors :: "subscriptions \<Rightarrow> subscriptions \<times> 'u client_frame list" where
  "resubscribe_survivors s =
     (let (channels, frames) = resubscribe_loop (su_channels s)
      in (s\<lparr>su_channels := channels\<rparr>, frames))"

definition on_attached :: "subscriptions \<Rightarrow> subscriptions \<times> 'u client_frame list" where
  "on_attached s = resubscribe_survivors (go_live s)"

definition subs_on_detached :: "subscriptions \<Rightarrow> subscriptions" where
  "subs_on_detached s =
     (let s = s\<lparr>su_live := False\<rparr>;
          kept = filter (\<lambda>(_, e). cs_refcount e > 0) (su_channels s)
      in s\<lparr>su_channels :=
             map (\<lambda>(channel, e). (channel, e\<lparr>cs_wire := Unsubscribed, cs_span_hw := None,
                                            cs_has_been_active := False, cs_straggler_reported := False\<rparr>)) kept\<rparr>)"

definition on_subscribe_result ::
  "string \<Rightarrow> subscribe_outcome \<Rightarrow> nat \<Rightarrow> gap_info option \<Rightarrow> subscriptions \<Rightarrow>
     subscriptions \<times> (sub_error + 'u subscribe_settlement)" where
  "on_subscribe_result channel outcome replay_count gap s =
     (case map_of (su_channels s) channel of
        None \<Rightarrow> (s, Inl (ResultNotPending channel))
      | Some e \<Rightarrow>
          if cs_wire e \<noteq> Pending then (s, Inl (ResultNotPending channel))
          else if outcome = SubscribeUnavailable
          then (s\<lparr>su_channels := bt_insert channel
                    (e\<lparr>cs_wire := Unsubscribed, cs_refcount := 0, cs_span_hw := None, cs_stated := None\<rparr>)
                    (su_channels s)\<rparr>, Inr Unavailable)
          else
            let e = e\<lparr>cs_has_been_active := True, cs_straggler_reported := False\<rparr>;
                restated = (cs_stated e \<noteq> Some (cs_depths e, cs_resume_policy e));
                (e, frames, live) =
                  (if cs_refcount e = 0 then (e\<lparr>cs_wire := Unsubscribed\<rparr>, [unsubscribe_frame channel], False)
                   else if restated
                   then let close = unsubscribe_frame channel; (e', frame) = subscribe_frame channel e
                        in (e', [close, frame], False)
                   else (e\<lparr>cs_wire := Active\<rparr>, [], True))
            in (s\<lparr>su_channels := bt_insert channel e (su_channels s)\<rparr>,
                Inr (Opened \<lparr>sa_frames = frames, sa_live = live, sa_replay_count = replay_count, sa_gap = gap\<rparr>)))"

text \<open>The row loop of \<^verbatim>\<open>on_deliver\<close>: the new high-water mark, or the first regression.\<close>

fun span_scan :: "nat option \<Rightarrow> ('u, 't) deliver_row list \<Rightarrow> (nat \<times> nat) + nat option" where
  "span_scan hw [] = Inr hw"
| "span_scan hw (row # rows) =
     (case hw of
        Some seen \<Rightarrow> if dr_seq row \<le> seen then Inl (dr_seq row, seen) else span_scan (Some (dr_seq row)) rows
      | None \<Rightarrow> span_scan (Some (dr_seq row)) rows)"

definition on_deliver ::
  "string \<Rightarrow> ('u, 't) deliver_row list \<Rightarrow> subscriptions \<Rightarrow> subscriptions \<times> (sub_error + deliver_disposition)" where
  "on_deliver channel rows s =
     (case rows of
        [] \<Rightarrow> (s, Inl (DeliverNoRows channel))
      | head # rest \<Rightarrow>
         (case find (\<lambda>row. dr_dropped row \<noteq> 0) rest of
            Some row \<Rightarrow> (s, Inl (DeliverLateLoss channel (dr_dropped row)))
          | None \<Rightarrow>
             let dropped = dr_dropped head;
                 last = (if rest = [] then head else last rest)
             in case map_of (su_channels s) channel of
                  None \<Rightarrow> (s, Inl (DeliverNeverActive channel))
                | Some e \<Rightarrow>
                   if \<not> cs_has_been_active e then (s, Inl (DeliverNeverActive channel))
                   else if cs_wire e \<noteq> Active
                   then (s\<lparr>su_channels := bt_insert channel (e\<lparr>cs_straggler_reported := True\<rparr>) (su_channels s)\<rparr>,
                         Inr (Discard (\<not> cs_straggler_reported e) dropped))
                   else case span_scan (cs_span_hw e) rows of
                     Inl (q, seen) \<Rightarrow> (s, Inl (DeliverSeqRegression channel q seen))
                   | Inr hw \<Rightarrow>
                       let e = e\<lparr>cs_span_hw := hw\<rparr>;
                           e = (if cs_resume_policy e = Resume then e\<lparr>cs_token := Some (dr_cursor last)\<rparr> else e)
                       in (s\<lparr>su_channels := bt_insert channel e (su_channels s)\<rparr>, Inr (Accept dropped))))"

definition subs_is_active :: "string \<Rightarrow> subscriptions \<Rightarrow> bool" where
  "subs_is_active channel s =
     (case map_of (su_channels s) channel of None \<Rightarrow> False | Some e \<Rightarrow> cs_wire e = Active)"

definition subs_refcount :: "string \<Rightarrow> subscriptions \<Rightarrow> nat" where
  "subs_refcount channel s = (case map_of (su_channels s) channel of None \<Rightarrow> 0 | Some e \<Rightarrow> cs_refcount e)"

definition subs_depths :: "string \<Rightarrow> subscriptions \<Rightarrow> subscription_depths option" where
  "subs_depths channel s = map_option cs_depths (map_of (su_channels s) channel)"

definition held_channels :: "subscriptions \<Rightarrow> string list" where
  "held_channels s = map fst (filter (\<lambda>(_, e). cs_refcount e > 0) (su_channels s))"

section \<open>The peer\<close>

text \<open>What the protocol lets a peer expect of one attachment, per channel. A \<open>Subscribe\<close> on a channel
  already asked for, and an \<open>Unsubscribe\<close> of one not open, are violations.\<close>

datatype peer_state = Closed | Requested | Open

fun peer_frame :: "'u client_frame \<Rightarrow> (string \<Rightarrow> peer_state) \<Rightarrow> (string \<Rightarrow> peer_state) option" where
  "peer_frame (Subscribe channel _ _ _) P = (if P channel = Closed then Some (P(channel := Requested)) else None)"
| "peer_frame (Unsubscribe channel) P = (if P channel = Open then Some (P(channel := Closed)) else None)"
| "peer_frame _ P = Some P"

fun peer_frames :: "'u client_frame list \<Rightarrow> (string \<Rightarrow> peer_state) \<Rightarrow> (string \<Rightarrow> peer_state) option" where
  "peer_frames [] P = Some P"
| "peer_frames (f # fs) P = Option.bind (peer_frame f P) (peer_frames fs)"

text \<open>What happens to the plane: its embedder's calls and the peer's frames.\<close>

datatype ('u, 't) sub_input =
    IAcquire string subscription_depths resume_policy
  | IRelease string
  | IAttached
  | IGoLive
  | IResubscribe
  | IDetached
  | IResult string subscribe_outcome nat "gap_info option"
  | IDeliver string "('u, 't) deliver_row list"

fun settlement_frames :: "sub_error + 'u subscribe_settlement \<Rightarrow> 'u client_frame list" where
  "settlement_frames (Inr (Opened ack)) = sa_frames ack"
| "settlement_frames _ = []"

fun sub_step :: "subscriptions \<Rightarrow> ('u, 't) sub_input \<Rightarrow> (subscriptions \<times> 'u client_frame list) exec" where
  "sub_step s (IAcquire channel depths policy) = subs_acquire channel depths policy s"
| "sub_step s (IRelease channel) = subs_release channel s"
| "sub_step s IAttached = Ret (on_attached s)"
| "sub_step s IGoLive = Ret (go_live s, [])"
| "sub_step s IResubscribe = Ret (resubscribe_survivors s)"
| "sub_step s IDetached = Ret (subs_on_detached s, [])"
| "sub_step s (IResult channel outcome n gap) =
     Ret (map_prod id settlement_frames (on_subscribe_result channel outcome n gap s))"
| "sub_step s (IDeliver channel rows) = Ret (fst (on_deliver channel rows s), [])"

text \<open>The embedder's documented duties; the peer owes nothing.\<close>

fun sub_legal :: "subscriptions \<Rightarrow> ('u, 't) sub_input \<Rightarrow> bool" where
  "sub_legal s (IAcquire channel depths policy) \<longleftrightarrow>
     \<not> is_local_channel channel \<and> (sd_push_depth depths > 0 \<or> sd_retain_depth depths > 0) \<and>
     (case map_of (su_channels s) channel of
        None \<Rightarrow> True
      | Some e \<Rightarrow> cs_refcount e = 0 \<or> (cs_depths e = depths \<and> cs_resume_policy e = policy))"
| "sub_legal s (IRelease channel) \<longleftrightarrow> 0 < subs_refcount channel s"
| "sub_legal s IResubscribe \<longleftrightarrow> su_live s"
| "sub_legal s _ \<longleftrightarrow> True"

fun peer_input :: "('u, 't) sub_input \<Rightarrow> (string \<Rightarrow> peer_state) \<Rightarrow> (string \<Rightarrow> peer_state)" where
  "peer_input IDetached P = (\<lambda>_. Closed)"
| "peer_input (IResult channel outcome _ _) P =
     (if P channel = Requested
      then P(channel := (if outcome = SubscribeOk then Open else Closed)) else P)"
| "peer_input _ P = P"

fun view_of :: "wire_state \<Rightarrow> peer_state" where
  "view_of Unsubscribed = Closed"
| "view_of Pending = Requested"
| "view_of Active = Open"

definition wire_view :: "subscriptions \<Rightarrow> string \<Rightarrow> peer_state" where
  "wire_view s channel = (case map_of (su_channels s) channel of None \<Rightarrow> Closed | Some e \<Rightarrow> view_of (cs_wire e))"

definition sub_entry_ok :: "bool \<Rightarrow> channel_subscription \<Rightarrow> bool" where
  "sub_entry_ok live e \<longleftrightarrow>
     (\<not> live \<longrightarrow> cs_wire e = Unsubscribed) \<and>
     (cs_wire e = Active \<longrightarrow> 0 < cs_refcount e \<and> cs_has_been_active e)"

definition sub_wf :: "subscriptions \<Rightarrow> bool" where
  "sub_wf s \<longleftrightarrow> bt_ok (su_channels s) \<and>
     (\<forall>channel e. map_of (su_channels s) channel = Some e \<longrightarrow> sub_entry_ok (su_live s) e)"

section \<open>The simulation\<close>

lemma sub_wf_new: "sub_wf subs_new"
  by (simp add: sub_wf_def subs_new_def bt_ok_def)

lemma sub_wf_put:
  "sub_wf s \<Longrightarrow> sub_entry_ok (su_live s) e \<Longrightarrow> sub_wf (s\<lparr>su_channels := bt_insert channel e (su_channels s)\<rparr>)"
  by (auto simp: sub_wf_def bt.ok_put bt.get_put split: if_splits)

lemma sub_wf_entryD: "sub_wf s \<Longrightarrow> map_of (su_channels s) channel = Some e \<Longrightarrow> sub_entry_ok (su_live s) e"
  by (simp add: sub_wf_def)

lemma wire_view_put:
  "wire_view (s\<lparr>su_channels := bt_insert channel e (su_channels s)\<rparr>) = (wire_view s)(channel := view_of (cs_wire e))"
  by (auto simp: wire_view_def bt.get_put)

lemma wire_view_same: "wire_view s channel = P channel \<Longrightarrow> (wire_view s)(channel := P channel) = wire_view s"
  by auto

lemma subscribe_frame_eq:
  "subscribe_frame channel e =
     (e\<lparr>cs_wire := Pending, cs_span_hw := None, cs_stated := Some (cs_depths e, cs_resume_policy e)\<rparr>,
      Subscribe channel (sd_push_depth (cs_depths e)) (sd_retain_depth (cs_depths e))
        (case cs_resume_policy e of Resume \<Rightarrow> cs_token e | Cursorless \<Rightarrow> None))"
  by (simp add: subscribe_frame_def prepare_subscribe_def Let_def split: resume_policy.split)

text \<open>One step is simulated when the peer accepts its frames and ends up where the plane believes.\<close>

definition step_conforms ::
  "subscriptions \<Rightarrow> ('u, 't) sub_input \<Rightarrow> subscriptions \<times> 'u client_frame list \<Rightarrow> bool" where
  "step_conforms s i out \<longleftrightarrow> sub_wf (fst out) \<and>
     peer_frames (snd out) (peer_input i (wire_view s)) = Some (wire_view (fst out))"

lemma acquire_conforms:
  assumes "sub_wf s" and "sub_legal s (IAcquire channel depths policy)"
  shows "\<exists>out. subs_acquire channel depths policy s = Ret out \<and> step_conforms s (IAcquire channel depths policy) out"
proof -
  define e0 where "e0 = (case map_of (su_channels s) channel of
                       Some e \<Rightarrow> e
                     | None \<Rightarrow> \<lparr>cs_refcount = 0, cs_depths = depths, cs_resume_policy = policy,
                                cs_wire = Unsubscribed, cs_token = None, cs_span_hw = None,
                                cs_has_been_active = False, cs_straggler_reported = False, cs_stated = None\<rparr>)"
  define e1 where "e1 = (if cs_refcount e0 = 0 then e0\<lparr>cs_depths := depths, cs_resume_policy := policy\<rparr> else e0)"
  define e2 where "e2 = e1\<lparr>cs_refcount := min (cs_refcount e1 + 1) u32_max\<rparr>"
  have l: "\<not> is_local_channel channel" "sd_push_depth depths > 0 \<or> sd_retain_depth depths > 0"
    using assms(2) by simp_all
  have ok0: "sub_entry_ok (su_live s) e0"
    using sub_wf_entryD [OF assms(1)] by (auto simp: e0_def sub_entry_ok_def split: option.splits)
  have v0: "wire_view s channel = view_of (cs_wire e0)"
    by (auto simp: wire_view_def e0_def split: option.splits)
  have st: "cs_depths e1 = depths \<and> cs_resume_policy e1 = policy"
    using assms(2) by (auto simp: e1_def e0_def split: option.splits if_splits)
  have w: "cs_wire e2 = cs_wire e0" by (simp add: e2_def e1_def)
  have ok2: "sub_entry_ok (su_live s) e2"
    using ok0 by (auto simp: e2_def e1_def sub_entry_ok_def u32_max_def)
  have eq: "subs_acquire channel depths policy s =
      (if cs_wire e2 = Unsubscribed \<and> su_live s
       then let (entry, frame) = subscribe_frame channel e2
            in Ret (s\<lparr>su_channels := bt_insert channel entry (su_channels s)\<rparr>, [frame])
       else Ret (s\<lparr>su_channels := bt_insert channel e2 (su_channels s)\<rparr>, []))"
    unfolding subs_acquire_def e0_def [symmetric] Let_def e1_def [symmetric] e2_def [symmetric]
    using l st by simp
  show ?thesis
  proof (cases "cs_wire e2 = Unsubscribed \<and> su_live s")
    case True
    then show ?thesis
      using sub_wf_put [OF assms(1)] ok2 v0 w
      by (auto simp: eq subscribe_frame_eq step_conforms_def wire_view_put sub_entry_ok_def)
  next
    case False
    then show ?thesis
      using sub_wf_put [OF assms(1) ok2] v0 w
      by (auto simp: eq step_conforms_def wire_view_put)
  qed
qed

lemma forget_conforms:
  assumes "sub_wf s"
  shows "sub_wf (forget_if_spent channel s) \<and> wire_view (forget_if_spent channel s) = wire_view s"
proof (cases "map_of (su_channels s) channel")
  case None
  then show ?thesis using assms by (simp add: forget_if_spent_def)
next
  case (Some e)
  have del: "map_of (AList.delete channel (su_channels s)) = (map_of (su_channels s))(channel := None)"
    by (rule bt.get_del) (use assms in \<open>simp add: sub_wf_def\<close>)
  then have "sub_wf (s\<lparr>su_channels := AList.delete channel (su_channels s)\<rparr>)"
    using assms bt.ok_del [of "su_channels s" channel] by (auto simp: sub_wf_def split: if_splits)
  moreover have "cs_wire e = Unsubscribed \<Longrightarrow>
      wire_view (s\<lparr>su_channels := AList.delete channel (su_channels s)\<rparr>) = wire_view s"
    using Some by (auto simp: wire_view_def del)
  ultimately show ?thesis using Some assms by (simp add: forget_if_spent_def)
qed

lemma release_conforms:
  assumes "sub_wf s" and "sub_legal s (IRelease channel :: ('u, 't) sub_input)"
  shows "\<exists>out. subs_release channel s = Ret out \<and> step_conforms s (IRelease channel :: ('u, 't) sub_input) out"
proof -
  obtain e where e: "map_of (su_channels s) channel = Some e" "0 < cs_refcount e"
    using assms(2) by (auto simp: subs_refcount_def split: option.splits)
  have ok: "sub_entry_ok (su_live s) e" by (rule sub_wf_entryD [OF assms(1) e(1)])
  have v: "wire_view s channel = view_of (cs_wire e)" using e(1) by (simp add: wire_view_def)
  show ?thesis
  proof (cases "cs_refcount e = 1")
    case False
    let ?e = "e\<lparr>cs_refcount := cs_refcount e - 1\<rparr>"
    have "sub_entry_ok (su_live s) ?e" using ok False e(2) by (auto simp: sub_entry_ok_def)
    then show ?thesis using e False v sub_wf_put [OF assms(1), of ?e channel]
      by (auto simp: subs_release_def Let_def step_conforms_def wire_view_put)
  next
    case True
    define e' where "e' = (case cs_wire e of Active \<Rightarrow> e\<lparr>cs_refcount := 0, cs_token := None, cs_wire := Unsubscribed\<rparr>
                           | _ \<Rightarrow> e\<lparr>cs_refcount := 0, cs_token := None\<rparr>)"
    define s' where "s' = s\<lparr>su_channels := bt_insert channel e' (su_channels s)\<rparr>"
    have "sub_entry_ok (su_live s) e'" using ok by (auto simp: e'_def sub_entry_ok_def split: wire_state.splits)
    then have wf: "sub_wf s'" unfolding s'_def by (rule sub_wf_put [OF assms(1)])
    define frames :: "'u client_frame list" where
      "frames = (if cs_wire e = Active then [Unsubscribe channel] else [])"
    have r: "subs_release channel s = Ret (forget_if_spent channel s', frames)" unfolding frames_def
      using e True by (auto simp: subs_release_def Let_def s'_def e'_def unsubscribe_frame_def split: wire_state.splits)
    have "wire_view s' = (wire_view s)(channel := view_of (cs_wire e'))" unfolding s'_def by (rule wire_view_put)
    then have "peer_frames frames (wire_view s) = Some (wire_view s')"
      using v by (cases "cs_wire e") (auto simp: e'_def frames_def)
    then show ?thesis using r forget_conforms [OF wf] by (simp add: step_conforms_def)
  qed
qed

definition merged_view :: "(string \<times> channel_subscription) list \<Rightarrow> (string \<Rightarrow> peer_state) \<Rightarrow> string \<Rightarrow> peer_state" where
  "merged_view cs P channel = (case map_of cs channel of None \<Rightarrow> P channel | Some e \<Rightarrow> view_of (cs_wire e))"

lemma resubscribe_loop_keys: "map fst (fst (resubscribe_loop cs)) = map fst cs"
  by (induction cs rule: resubscribe_loop.induct) (auto simp: split_beta Let_def subscribe_frame_eq)

lemma resubscribe_loop_conforms:
  assumes "distinct (map fst cs)" and "\<forall>(channel, e)\<in>set cs. P channel = view_of (cs_wire e)"
  shows "peer_frames (snd (resubscribe_loop cs) :: 'u client_frame list) P =
    Some (merged_view (fst (resubscribe_loop cs :: _ \<times> 'u client_frame list)) P)"
  using assms
proof (induction cs arbitrary: P)
  case Nil
  then show ?case by (simp add: merged_view_def [abs_def])
next
  case (Cons x cs)
  obtain channel e where x: "x = (channel, e)" by (cases x)
  have d: "distinct (map fst cs)" "channel \<notin> fst ` set cs" using Cons.prems(1) x by simp_all
  have k: "channel \<notin> fst ` set (fst (resubscribe_loop cs :: _ \<times> 'u client_frame list))"
    using d(2) resubscribe_loop_keys [of cs] by (metis list.set_map)
  have n: "map_of (fst (resubscribe_loop cs :: _ \<times> 'u client_frame list)) channel = None"
    using k by (simp add: map_of_eq_None_iff)
  have P: "P channel = view_of (cs_wire e)" using Cons.prems(2) x by simp
  show ?case
  proof (cases "0 < cs_refcount e \<and> cs_wire e = Unsubscribed")
    case True
    let ?P = "P(channel := Requested)"
    have v: "\<forall>(channel, e)\<in>set cs. ?P channel = view_of (cs_wire e)"
      using Cons.prems(2) d(2) x by (fastforce simp: image_iff)
    have ih: "peer_frames (snd (resubscribe_loop cs) :: 'u client_frame list) ?P =
        Some (merged_view (fst (resubscribe_loop cs :: _ \<times> 'u client_frame list)) ?P)"
      by (rule Cons.IH [OF d(1) v])
    have "merged_view (fst (resubscribe_loop cs :: _ \<times> 'u client_frame list)) ?P =
        merged_view (fst (resubscribe_loop (x # cs) :: _ \<times> 'u client_frame list)) P"
      using True n x
      by (auto simp: split_beta Let_def subscribe_frame_eq merged_view_def fun_eq_iff split: option.split)
    then show ?thesis using True P ih x by (simp add: split_beta Let_def subscribe_frame_eq)
  next
    case False
    have "\<forall>(channel, e)\<in>set cs. P channel = view_of (cs_wire e)" using Cons.prems(2) by simp
    note ih = Cons.IH [OF d(1) this]
    have "merged_view (fst (resubscribe_loop cs :: _ \<times> 'u client_frame list)) P =
        merged_view (fst (resubscribe_loop (x # cs) :: _ \<times> 'u client_frame list)) P"
      using False n P x by (auto simp: split_beta Let_def merged_view_def fun_eq_iff)
    then show ?thesis using False ih x by (auto simp: split_beta Let_def)
  qed
qed

lemma resubscribe_loop_entries:
  "map_of (fst (resubscribe_loop cs)) channel =
     map_option (\<lambda>e. if 0 < cs_refcount e \<and> cs_wire e = Unsubscribed
                     then e\<lparr>cs_wire := Pending, cs_span_hw := None, cs_stated := Some (cs_depths e, cs_resume_policy e)\<rparr>
                     else e) (map_of cs channel)"
  by (induction cs rule: resubscribe_loop.induct) (auto simp: split_beta Let_def subscribe_frame_eq)

lemma resubscribe_conforms:
  assumes "sub_wf s" and "su_live s"
  shows "step_conforms s (IResubscribe :: ('u, 't) sub_input) (resubscribe_survivors s)"
proof -
  let ?l = "resubscribe_loop (su_channels s) :: (string \<times> channel_subscription) list \<times> 'u client_frame list"
  have ok: "bt_ok (su_channels s)" using assms(1) by (simp add: sub_wf_def)
  have "bt_ok (fst ?l)" using ok unfolding bt_ok_def resubscribe_loop_keys .
  moreover have "\<forall>channel e. map_of (fst ?l) channel = Some e \<longrightarrow> sub_entry_ok (su_live s) e"
    using assms unfolding resubscribe_loop_entries by (auto simp: sub_wf_def sub_entry_ok_def)
  ultimately have wf: "sub_wf (s\<lparr>su_channels := fst ?l\<rparr>)" by (simp add: sub_wf_def)
  have v: "\<forall>(channel, e)\<in>set (su_channels s). wire_view s channel = view_of (cs_wire e)"
    using ok by (auto simp: wire_view_def bt_ok_def)
  have "peer_frames (snd ?l) (wire_view s) = Some (merged_view (fst ?l) (wire_view s))"
    by (rule resubscribe_loop_conforms [OF _ v]) (use ok in \<open>simp add: bt_ok_def\<close>)
  moreover have "merged_view (fst ?l) (wire_view s) = wire_view (s\<lparr>su_channels := fst ?l\<rparr>)"
    by (auto simp: merged_view_def wire_view_def resubscribe_loop_entries fun_eq_iff split: option.splits)
  ultimately show ?thesis using wf by (simp add: step_conforms_def resubscribe_survivors_def split_beta Let_def)
qed

lemma go_live_conforms: "sub_wf s \<Longrightarrow> step_conforms s IGoLive (go_live s, [])"
  by (auto simp: step_conforms_def go_live_def sub_wf_def sub_entry_ok_def wire_view_def [abs_def])

lemma attached_conforms: "sub_wf s \<Longrightarrow> step_conforms s IAttached (on_attached s)"
  using resubscribe_conforms [of "go_live s"] go_live_conforms [of s]
  by (simp add: step_conforms_def on_attached_def go_live_def)

lemma map_of_map_filter:
  "map_of (map (\<lambda>(k, e). (k, f e)) (filter (\<lambda>(_, e). Q e) m)) k =
     (if bt_ok m then map_option f (case map_of m k of None \<Rightarrow> None | Some e \<Rightarrow> if Q e then Some e else None)
      else map_of (map (\<lambda>(k, e). (k, f e)) (filter (\<lambda>(_, e). Q e) m)) k)"
proof -
  have "map_of (filter (\<lambda>(_, e). Q e) m) k = (case map_of m k of None \<Rightarrow> None | Some e \<Rightarrow> if Q e then Some e else None)"
    if "distinct (map fst m)"
    using that by (induction m) (auto simp: map_of_eq_None_iff split: option.splits)
  then show ?thesis by (simp add: map_of_map bt_ok_def)
qed

lemma detached_conforms:
  assumes "sub_wf s"
  shows "step_conforms s IDetached (subs_on_detached s, [])"
proof -
  let ?f = "\<lambda>e. e\<lparr>cs_wire := Unsubscribed, cs_span_hw := None, cs_has_been_active := False, cs_straggler_reported := False\<rparr>"
  let ?m = "map (\<lambda>(k, e). (k, ?f e)) (filter (\<lambda>(_, e). 0 < cs_refcount e) (su_channels s))"
  have ok: "bt_ok (su_channels s)" using assms by (simp add: sub_wf_def)
  have "map fst ?m = map fst (filter (\<lambda>(_, e). 0 < cs_refcount e) (su_channels s))" by auto
  then have bt: "bt_ok ?m" using ok by (simp only: bt_ok_def sorted_filter distinct_map_filter)
  have look: "map_of ?m channel = map_option ?f (case map_of (su_channels s) channel of
      None \<Rightarrow> None | Some e \<Rightarrow> if 0 < cs_refcount e then Some e else None)" for channel
    using map_of_map_filter [of ?f "\<lambda>e. 0 < cs_refcount e" "su_channels s" channel] ok by simp
  have "wire_view (subs_on_detached s) = (\<lambda>_. Closed)"
    unfolding fun_eq_iff wire_view_def subs_on_detached_def Let_def
    by (simp add: look split: option.split)
  moreover have "sub_wf (subs_on_detached s)"
    using bt by (auto simp: sub_wf_def subs_on_detached_def Let_def look sub_entry_ok_def split: option.splits if_splits)
  ultimately show ?thesis by (simp add: step_conforms_def)
qed

lemma result_conforms:
  assumes "sub_wf s"
  shows "step_conforms s (IResult channel outcome n gap :: ('u, 't) sub_input)
    (map_prod id settlement_frames (on_subscribe_result channel outcome n gap s))"
proof (cases "\<exists>e. map_of (su_channels s) channel = Some e \<and> cs_wire e = Pending")
  case False
  then have "on_subscribe_result channel outcome n gap s =
      (s, Inl (ResultNotPending channel) :: sub_error + 'u subscribe_settlement)"
    by (auto simp: on_subscribe_result_def split: option.splits)
  moreover have "wire_view s channel \<noteq> Requested"
    using False by (auto simp: wire_view_def split: option.splits elim: view_of.elims)
  ultimately show ?thesis using assms by (simp add: step_conforms_def)
next
  case True
  then obtain e where e: "map_of (su_channels s) channel = Some e" "cs_wire e = Pending" by blast
  have ok: "sub_entry_ok (su_live s) e" by (rule sub_wf_entryD [OF assms e(1)])
  then have live: "su_live s" using e(2) by (auto simp: sub_entry_ok_def)
  have v: "wire_view s channel = Requested" using e by (simp add: wire_view_def)
  show ?thesis
  proof (cases outcome)
    case SubscribeUnavailable
    let ?e = "e\<lparr>cs_wire := Unsubscribed, cs_refcount := 0, cs_span_hw := None, cs_stated := None\<rparr>"
    have "sub_entry_ok (su_live s) ?e" by (simp add: sub_entry_ok_def)
    from sub_wf_put [OF assms this, of channel] show ?thesis
      using e SubscribeUnavailable v by (simp add: on_subscribe_result_def step_conforms_def wire_view_put)
  next
    case SubscribeOk
    let ?e = "e\<lparr>cs_has_been_active := True, cs_straggler_reported := False\<rparr>"
    consider "cs_refcount e = 0" | "0 < cs_refcount e" "cs_stated e \<noteq> Some (cs_depths e, cs_resume_policy e)"
      | "0 < cs_refcount e" "cs_stated e = Some (cs_depths e, cs_resume_policy e)" by blast
    then show ?thesis
    proof cases
      case 1
      have "sub_entry_ok (su_live s) (?e\<lparr>cs_wire := Unsubscribed\<rparr>)" by (simp add: sub_entry_ok_def)
      from sub_wf_put [OF assms this, of channel] show ?thesis
        using e SubscribeOk v 1
        by (simp add: on_subscribe_result_def step_conforms_def wire_view_put unsubscribe_frame_def)
    next
      case 2
      have "sub_entry_ok (su_live s) (?e\<lparr>cs_wire := Pending, cs_span_hw := None, cs_stated := Some (cs_depths e, cs_resume_policy e)\<rparr>)"
        using live by (simp add: sub_entry_ok_def)
      from sub_wf_put [OF assms this, of channel] show ?thesis
        using e SubscribeOk v 2
        by (simp add: on_subscribe_result_def step_conforms_def wire_view_put unsubscribe_frame_def subscribe_frame_eq Let_def)
    next
      case 3
      have "sub_entry_ok (su_live s) (?e\<lparr>cs_wire := Active\<rparr>)" using live 3 by (simp add: sub_entry_ok_def)
      from sub_wf_put [OF assms this, of channel] show ?thesis
        using e SubscribeOk v 3 by (simp add: on_subscribe_result_def step_conforms_def wire_view_put)
    qed
  qed
qed

text \<open>What a delivery pass may change, and when.\<close>

lemma deliver_cases:
  fixes rows :: "('u, 't) deliver_row list"
  obtains (refused) err where "on_deliver channel rows s = (s, Inl err)"
  | (straggler) e where "map_of (su_channels s) channel = Some e" "cs_has_been_active e" "cs_wire e \<noteq> Active"
      "on_deliver channel rows s =
        (s\<lparr>su_channels := bt_insert channel (e\<lparr>cs_straggler_reported := True\<rparr>) (su_channels s)\<rparr>,
         Inr (Discard (\<not> cs_straggler_reported e) (dr_dropped (hd rows))))"
  | (accepted) e hw where "rows \<noteq> []" "map_of (su_channels s) channel = Some e" "cs_has_been_active e" "cs_wire e = Active"
      "\<forall>row\<in>set (tl rows). dr_dropped row = 0" "span_scan (cs_span_hw e) rows = Inr hw"
      "on_deliver channel rows s =
        (s\<lparr>su_channels := bt_insert channel
             (e\<lparr>cs_span_hw := hw,
                cs_token := if cs_resume_policy e = Resume then Some (dr_cursor (last rows)) else cs_token e\<rparr>)
             (su_channels s)\<rparr>, Inr (Accept (dr_dropped (hd rows))))"
proof (cases rows)
  case Nil
  then show ?thesis by (intro refused) (simp add: on_deliver_def)
next
  case (Cons head rest)
  show ?thesis
  proof (cases "find (\<lambda>row. dr_dropped row \<noteq> 0) rest")
    case (Some row)
    then show ?thesis using Cons by (intro refused) (simp add: on_deliver_def)
  next
    case None
    have l: "(if rest = [] then head else last rest) = last rows" using Cons by simp
    show ?thesis
    proof (cases "\<exists>e. map_of (su_channels s) channel = Some e \<and> cs_has_been_active e")
      case False
      then show ?thesis using Cons None
        by (intro refused [of "DeliverNeverActive channel"]) (auto simp: on_deliver_def Let_def split: option.splits)
    next
      case True
      then obtain e where e: "map_of (su_channels s) channel = Some e" "cs_has_been_active e" by blast
      show ?thesis
      proof (cases "cs_wire e = Active")
        case False
        then show ?thesis using e Cons None by (intro straggler [of e]) (simp_all add: on_deliver_def Let_def)
      next
        case True
        show ?thesis
        proof (cases "span_scan (cs_span_hw e) rows")
          case (Inl p)
          then show ?thesis using e True Cons None
            by (intro refused [of "DeliverSeqRegression channel (fst p) (snd p)"])
              (auto simp: on_deliver_def Let_def split_beta)
        next
          case (Inr hw)
          have "\<forall>row\<in>set rest. dr_dropped row = 0" using None unfolding find_None_iff by blast
          then have "\<forall>row\<in>set (tl rows). dr_dropped row = 0" using Cons by simp
          moreover have "on_deliver channel rows s =
            (s\<lparr>su_channels := bt_insert channel
               (e\<lparr>cs_span_hw := hw,
                  cs_token := if cs_resume_policy e = Resume then Some (dr_cursor (last rows)) else cs_token e\<rparr>)
               (su_channels s)\<rparr>, Inr (Accept (dr_dropped (hd rows))))"
            using None e True Inr unfolding on_deliver_def Cons list.case Let_def l [unfolded Cons]
            by (simp del: last.simps)
          ultimately show ?thesis using e True Cons Inr by (intro accepted [of e hw]) simp_all
        qed
      qed
    qed
  qed
qed

lemma wire_view_keep:
  "map_of (su_channels s) channel = Some e \<Longrightarrow> cs_wire e' = cs_wire e \<Longrightarrow>
     wire_view (s\<lparr>su_channels := bt_insert channel e' (su_channels s)\<rparr>) = wire_view s"
  unfolding wire_view_put by (simp add: wire_view_def fun_upd_idem)

lemma deliver_conforms:
  assumes "sub_wf s"
  shows "step_conforms s (IDeliver channel rows) (fst (on_deliver channel rows s), [])"
proof (cases channel rows s rule: deliver_cases)
  case (refused err)
  then show ?thesis using assms by (simp add: step_conforms_def)
next
  case (straggler e)
  have "sub_entry_ok (su_live s) (e\<lparr>cs_straggler_reported := True\<rparr>)"
    using sub_wf_entryD [OF assms straggler(1)] by (simp add: sub_entry_ok_def)
  from sub_wf_put [OF assms this, of channel] wire_view_keep [OF straggler(1), of "e\<lparr>cs_straggler_reported := True\<rparr>"]
  show ?thesis unfolding straggler(4) by (simp add: step_conforms_def)
next
  case (accepted e hw)
  let ?e = "e\<lparr>cs_span_hw := hw, cs_token := if cs_resume_policy e = Resume then Some (dr_cursor (last rows)) else cs_token e\<rparr>"
  have "sub_entry_ok (su_live s) ?e"
    using sub_wf_entryD [OF assms accepted(2)] by (simp add: sub_entry_ok_def)
  from sub_wf_put [OF assms this, of channel] wire_view_keep [OF accepted(2), of ?e]
  show ?thesis unfolding accepted(7) by (simp add: step_conforms_def)
qed

lemma sub_step_conforms:
  assumes "sub_wf s" and "sub_legal s i"
  shows "\<exists>out. sub_step s i = Ret out \<and> step_conforms s i out"
proof (cases i)
  case (IAcquire channel depths policy)
  then show ?thesis using assms acquire_conforms [of s channel depths policy] by simp
next
  case (IRelease channel)
  then show ?thesis using assms release_conforms [of s channel] by simp
next
  case IAttached
  then show ?thesis using attached_conforms [OF assms(1)] by simp
next
  case IGoLive
  then show ?thesis using go_live_conforms [OF assms(1)] by simp
next
  case IResubscribe
  then show ?thesis using resubscribe_conforms [OF assms(1)] assms(2) by simp
next
  case IDetached
  then show ?thesis using detached_conforms [OF assms(1)] by simp
next
  case (IResult channel outcome n gap)
  then show ?thesis using result_conforms [OF assms(1), of channel outcome n gap] by simp
next
  case (IDeliver channel rows)
  then show ?thesis using deliver_conforms [OF assms(1), of channel rows] by simp
qed

interpretation sub_sys: contract_system sub_step sub_wf sub_legal
  by unfold_locales (metis sub_step_conforms step_conforms_def prod.collapse)

section \<open>Properties\<close>

text \<open>A whole session against the peer: no panic, and no frame the peer may treat as a violation.\<close>

fun session_conforms ::
  "subscriptions \<Rightarrow> (string \<Rightarrow> peer_state) \<Rightarrow> ('u, 't) sub_input list \<Rightarrow> bool" where
  "session_conforms s P [] = True"
| "session_conforms s P (i # is) =
     (case sub_step s i of
        Panic \<Rightarrow> False
      | Ret (s', frames) \<Rightarrow>
          (case peer_frames frames (peer_input i P) of
             None \<Rightarrow> False
           | Some P' \<Rightarrow> P' = wire_view s' \<and> session_conforms s' P' is))"

lemma session_conforms_from:
  "sub_wf s \<Longrightarrow> legal_run sub_step sub_legal s is \<Longrightarrow> session_conforms s (wire_view s) is"
proof (induction "is" arbitrary: s)
  case (Cons i "is")
  have "sub_legal s i" using Cons.prems(2) by simp
  then obtain s' frames where st: "sub_step s i = Ret (s', frames)" "step_conforms s i (s', frames)"
    using sub_step_conforms [OF Cons.prems(1)] by (metis surj_pair)
  have "legal_run sub_step sub_legal s' is" using Cons.prems(2) st(1) by simp
  moreover have "sub_wf s'" using st(2) by (simp add: step_conforms_def)
  ultimately have "session_conforms s' (wire_view s') is" by (rule Cons.IH [rotated])
  then show ?case using st by (simp add: step_conforms_def)
qed simp

text \<open>C4. The plane is a conforming client whatever its peer does. From a fresh plane, under any
  interleaving of acquisitions and releases that keep the embedder's documented duties, of attaches
  and detaches, and of arbitrary subscribe results and deliveries from the peer, nothing panics; a
  channel is never subscribed while a subscription of it is requested or open, never unsubscribed
  unless it is open, also when it was released or restated while its request was in flight; and what
  the plane believes of every channel is what the peer holds of it.\<close>

theorem subs_session_conforms:
  "legal_run sub_step sub_legal subs_new (is :: ('u, 't) sub_input list) \<Longrightarrow> session_conforms subs_new (\<lambda>_. Closed) is"
proof -
  assume l: "legal_run sub_step sub_legal subs_new is"
  have "wire_view subs_new = (\<lambda>_. Closed)" by (simp add: fun_eq_iff wire_view_def subs_new_def)
  then show ?thesis using session_conforms_from [OF sub_wf_new l] by simp
qed

theorem subs_session_conforms_witness:
  "session_conforms subs_new (\<lambda>_. Closed)
     ([IGoLive, IAcquire ''brenn:a'' \<lparr>sd_push_depth = 1, sd_retain_depth = 0\<rparr> Resume, IRelease ''brenn:a'',
       IAcquire ''brenn:a'' \<lparr>sd_push_depth = 2, sd_retain_depth = 0\<rparr> Resume,
       IResult ''brenn:a'' SubscribeOk 0 None] :: (unit, unit) sub_input list)"
proof (rule subs_session_conforms)
  have "\<not> is_local_channel ''brenn:a''" by code_simp
  then show "legal_run sub_step sub_legal subs_new
     ([IGoLive, IAcquire ''brenn:a'' \<lparr>sd_push_depth = 1, sd_retain_depth = 0\<rparr> Resume, IRelease ''brenn:a'',
       IAcquire ''brenn:a'' \<lparr>sd_push_depth = 2, sd_retain_depth = 0\<rparr> Resume,
       IResult ''brenn:a'' SubscribeOk 0 None] :: (unit, unit) sub_input list)"
    by (simp add: subs_acquire_def subs_release_def subs_new_def go_live_def subscribe_frame_eq subs_refcount_def
        forget_if_spent_def on_subscribe_result_def u32_max_def split: prod.split)
qed

lemma span_scan_Inr:
  "span_scan hw rows = Inr hw' \<longleftrightarrow>
     sorted_wrt (<) (case hw of None \<Rightarrow> map dr_seq rows | Some q \<Rightarrow> q # map dr_seq rows) \<and>
     hw' = (if rows = [] then hw else Some (dr_seq (last rows)))"
proof (induction rows arbitrary: hw)
  case Nil
  then show ?case by (auto split: option.split)
next
  case (Cons row rows)
  show ?case using Cons [of "Some (dr_seq row)"] by (auto split: option.splits) (meson linorder_not_le order.strict_trans)+
qed

text \<open>A delivery pass is taken whole or not at all. An accepted pass is on an open subscription,
  its numbers are strictly increasing and above everything accepted on the span before, its loss is
  on its first row only; the span then stands at the last row's number and the cursor to present next
  is the last row's. A discarded straggler moves neither span nor cursor, and a refused pass leaves
  the plane exactly as it was.\<close>

lemma deliver_all_or_nothing:
  fixes rows :: "('u, 't) deliver_row list"
  shows "case on_deliver channel rows s of
     (s', Inl err) \<Rightarrow> s' = s
   | (s', Inr (Discard first dropped)) \<Rightarrow>
       (\<exists>e. map_of (su_channels s) channel = Some e \<and> cs_wire e \<noteq> Active \<and> cs_has_been_active e \<and>
            first = (\<not> cs_straggler_reported e) \<and>
            s' = s\<lparr>su_channels := bt_insert channel (e\<lparr>cs_straggler_reported := True\<rparr>) (su_channels s)\<rparr>)
   | (s', Inr (Accept dropped)) \<Rightarrow>
       (\<exists>e. map_of (su_channels s) channel = Some e \<and> cs_wire e = Active \<and> rows \<noteq> [] \<and>
            sorted_wrt (<) (case cs_span_hw e of None \<Rightarrow> map dr_seq rows | Some q \<Rightarrow> q # map dr_seq rows) \<and>
            map dr_dropped rows = dropped # replicate (length rows - 1) 0 \<and>
            map_of (su_channels s') channel =
              Some (e\<lparr>cs_span_hw := Some (dr_seq (last rows)),
                      cs_token := if cs_resume_policy e = Resume then Some (dr_cursor (last rows)) else cs_token e\<rparr>))"
proof (cases channel rows s rule: deliver_cases)
  case (refused err)
  then show ?thesis by simp
next
  case (straggler e)
  then show ?thesis by auto
next
  case (accepted e hw)
  obtain head rest where rows: "rows = head # rest" using accepted(1) by (cases rows) auto
  have "map dr_dropped rest = replicate (length rest) 0"
    using accepted(5) rows by (simp add: map_replicate_const [symmetric])
  moreover have "sorted_wrt (<) (case cs_span_hw e of None \<Rightarrow> map dr_seq rows | Some q \<Rightarrow> q # map dr_seq rows)"
    "hw = Some (dr_seq (last rows))" using accepted(1,6) by (simp_all add: span_scan_Inr)
  ultimately show ?thesis using accepted(2,4) rows unfolding accepted(7) by (simp add: bt.get_put)
qed

lemma resubscribe_loop_all:
  "\<forall>(channel, e)\<in>set cs. 0 < cs_refcount e \<and> cs_wire e = Unsubscribed \<Longrightarrow>
     snd (resubscribe_loop cs) = map (\<lambda>(channel, e). snd (subscribe_frame channel e)) cs"
  by (induction cs) (auto simp: split_beta Let_def)

text \<open>C34. A transport blip is lossless for whoever still holds a channel. A detach followed by an
  attach sends exactly one \<open>Subscribe\<close> per held channel, in address order, each with the depths
  stated for it and the last cursor accepted on it, or no resume claim where the policy is
  cursorless; a channel nobody holds is neither resubscribed nor remembered.\<close>

theorem reattach_resumes_held:
  "case on_attached (subs_on_detached s) of (s', frames) \<Rightarrow>
     frames = map (\<lambda>(channel, e). Subscribe channel (sd_push_depth (cs_depths e)) (sd_retain_depth (cs_depths e))
                       (case cs_resume_policy e of Resume \<Rightarrow> cs_token e | Cursorless \<Rightarrow> None))
                  (filter (\<lambda>(_, e). 0 < cs_refcount e) (su_channels s)) \<and>
     map fst (su_channels s') = held_channels s"
proof (cases "on_attached (subs_on_detached s) :: _ \<times> 'a client_frame list")
  case a: (Pair s' frames)
  define cs where "cs = su_channels (subs_on_detached s)"
  have cs: "cs = map (\<lambda>(channel, e). (channel, e\<lparr>cs_wire := Unsubscribed, cs_span_hw := None,
      cs_has_been_active := False, cs_straggler_reported := False\<rparr>)) (filter (\<lambda>(_, e). cs_refcount e > 0) (su_channels s))"
    by (simp add: cs_def subs_on_detached_def Let_def)
  have f: "frames = snd (resubscribe_loop cs)" "su_channels s' = fst (resubscribe_loop cs :: _ \<times> 'a client_frame list)"
    using a by (auto simp: on_attached_def resubscribe_survivors_def go_live_def cs_def split_beta Let_def)
  have "\<forall>(channel, e)\<in>set cs. 0 < cs_refcount e \<and> cs_wire e = Unsubscribed" unfolding cs by auto
  from resubscribe_loop_all [OF this]
  have "frames = map (\<lambda>(channel, e). snd (subscribe_frame channel e)) cs" using f(1) by simp
  moreover have "map fst (su_channels s') = map fst cs" unfolding f(2) by (rule resubscribe_loop_keys)
  ultimately show ?thesis
    unfolding a cs by (auto simp: subscribe_frame_eq held_channels_def split: resume_policy.split)
qed

end
