(* ===== verification/Attach_Server.thy ===== *)
theory Attach_Server
  imports Attach_Publish Subscriptions
begin

text \<open>
  One attach session on the server from its opening to its end, from \<^verbatim>\<open>attach/server/src/socket.rs\<close> (the
  handshake and the welcome) and \<^verbatim>\<open>attach/server/src/session.rs\<close> (the opening sequence and the read
  loop, each arm of its \<^verbatim>\<open>select!\<close> an event). The socket is the list of messages that arrive; a read
  error arrives classified; silence past the handshake's deadline is the end of the list.

  Here are the definitions; what a session delivers over its whole life is shown in \<open>Delivery\<close>.
\<close>

section \<open>The handshake\<close>

datatype inbound_error = Oversized | Transport string

datatype ws_message = WsText string | WsBinary | WsPing | WsPong | WsClose | WsEnd | WsError inbound_error

datatype handshake = Agreed nat | Incompatible version_range | HsViolation string | HsDisconnect

definition hello_timeout_secs :: nat where
  "hello_timeout_secs = 30"

definition server_hello :: "string \<Rightarrow> ('u, 't) server_frame" where
  "server_hello ident = SHello supported_versions ident"

definition classify_hello :: "(string \<Rightarrow> 'u client_frame option) \<Rightarrow> string \<Rightarrow> handshake" where
  "classify_hello parse json =
     (case parse json of
        None \<Rightarrow> HsViolation ''unparseable client frame before Hello''
      | Some (CHello versions ident) \<Rightarrow>
          (case negotiate supported_versions versions of
             Some version \<Rightarrow> Agreed version
           | None \<Rightarrow> Incompatible versions)
      | Some _ \<Rightarrow> HsViolation ''first client frame is not Hello'')"

fun next_hello :: "(string \<Rightarrow> 'u client_frame option) \<Rightarrow> ws_message list \<Rightarrow> handshake option" where
  "next_hello parse [] = None"
| "next_hello parse (WsText json # ms) = Some (classify_hello parse json)"
| "next_hello parse (WsPing # ms) = next_hello parse ms"
| "next_hello parse (WsPong # ms) = next_hello parse ms"
| "next_hello parse (WsBinary # ms) = Some (HsViolation ''binary frame before Hello'')"
| "next_hello parse (WsClose # ms) = Some HsDisconnect"
| "next_hello parse (WsEnd # ms) = Some HsDisconnect"
| "next_hello parse (WsError Oversized # ms) = Some (HsViolation ''inbound frame exceeds size cap'')"
| "next_hello parse (WsError (Transport detail) # ms) = Some HsDisconnect"

definition read_client_hello :: "(string \<Rightarrow> 'u client_frame option) \<Rightarrow> ws_message list \<Rightarrow> handshake" where
  "read_client_hello parse ms =
     (case next_hello parse ms of
        Some verdict \<Rightarrow> verdict
      | None \<Rightarrow> HsViolation (''no Hello within '' @ decimal hello_timeout_secs @ ''s of upgrade''))"

definition welcome_of :: "nat \<Rightarrow> ('u \<Rightarrow> string) \<Rightarrow> ('u, 'g) session_ctx \<Rightarrow> nat \<Rightarrow> nat \<Rightarrow> ('u, 't) server_frame exec" where
  "welcome_of usize_max id_simple cx version heartbeat_secs = exec_map (\<lambda>max_frame.
     Welcome \<lparr>wf_version = version, wf_participant_id = pf_attacher (cx_profile cx), wf_session_id = id_simple (cx_session_id cx),
       wf_heartbeat_secs = heartbeat_secs, wf_max_body_bytes = cx_max_body_bytes cx, wf_max_frame_bytes = max_frame,
       wf_alert_granted = pf_alert_granted (cx_profile cx)\<rparr>)
     (max_client_frame_bytes usize_max (cx_max_body_bytes cx))"

datatype opening_end = Attached | OpeningClosed "string option"

definition open_attachment ::
  "nat \<Rightarrow> ('u \<Rightarrow> string) \<Rightarrow> ('u, 'g) session_ctx \<Rightarrow> (string \<Rightarrow> 'u client_frame option) \<Rightarrow> nat \<Rightarrow> string \<Rightarrow> ws_message list
   \<Rightarrow> ('u, 't) attach_world \<Rightarrow> 'u session_state \<Rightarrow> (('u, 't) attach_world \<times> 'u session_state \<times> opening_end) exec" where
  "open_attachment usize_max id_simple cx parse heartbeat_secs ident ms w s =
     (case send_frame (server_hello ident) w s of
        (w, s, Disconnect) \<Rightarrow> Ret (w, s, OpeningClosed None)
      | (w, s, _) \<Rightarrow>
     (case read_client_hello parse ms of
        Incompatible peer \<Rightarrow> Ret (w, s, OpeningClosed None)
      | HsViolation rule \<Rightarrow> Ret (w, s, OpeningClosed (Some (violation_detail cx rule)))
      | HsDisconnect \<Rightarrow> Ret (w, s, OpeningClosed None)
      | Agreed version \<Rightarrow>
     exec_bind (welcome_of usize_max id_simple cx version heartbeat_secs) (\<lambda>frame.
      case send_frame frame w s of
        (w, s, Continue) \<Rightarrow>
          exec_map (\<lambda>(w, s, out). if out = Continue then (w, s, Attached) else (w, s, OpeningClosed None))
            (seed_deferred_views cx w s)
      | (w, s, _) \<Rightarrow> Ret (w, s, OpeningClosed None))))"

section \<open>The read loop\<close>

record close_reason =
  cr_code :: nat
  cr_detail :: string

datatype read_exit = ExitPeer | ExitViolation string | ExitHostClose close_reason

datatype ('u, 't) session_event =
    EvPush "('u, 't) session_push list"
  | EvNudge "('u, 't) session_push list"
  | EvMessage ws_message "nat \<Rightarrow> 't"
  | EvHostClose "close_reason option"
  | EvTick

record ('u, 't) session_loop =
  lo_world :: "('u, 't) attach_world"
  lo_state :: "'u session_state"
  lo_last_inbound :: nat
  lo_exit :: "read_exit option"

definition after_send :: "('u, 't) session_loop \<Rightarrow> ('u, 't) session_result \<Rightarrow> ('u, 't) session_loop exec" where
  "after_send l r = exec_map (\<lambda>(w, s, out).
     l\<lparr>lo_world := w, lo_state := s, lo_exit := (if out = Disconnect then Some ExitPeer else None)\<rparr>) r"

definition after_frame :: "nat \<Rightarrow> ('u, 't) session_loop \<Rightarrow> ('u, 't) session_result \<Rightarrow> ('u, 't) session_loop exec" where
  "after_frame at l r = exec_map (\<lambda>(w, s, out).
     case out of
       Continue \<Rightarrow> l\<lparr>lo_world := w, lo_state := s, lo_last_inbound := at\<rparr>
     | Violation detail \<Rightarrow> l\<lparr>lo_world := w, lo_state := s, lo_exit := Some (ExitViolation detail)\<rparr>
     | Disconnect \<Rightarrow> l\<lparr>lo_world := w, lo_state := s, lo_exit := Some ExitPeer\<rparr>) r"

definition count_frame_in :: "'u session_state \<Rightarrow> 'u session_state" where
  "count_frame_in s = map_counters (\<lambda>c. c\<lparr>ct_frames_in := ct_frames_in c + 1\<rparr>) s"

definition read_event ::
  "('u, 'g) session_ctx \<Rightarrow> (string \<Rightarrow> 'u client_frame option) \<Rightarrow> ('u \<Rightarrow> string) \<Rightarrow> nat \<Rightarrow> nat
   \<Rightarrow> ('u, 't::linorder) session_event \<Rightarrow> ('u, 't) session_loop \<Rightarrow> ('u, 't) session_loop exec" where
  "read_event cx parse id_text heartbeat at ev l =
     (let w = lo_world l; s = lo_state l in
      case ev of
        EvPush pushes \<Rightarrow> after_send l (send_session_pushes cx pushes w s)
      | EvNudge pushes \<Rightarrow>
          exec_bind (if pushes = [] then Ret (w, s, Continue) else send_session_pushes cx pushes w s) (\<lambda>(w, s, out).
            if out = Disconnect then after_send l (Ret (w, s, Disconnect)) else after_send l (drain_all cx w s))
      | EvMessage m clk \<Rightarrow>
          (case m of
             WsText json \<Rightarrow> after_frame at l (handle_client_frame cx parse id_text at clk json w (count_frame_in s))
           | WsBinary \<Rightarrow> Ret (l\<lparr>lo_exit := Some (ExitViolation (violation_detail cx ''binary frame''))\<rparr>)
           | WsPing \<Rightarrow> Ret (l\<lparr>lo_last_inbound := at\<rparr>)
           | WsPong \<Rightarrow> Ret (l\<lparr>lo_last_inbound := at\<rparr>)
           | WsClose \<Rightarrow> Ret (l\<lparr>lo_exit := Some ExitPeer\<rparr>)
           | WsEnd \<Rightarrow> Ret (l\<lparr>lo_exit := Some ExitPeer\<rparr>)
           | WsError Oversized \<Rightarrow>
               Ret (l\<lparr>lo_exit := Some (ExitViolation (violation_detail cx ''inbound frame exceeds size cap''))\<rparr>)
           | WsError (Transport detail) \<Rightarrow> Ret (l\<lparr>lo_exit := Some ExitPeer\<rparr>))
      | EvHostClose reason \<Rightarrow>
          Ret (case reason of None \<Rightarrow> l | Some r \<Rightarrow> l\<lparr>lo_exit := Some (ExitHostClose r)\<rparr>)
      | EvTick \<Rightarrow>
          Ret (if heartbeat * 3 < at - lo_last_inbound l then l\<lparr>lo_exit := Some ExitPeer\<rparr> else l))"

end
