(* ===== verification/Session_Books.thy ===== *)
theory Session_Books
  imports Attach_Server Ring_Store
begin

text \<open>
  The books of an attach session: what its handlers rely on and keep, one lemma per operation of
  \<^verbatim>\<open>attach/server/src/{subscription,publish,session}.rs\<close>. A channel's deliveries since its subscription
  was answered are read off the frames sent; the books balance when they account for every
  position between the subscription's start and the session's wire cursor (\<open>span_ok\<close>). The stores
  behind the session are honest about the history of their channel (\<open>honest_store\<close>), as every
  ring store is (\<open>ring_store_honest\<close>).
\<close>

section \<open>Chains of positions\<close>

text \<open>Rows from position \<open>p\<close> to position \<open>e\<close>, each a position and a drop count. On a pushed subscription a row's
  drop count is exactly the number of positions it skips; a quiet one skips silently.\<close>

fun chained :: "bool \<Rightarrow> nat \<Rightarrow> (nat \<times> nat) list \<Rightarrow> nat \<Rightarrow> bool" where
  "chained pushed p [] e \<longleftrightarrow> p = e"
| "chained pushed p ((q, dropped) # rows) e \<longleftrightarrow>
     (if pushed then q = p + dropped + 1 else p < q \<and> dropped = 0) \<and> chained pushed q rows e"

lemma chained_append: "chained pushed p (xs @ ys) e \<longleftrightarrow> (\<exists>m. chained pushed p xs m \<and> chained pushed m ys e)"
  by (induction pushed p xs e rule: chained.induct) auto

lemma chained_above: "chained pushed p rows e \<Longrightarrow> p \<le> e \<and> (\<forall>(q, d)\<in>set rows. p < q \<and> q \<le> e)"
  by (induction pushed p rows e rule: chained.induct) (fastforce split: if_splits)+

lemma chained_last: "chained pushed p rows e \<Longrightarrow> e = (if rows = [] then p else fst (last rows))"
  by (induction pushed p rows e rule: chained.induct) auto

text \<open>On a pushed chain nothing is lost in silence: rows and drops together cover every position passed.\<close>

lemma chained_covers: "chained True p rows e \<Longrightarrow> e = p + length rows + sum_list (map snd rows)"
  by (induction True p rows e rule: chained.induct) auto

section \<open>Honest stores\<close>

definition honest_store ::
  "('u, 't) message_envelope list \<Rightarrow> 'u \<Rightarrow> ('u resume option \<Rightarrow> depth \<Rightarrow> ('u, 't) store_replay) \<Rightarrow> bool" where
  "honest_store h ep f \<longleftrightarrow>
     (\<forall>cursor limit. honest_replay h cursor (min (length h) (case limit of Bounded d \<Rightarrow> d | Unbounded \<Rightarrow> length h)) (f cursor limit)
        \<and> sr_epoch (f cursor limit) = ep)"

lemma ring_store_honest:
  assumes "ring_of_history h (rc_ring (the_core s))" "length h < u64_max" "rr_epoch (rc_ring (the_core s)) = rst_epoch s"
  shows "honest_store h (rst_epoch s) (\<lambda>cursor limit. replay_from cursor limit s)"
proof -
  have "sr_epoch (replay_from cursor limit s) = rst_epoch s" for cursor limit
    by (simp add: replay_from_def rstore_replay_def clamp_replay_def assms(3) Let_def split: depth.split)
  then show ?thesis using replay_from_honest [OF assms] by (simp add: honest_store_def)
qed

lemma honest_tail:
  assumes "honest_store h ep f"
  shows "\<exists>k\<le>length h. sr_messages (f cursor limit) = drop k (numbered h)"
  using assms by (intro exI [of _ "length h - length (sr_messages (f cursor limit))"]) (simp add: honest_store_def honest_replay_def)

section \<open>Windows as chains\<close>

definition pass_positions :: "('u, 't) pass_row list \<Rightarrow> (nat \<times> nat) list" where
  "pass_positions = map (\<lambda>x. (pw_retained_seq x, pw_dropped x))"

definition pass_genuine :: "('u, 't) message_envelope list \<Rightarrow> ('u, 't) pass_row \<Rightarrow> bool" where
  "pass_genuine h x \<longleftrightarrow> 1 \<le> pw_retained_seq x \<and> pw_retained_seq x \<le> length h \<and> pw_envelope x = h ! (pw_retained_seq x - 1)"

lemma drain_rows_genuine: "\<forall>x\<in>set (drain_rows lost (drop k (numbered h))). pass_genuine h x"
proof -
  have g: "\<forall>r\<in>set ws. 1 \<le> r_seq r \<and> r_seq r \<le> length h \<and> r_message r = h ! (r_seq r - 1) \<Longrightarrow>
      \<forall>x\<in>set (drain_rows lost ws). pass_genuine h x" for ws
    by (induction lost ws rule: drain_rows.induct) (auto simp: pass_genuine_def)
  show ?thesis by (rule g) (auto simp: in_set_conv_nth numbered_nth)
qed

lemma drain_rows_late: "\<forall>x\<in>set (tl (drain_rows lost ws)). pw_dropped x = 0"
proof -
  have z: "\<forall>x\<in>set (drain_rows 0 ws). pw_dropped x = 0" for ws :: "('a, 'b) message_envelope retained list"
    by (induction "0::nat" ws rule: drain_rows.induct) auto
  show ?thesis by (cases ws) (simp_all add: z)
qed

lemma drain_rows_Nil [simp]: "drain_rows lost ws = [] \<longleftrightarrow> ws = []"
  by (cases ws) auto

lemma drain_rows_chained:
  assumes "k < length h" "p \<le> k" "lost = (if pushed then k - p else 0)"
  shows "chained pushed p (pass_positions (drain_rows lost (drop k (numbered h)))) (length h)"
  using assms
proof (induction "length h - k" arbitrary: k p lost)
  case (Suc n)
  have d: "drop k (numbered h) = numbered h ! k # drop (Suc k) (numbered h)" using Suc.prems(1) by (simp add: Cons_nth_drop_Suc)
  have "chained pushed (Suc k) (pass_positions (drain_rows 0 (drop (Suc k) (numbered h)))) (length h)"
  proof (cases "Suc k < length h")
    case True
    then show ?thesis using Suc.hyps(2) by (intro Suc.hyps(1)) auto
  next
    case False
    then show ?thesis using Suc.prems(1) by (simp add: pass_positions_def)
  qed
  then show ?case using Suc.prems unfolding d by (auto simp: pass_positions_def numbered_nth)
qed simp

lemma drain_window_suffix:
  assumes "honest_replay h (Some \<lparr>rs_epoch = ep, rs_seq = p\<rparr>) n r" "p \<le> length h"
  shows "\<exists>k\<ge>p. drain_window facts \<lparr>rs_epoch = ep, rs_seq = p\<rparr> r =
    (drop k (numbered h), if k < length h \<and> facts_push_enabled facts then k - p else 0)"
proof -
  define j where "j = length h - length (sr_messages r)"
  have j: "sr_messages r = drop j (numbered h)" using assms(1) by (simp add: honest_replay_def j_def)
  show ?thesis
  proof (cases "sr_decision r")
    case Fresh
    then show ?thesis using assms(1) by (simp add: honest_replay_def)
  next
    case UpToDate
    then show ?thesis using assms by (intro exI [of _ "length h"]) (auto simp: honest_replay_def drain_window_def)
  next
    case Exact
    then show ?thesis using assms by (intro exI [of _ p]) (auto simp: honest_replay_def drain_window_def)
  next
    case (Gap reason)
    have "filter (\<lambda>e. p < r_seq e) (drop j (numbered h)) = drop (max j p) (numbered h)"
    proof -
      have "drop j (numbered h) = filter (\<lambda>e. j < r_seq e) (numbered h)" by (rule numbered_above [symmetric])
      then have "filter (\<lambda>e. p < r_seq e) (drop j (numbered h)) = filter (\<lambda>e. max j p < r_seq e) (numbered h)"
        by (simp only: filter_filter) (rule filter_cong, auto)
      then show ?thesis by (simp only: numbered_above)
    qed
    moreover have "(case drop (max j p) (numbered h) of [] \<Rightarrow> 0 | e # _ \<Rightarrow> r_seq e - p - 1) =
        (if max j p < length h then max j p - p else 0)"
      by (cases "max j p < length h") (auto simp: Cons_nth_drop_Suc [symmetric] numbered_nth)
    ultimately show ?thesis using Gap j
      by (intro exI [of _ "max j p"]) (simp add: drain_window_def gap_suffix_def Let_def)
  qed
qed

section \<open>Spans on the wire\<close>

text \<open>The deliveries of a channel's current span, read off the frames sent: those since its subscription was last
  answered with \<open>SubscribeOk\<close>.\<close>

fun span_frame ::
  "string \<Rightarrow> ('u, 't) server_frame \<Rightarrow> ('u, 't) deliver_row list list \<Rightarrow> ('u, 't) deliver_row list list" where
  "span_frame ch (SubscribeResult c SubscribeOk n gap) passes = (if c = ch then [] else passes)"
| "span_frame ch (Deliver c rows) passes = (if c = ch then passes @ [rows] else passes)"
| "span_frame ch _ passes = passes"

definition span_passes :: "string \<Rightarrow> ('u, 't) server_frame list \<Rightarrow> ('u, 't) deliver_row list list" where
  "span_passes ch out = fold (span_frame ch) out []"

definition row_pos :: "'u cursor_json \<Rightarrow> ('u, 't) deliver_row \<Rightarrow> nat" where
  "row_pos J row = (case cursor_parse J (dr_cursor row) of Inl e \<Rightarrow> 0 | Inr state \<Rightarrow> rs_seq (cu_resume state))"

definition row_genuine ::
  "'u cursor_json \<Rightarrow> int \<Rightarrow> ('u, 't) message_envelope list \<Rightarrow> 'u \<Rightarrow> string \<Rightarrow> ('u, 't) deliver_row \<Rightarrow> bool" where
  "row_genuine J inc h ep ch row \<longleftrightarrow>
     (let q = row_pos J row in
      1 \<le> q \<and> q \<le> length h \<and> dr_envelope row = h ! (q - 1) \<and>
      cursor_parse J (dr_cursor row) = Inr \<lparr>cu_incarnation = inc, cu_channel = ch, cu_resume = \<lparr>rs_epoch = ep, rs_seq = q\<rparr>\<rparr>)"

definition pass_shape :: "('u, 't) deliver_row list \<Rightarrow> bool" where
  "pass_shape rows \<longleftrightarrow> rows \<noteq> [] \<and> (\<forall>row\<in>set (tl rows). dr_dropped row = 0)"

definition row_positions :: "'u cursor_json \<Rightarrow> ('u, 't) deliver_row list \<Rightarrow> (nat \<times> nat) list" where
  "row_positions J = map (\<lambda>row. (row_pos J row, dr_dropped row))"

text \<open>The ledger of a span that has come to position \<open>p\<close>: \<open>base\<close> is the position the subscription resumed from,
  where it resumed without a gap.\<close>

definition span_ledger ::
  "'u cursor_json \<Rightarrow> int \<Rightarrow> ('u, 't) message_envelope list \<Rightarrow> 'u \<Rightarrow> nat option \<Rightarrow> string \<Rightarrow> bool
   \<Rightarrow> ('u, 't) deliver_row list list \<Rightarrow> nat \<Rightarrow> bool" where
  "span_ledger J inc h ep base ch pushed passes p \<longleftrightarrow>
     map dr_seq (concat passes) = [1..<Suc (length (concat passes))] \<and>
     list_all pass_shape passes \<and>
     list_all (row_genuine J inc h ep ch) (concat passes) \<and>
     (\<exists>b. (base = None \<or> base = Some b) \<and> chained pushed b (row_positions J (concat passes)) p) \<and>
     p \<le> length h"

definition span_ok ::
  "'u cursor_json \<Rightarrow> ('u, 't) message_envelope list \<Rightarrow> 'u \<Rightarrow> nat option \<Rightarrow> string \<Rightarrow> subscription_facts
   \<Rightarrow> ('u, 't) server_frame list \<Rightarrow> 'u wire_cursors \<Rightarrow> bool" where
  "span_ok J h ep base ch facts out c \<longleftrightarrow>
     map_of (wc_span_seq c) ch = Some (length (concat (span_passes ch out))) \<and>
     (\<exists>p. pos_of ch c = Some \<lparr>rs_epoch = ep, rs_seq = p\<rparr> \<and>
        span_ledger J (wc_incarnation c) h ep base ch (facts_push_enabled facts) (span_passes ch out) p)"

lemma span_passes_snoc: "span_passes ch (out @ [f]) = span_frame ch f (span_passes ch out)"
  by (simp add: span_passes_def)

lemma row_genuine_grow: "row_genuine J inc h ep ch row \<Longrightarrow> row_genuine J inc (h @ h') ep ch row"
  by (auto simp: row_genuine_def Let_def nth_append)

lemma span_ok_grow: "span_ok J h ep base ch facts out c \<Longrightarrow> prefix h h' \<Longrightarrow> span_ok J h' ep base ch facts out c"
  by (fastforce simp: span_ok_def span_ledger_def prefix_def list_all_iff intro: row_genuine_grow)

lemma span_ok_cong:
  assumes "span_ok J h ep base ch facts out c" "span_passes ch out' = span_passes ch out"
    "map_of (wc_span_seq c') ch = map_of (wc_span_seq c) ch" "pos_of ch c' = pos_of ch c" "wc_incarnation c' = wc_incarnation c"
  shows "span_ok J h ep base ch facts out' c'"
  using assms by (simp add: span_ok_def)

section \<open>Minting a pass\<close>

fun minted_rows ::
  "'u cursor_json \<Rightarrow> int \<Rightarrow> string \<Rightarrow> 'u \<Rightarrow> nat \<Rightarrow> ('u, 't) pass_row list \<Rightarrow> ('u, 't) deliver_row list" where
  "minted_rows J inc ch ep n [] = []"
| "minted_rows J inc ch ep n (x # xs) =
     \<lparr>dr_envelope = pw_envelope x, dr_seq = Suc n, dr_cursor = cursor_mint J inc ch \<lparr>rs_epoch = ep, rs_seq = pw_retained_seq x\<rparr>,
      dr_dropped = pw_dropped x\<rparr> # minted_rows J inc ch ep (Suc n) xs"

lemma minted_rows_length [simp]: "length (minted_rows J inc ch ep n xs) = length xs"
  by (induction xs arbitrary: n) auto

lemma minted_seqs: "map dr_seq (minted_rows J inc ch ep n xs) = [Suc n..<Suc n + length xs]"
  by (induction xs arbitrary: n) (auto simp: upt_rec)

lemma minted_Nil [simp]: "minted_rows J inc ch ep n xs = [] \<longleftrightarrow> xs = []"
  by (cases xs) auto

lemma minted_late: "\<forall>x\<in>set (tl xs). pw_dropped x = 0 \<Longrightarrow> \<forall>row\<in>set (tl (minted_rows J inc ch ep n xs)). dr_dropped row = 0"
proof -
  have z: "\<forall>x\<in>set xs. pw_dropped x = 0 \<Longrightarrow> \<forall>row\<in>set (minted_rows J inc ch ep n xs). dr_dropped row = 0" for n and xs :: "('a, 'b) pass_row list"
    by (induction xs arbitrary: n) auto
  assume "\<forall>x\<in>set (tl xs). pw_dropped x = 0"
  then show ?thesis by (cases xs) (simp_all add: z)
qed

lemma minted_genuine:
  assumes "json_ok J"
  shows "\<forall>x\<in>set xs. pass_genuine h x \<Longrightarrow> list_all (row_genuine J inc h ep ch) (minted_rows J inc ch ep n xs)"
    and "row_positions J (minted_rows J inc ch ep n xs) = pass_positions xs"
  by (induction xs arbitrary: n)
    (simp_all add: row_genuine_def row_pos_def row_positions_def pass_positions_def pass_genuine_def cursor_round_trip [OF assms] Let_def)

lemma mint_rows_minted:
  assumes "map_of (wc_span_seq c) ch = Some n" "pos_of ch c = Some \<lparr>rs_epoch = ep, rs_seq = p\<rparr>"
    and "chained pushed b (pass_positions xs) e" "p \<le> b"
  shows "\<exists>c'. mint_rows J ch xs c = Ret (c', minted_rows J (wc_incarnation c) ch ep n xs) \<and>
    map_of (wc_span_seq c') = (map_of (wc_span_seq c))(ch \<mapsto> n + length xs) \<and>
    map_of (wc_pos c') = (map_of (wc_pos c))(ch \<mapsto> \<lparr>rs_epoch = ep, rs_seq = if xs = [] then p else e\<rparr>) \<and>
    wc_incarnation c' = wc_incarnation c"
  using assms
proof (induction xs arbitrary: c n p b)
  case Nil
  then show ?case by (auto simp: pos_of_def fun_upd_idem)
next
  case (Cons x xs)
  let ?q = "pw_retained_seq x"
  have ch: "chained pushed ?q (pass_positions xs) e" and q: "p < ?q"
    using Cons.prems(3,4) by (auto simp: pass_positions_def split: if_splits)
  define c1 where "c1 = c\<lparr>wc_span_seq := AList.update ch (n + 1) (wc_span_seq c),
    wc_pos := AList.update ch \<lparr>rs_epoch = ep, rs_seq = ?q\<rparr> (wc_pos c)\<rparr>"
  have n: "cursors_next J ch ?q c = Ret (c1, n + 1, cursor_mint J (wc_incarnation c) ch \<lparr>rs_epoch = ep, rs_seq = ?q\<rparr>)"
    using Cons.prems(1,2) q by (simp add: cursors_next_def next_span_seq_def pos_of_def c1_def max_absorb2 Let_def)
  have "\<exists>c'. mint_rows J ch xs c1 = Ret (c', minted_rows J (wc_incarnation c1) ch ep (Suc n) xs) \<and>
    map_of (wc_span_seq c') = (map_of (wc_span_seq c1))(ch \<mapsto> Suc n + length xs) \<and>
    map_of (wc_pos c') = (map_of (wc_pos c1))(ch \<mapsto> \<lparr>rs_epoch = ep, rs_seq = if xs = [] then ?q else e\<rparr>) \<and>
    wc_incarnation c' = wc_incarnation c1"
    by (rule Cons.IH [OF _ _ ch]) (simp_all add: c1_def pos_of_def update_conv')
  moreover have "xs = [] \<Longrightarrow> ?q = e" using ch by (simp add: pass_positions_def)
  ultimately show ?case by (auto simp: n c1_def update_conv' fun_eq_iff)
qed

section \<open>The session's books\<close>

definition store_at ::
  "string \<Rightarrow> ('u, 't) attach_world \<Rightarrow> ('u resume option \<Rightarrow> depth \<Rightarrow> ('u, 't) store_replay) option" where
  "store_at ch w = map_option (\<lambda>entry. aw_replay w (ce_uuid entry)) (dir_resolve ch (aw_directory w))"

lemma store_for_address_at: "store_for_address ch w = (case store_at ch w of None \<Rightarrow> Panic | Some f \<Rightarrow> Ret f)"
  by (simp add: store_for_address_def store_at_def split: option.split)

definition stores_honest ::
  "(string \<Rightarrow> ('u, 't) message_envelope list) \<Rightarrow> (string \<Rightarrow> 'u) \<Rightarrow> ('u, 't) attach_world \<Rightarrow> bool" where
  "stores_honest H E w \<longleftrightarrow> (\<forall>ch f. store_at ch w = Some f \<longrightarrow> honest_store (H ch) (E ch) f)"

definition session_books ::
  "'u cursor_json \<Rightarrow> (string \<Rightarrow> ('u, 't) message_envelope list) \<Rightarrow> (string \<Rightarrow> 'u) \<Rightarrow> (string \<Rightarrow> nat option)
   \<Rightarrow> ('u, 't) attach_world \<Rightarrow> 'u session_state \<Rightarrow> bool" where
  "session_books J H E B w s \<longleftrightarrow>
     (\<forall>ch facts. active_facts ch (ss_active s) = Some facts \<longrightarrow>
        store_at ch w \<noteq> None \<and> span_ok J (H ch) (E ch) (B ch) ch facts (aw_out w) (ss_cursors s))"

lemma session_booksD:
  assumes "session_books J H E B w s" "active_facts ch (ss_active s) = Some facts"
  shows "\<exists>f. store_at ch w = Some f" and "span_ok J (H ch) (E ch) (B ch) ch facts (aw_out w) (ss_cursors s)"
  using assms by (auto simp: session_books_def)

text \<open>What a handler that opens and closes nothing keeps: it returns, its books still balance unless the writer is
  gone, and it touched neither the stores, the bus's answers nor the set of active channels.\<close>

definition serves ::
  "'u cursor_json \<Rightarrow> (string \<Rightarrow> ('u, 't) message_envelope list) \<Rightarrow> (string \<Rightarrow> 'u) \<Rightarrow> (string \<Rightarrow> nat option)
   \<Rightarrow> ('u, 't) attach_world \<Rightarrow> 'u session_state \<Rightarrow> ('u, 't) session_result \<Rightarrow> bool" where
  "serves J H E B w s r \<longleftrightarrow>
     (\<exists>w' s' out. r = Ret (w', s', out) \<and> (\<forall>ch. store_at ch w' = store_at ch w) \<and> aw_bus w' = aw_bus w \<and>
        ss_active s' = ss_active s \<and> (out \<noteq> Disconnect \<longrightarrow> session_books J H E B w' s'))"

lemma servesI:
  assumes "r = Ret (w', s', out)" "\<And>ch. store_at ch w' = store_at ch w" "aw_bus w' = aw_bus w" "ss_active s' = ss_active s"
    "out \<noteq> Disconnect \<Longrightarrow> session_books J H E B w' s'"
  shows "serves J H E B w s r"
  using assms by (simp add: serves_def)

lemma servesE:
  assumes "serves J H E B w s r"
  obtains w' s' out where "r = Ret (w', s', out)" "\<And>ch. store_at ch w' = store_at ch w" "aw_bus w' = aw_bus w"
    "ss_active s' = ss_active s" "out \<noteq> Disconnect \<Longrightarrow> session_books J H E B w' s'"
  using assms by (auto simp: serves_def)

lemma serves_still: "session_books J H E B w s \<Longrightarrow> serves J H E B w s (Ret (w, s, out))"
  by (rule servesI) auto

lemma serves_seq:
  assumes "serves J H E B w s r"
    and "\<And>w' s' out. \<lbrakk>r = Ret (w', s', out); \<And>ch. store_at ch w' = store_at ch w; aw_bus w' = aw_bus w;
      ss_active s' = ss_active s; out \<noteq> Disconnect \<Longrightarrow> session_books J H E B w' s'\<rbrakk> \<Longrightarrow> serves J H E B w' s' (k (w', s', out))"
  shows "serves J H E B w s (exec_bind r k)"
proof (rule servesE [OF assms(1)])
  fix w' s' out
  assume a: "r = Ret (w', s', out)" "\<And>ch. store_at ch w' = store_at ch w" "aw_bus w' = aw_bus w" "ss_active s' = ss_active s"
    "out \<noteq> Disconnect \<Longrightarrow> session_books J H E B w' s'"
  from assms(2) [OF this] show ?thesis
  proof (rule servesE)
    fix w'' s'' out'
    assume "k (w', s', out) = Ret (w'', s'', out')" "\<And>ch. store_at ch w'' = store_at ch w'" "aw_bus w'' = aw_bus w'"
      "ss_active s'' = ss_active s'" "out' \<noteq> Disconnect \<Longrightarrow> session_books J H E B w'' s''"
    with a show ?thesis by (intro servesI [of _ w'' s'' out']) simp_all
  qed
qed

section \<open>Sending\<close>

lemma send_frame_cases:
  obtains (gone) "aw_room w = Some 0" "send_frame f w s = (w, s, Disconnect)"
  | (sent) w' s' where "send_frame f w s = (w', s', Continue)" "aw_out w' = aw_out w @ [f]" "\<And>ch. store_at ch w' = store_at ch w"
      "aw_bus w' = aw_bus w" "ss_active s' = ss_active s" "ss_cursors s' = ss_cursors s" "aw_directory w' = aw_directory w"
      "aw_replay w' = aw_replay w" "ss_buckets s' = ss_buckets s" "aw_calls w' = aw_calls w"
proof (cases "aw_room w = Some 0")
  case True
  then show ?thesis by (intro gone) (auto simp: send_frame_def)
next
  case False
  show ?thesis
    by (rule sent [of "w\<lparr>aw_out := aw_out w @ [f], aw_room := map_option (\<lambda>n. n - 1) (aw_room w)\<rparr>"
          "s\<lparr>ss_counters := (ss_counters s)\<lparr>ct_frames_out := ct_frames_out (ss_counters s) + 1\<rparr>\<rparr>"])
      (use False in \<open>auto simp: send_frame_def store_at_def\<close>)
qed

text \<open>A frame of no span.\<close>

definition spanless :: "('u, 't) server_frame \<Rightarrow> bool" where
  "spanless f \<longleftrightarrow> (\<forall>ch passes. span_frame ch f passes = passes)"

lemma spanless_simps [simp]:
  "spanless (SHello v i)" "spanless (Welcome x)" "spanless Heartbeat" "spanless (SubscribeResult ch SubscribeUnavailable n g)"
  "spanless (PublishResult c p)" "spanless (PublishBatchResult n b)" "spanless (DeferredView ch a es)"
  by (simp_all add: spanless_def)

lemma session_books_cong:
  assumes "session_books J H E B w s" "ss_active s' = ss_active s" "ss_cursors s' = ss_cursors s"
    "\<And>ch. store_at ch w' = store_at ch w" "\<And>ch. span_passes ch (aw_out w') = span_passes ch (aw_out w)"
  shows "session_books J H E B w' s'"
  using assms by (simp add: session_books_def span_ok_def)

lemma serves_send_frame:
  assumes "session_books J H E B w s" "spanless f"
  shows "serves J H E B w s (Ret (send_frame f w s))"
proof (cases rule: send_frame_cases [of w f s])
  case gone
  then show ?thesis by (intro servesI) auto
next
  case (sent w' s')
  have "session_books J H E B w' s'"
    using assms sent by (intro session_books_cong [OF assms(1)]) (simp_all add: span_passes_snoc spanless_def)
  then show ?thesis using sent by (intro servesI [of _ w' s' Continue]) simp_all
qed

lemma span_ledger_extend:
  assumes "span_ledger J inc h ep base ch pushed passes p" "json_ok J" "xs \<noteq> []" "\<forall>x\<in>set xs. pass_genuine h x"
    "\<forall>x\<in>set (tl xs). pw_dropped x = 0" "chained pushed b (pass_positions xs) e" "b = p \<or> (base = None \<and> passes = [])"
  shows "span_ledger J inc h ep base ch pushed (passes @ [minted_rows J inc ch ep (length (concat passes)) xs]) e"
proof -
  let ?n = "length (concat passes)" and ?new = "minted_rows J inc ch ep (length (concat passes)) xs"
  have "[1..<Suc ?n] @ [Suc ?n..<Suc ?n + length xs] = [1..<Suc (?n + length xs)]"
    using upt_add_eq_append [of 1 "Suc ?n" "length xs"] by simp
  then have "map dr_seq (concat (passes @ [?new])) = [1..<Suc (length (concat (passes @ [?new])))]"
    using assms(1) by (simp add: span_ledger_def minted_seqs del: upt_Suc)
  moreover have "pass_shape ?new" using assms(3) minted_late [OF assms(5)] by (simp add: pass_shape_def)
  moreover have "list_all (row_genuine J inc h ep ch) ?new" by (rule minted_genuine(1) [OF assms(2,4)])
  moreover have "\<exists>b. (base = None \<or> base = Some b) \<and> chained pushed b (row_positions J (concat (passes @ [?new]))) e"
  proof (cases "b = p")
    case True
    obtain b0 where "base = None \<or> base = Some b0" "chained pushed b0 (row_positions J (concat passes)) p"
      using assms(1) by (auto simp: span_ledger_def)
    then show ?thesis using assms(6) True minted_genuine(2) [OF assms(2), of inc ch ep ?n xs]
      by (auto simp: row_positions_def chained_append)
  next
    case False
    then show ?thesis using assms(6,7) minted_genuine(2) [OF assms(2), of inc ch ep ?n xs] by (auto simp: row_positions_def)
  qed
  moreover have "e \<le> length h"
  proof -
    have "e = pw_retained_seq (last xs)" using chained_last [OF assms(6)] assms(3) by (simp add: pass_positions_def last_map)
    then show ?thesis using assms(3,4) last_in_set [of xs] by (auto simp: pass_genuine_def)
  qed
  ultimately show ?thesis using assms(1) by (simp add: span_ledger_def)
qed

lemma serves_send_pass:
  assumes "json_ok (cx_json cx)" "session_books (cx_json cx) H E B w s" "active_facts ch (ss_active s) = Some facts"
    and "pos_of ch (ss_cursors s) = Some \<lparr>rs_epoch = E ch, rs_seq = p\<rparr>" "xs \<noteq> []" "\<forall>x\<in>set xs. pass_genuine (H ch) x"
    and "\<forall>x\<in>set (tl xs). pw_dropped x = 0" "chained (facts_push_enabled facts) b (pass_positions xs) e"
    and "b = p \<or> (p \<le> b \<and> B ch = None \<and> span_passes ch (aw_out w) = [])"
  shows "serves (cx_json cx) H E B w s (send_pass cx ch xs w s)"
proof -
  let ?J = "cx_json cx" and ?c = "ss_cursors s" and ?ps = "span_passes ch (aw_out w)"
  note so = session_booksD(2) [OF assms(2,3), unfolded span_ok_def assms(4)]
  have "p \<le> b" using assms(9) by auto
  from so mint_rows_minted [OF _ assms(4) assms(8) this, of "length (concat ?ps)" ?J] obtain c' where
    c': "mint_rows ?J ch xs ?c = Ret (c', minted_rows ?J (wc_incarnation ?c) ch (E ch) (length (concat ?ps)) xs)"
      "map_of (wc_span_seq c') = (map_of (wc_span_seq ?c))(ch \<mapsto> length (concat ?ps) + length xs)"
      "map_of (wc_pos c') = (map_of (wc_pos ?c))(ch \<mapsto> \<lparr>rs_epoch = E ch, rs_seq = e\<rparr>)" "wc_incarnation c' = wc_incarnation ?c"
    using assms(5) by auto
  let ?rows = "minted_rows ?J (wc_incarnation ?c) ch (E ch) (length (concat ?ps)) xs"
  have sp: "send_pass cx ch xs w s = Ret (send_frame (Deliver ch ?rows) w (s\<lparr>ss_cursors := c'\<rparr>))"
    using assms(5) c'(1) by (simp add: send_pass_def)
  show ?thesis
  proof (cases rule: send_frame_cases [of w "Deliver ch ?rows" "s\<lparr>ss_cursors := c'\<rparr>"])
    case gone
    then show ?thesis using sp by (intro servesI [of _ w "s\<lparr>ss_cursors := c'\<rparr>" Disconnect]) auto
  next
    case (sent w' s')
    have "span_ok ?J (H ch') (E ch') (B ch') ch' facts' (aw_out w') (ss_cursors s')"
      if "active_facts ch' (ss_active s) = Some facts'" for ch' facts'
    proof (cases "ch' = ch")
      case True
      have "span_ledger ?J (wc_incarnation ?c) (H ch) (E ch) (B ch) ch (facts_push_enabled facts) (?ps @ [?rows]) e"
        using so by (intro span_ledger_extend [OF _ assms(1,5-8)]) (use assms(9) in auto)
      then show ?thesis using True that assms(3) sent c' by (simp add: span_ok_def span_passes_snoc pos_of_def)
    next
      case False
      then show ?thesis using sent c'
        by (intro span_ok_cong [OF session_booksD(2) [OF assms(2) that]]) (simp_all add: span_passes_snoc pos_of_def)
    qed
    then have "session_books ?J H E B w' s'" using sent assms(2) by (simp add: session_books_def)
    then show ?thesis using sp sent by (intro servesI [of _ w' s' Continue]) simp_all
  qed
qed

section \<open>Draining and live rows\<close>

lemma serves_drain_channel:
  assumes "json_ok (cx_json cx)" "stores_honest H E w" "session_books (cx_json cx) H E B w s" "active_facts ch (ss_active s) = Some facts"
  shows "serves (cx_json cx) H E B w s (drain_channel cx ch w s)"
proof -
  obtain f where f: "store_at ch w = Some f" using session_booksD(1) [OF assms(3,4)] by blast
  obtain p where p: "pos_of ch (ss_cursors s) = Some \<lparr>rs_epoch = E ch, rs_seq = p\<rparr>" "p \<le> length (H ch)"
    using session_booksD(2) [OF assms(3,4)] by (auto simp: span_ok_def span_ledger_def)
  have "honest_store (H ch) (E ch) f" using assms(2) f by (simp add: stores_honest_def)
  then obtain k where k: "p \<le> k" "drain_window facts \<lparr>rs_epoch = E ch, rs_seq = p\<rparr>
      (f (Some \<lparr>rs_epoch = E ch, rs_seq = p\<rparr>) (replay_clamp facts)) =
      (drop k (numbered (H ch)), if k < length (H ch) \<and> facts_push_enabled facts then k - p else 0)"
    using drain_window_suffix [OF _ p(2)] unfolding honest_store_def by blast
  show ?thesis
  proof (cases "k < length (H ch) \<and> allows_channel_access (cx_policy cx) ch")
    case True
    then have "drain_channel cx ch w s =
        send_pass cx ch (drain_rows (if facts_push_enabled facts then k - p else 0) (drop k (numbered (H ch)))) w s"
      using p assms(4) f k by (auto simp: drain_channel_def store_for_address_at Let_def)
    moreover have "serves (cx_json cx) H E B w s
        (send_pass cx ch (drain_rows (if facts_push_enabled facts then k - p else 0) (drop k (numbered (H ch)))) w s)"
      using True k(1) drain_rows_chained [of k "H ch" p _ "facts_push_enabled facts", OF _ k(1) refl]
      by (intro serves_send_pass [OF assms(1,3,4) p(1) _ drain_rows_genuine drain_rows_late, where b = p and e = "length (H ch)"]) auto
    ultimately show ?thesis by simp
  next
    case False
    then have "drain_channel cx ch w s = Ret (w, s, Continue)"
      using p assms(4) f k by (auto simp: drain_channel_def store_for_address_at Let_def)
    then show ?thesis using assms(3) by (simp add: serves_still)
  qed
qed

lemma serves_drain_list:
  assumes "json_ok (cx_json cx)" "stores_honest H E w" "session_books (cx_json cx) H E B w s" "\<forall>ch\<in>set chs. active_is ch (ss_active s)"
  shows "serves (cx_json cx) H E B w s (drain_list cx chs w s)"
  using assms(2-4)
proof (induction chs arbitrary: w s)
  case Nil
  then show ?case by (simp add: serves_still)
next
  case (Cons ch chs)
  obtain facts where f: "active_facts ch (ss_active s) = Some facts" using Cons.prems(3) by (auto simp: active_is_def active_facts_def)
  show ?case unfolding drain_list.simps
  proof (rule serves_seq [OF serves_drain_channel [OF assms(1) Cons.prems(1,2) f]])
    fix w' s' out
    assume a: "\<And>ch. store_at ch w' = store_at ch w" "ss_active s' = ss_active s" "out \<noteq> Disconnect \<Longrightarrow> session_books (cx_json cx) H E B w' s'"
    have "stores_honest H E w'" using Cons.prems(1) a(1) by (simp add: stores_honest_def)
    then show "serves (cx_json cx) H E B w' s'
        (case (w', s', out) of (w, s, out) \<Rightarrow> if out = Disconnect then Ret (w, s, Disconnect) else drain_list cx chs w s)"
      using Cons.IH [of w' s'] a Cons.prems(3) by (auto intro: servesI)
  qed
qed

lemma serves_drain_all:
  assumes "json_ok (cx_json cx)" "stores_honest H E w" "session_books (cx_json cx) H E B w s"
  shows "serves (cx_json cx) H E B w s (drain_all cx w s)"
  unfolding drain_all_def
  by (rule serves_drain_list [OF assms]) (force simp: active_is_def active_names_def map_of_eq_None_iff)

definition live_genuine ::
  "(string \<Rightarrow> ('u, 't) message_envelope list) \<Rightarrow> active_channels \<Rightarrow> ('u, 't) live_delivery \<Rightarrow> bool" where
  "live_genuine H a d \<longleftrightarrow>
     (let ch = me_channel (ld_envelope d); q = ld_retained_seq d in
      active_is ch a \<longrightarrow> 1 \<le> q \<and> q \<le> length (H ch) \<and> ld_envelope d = H ch ! (q - 1))"

lemma serves_send_live_one:
  assumes "json_ok (cx_json cx)" "stores_honest H E w" "session_books (cx_json cx) H E B w s" "live_genuine H (ss_active s) d"
  shows "serves (cx_json cx) H E B w s (send_live_one cx d w s)"
proof (cases "active_is (me_channel (ld_envelope d)) (ss_active s) \<and> allows_channel_access (cx_policy cx) (me_channel (ld_envelope d))")
  case False
  then show ?thesis using assms(3) by (auto simp: send_live_one_def Let_def intro: serves_still)
next
  case True
  let ?ch = "me_channel (ld_envelope d)" and ?q = "ld_retained_seq d"
  let ?pass = "[\<lparr>pw_envelope = ld_envelope d, pw_dropped = 0, pw_retained_seq = ?q\<rparr>]"
  obtain facts where f: "active_facts ?ch (ss_active s) = Some facts" using True by (auto simp: active_is_def active_facts_def)
  obtain p where p: "pos_of ?ch (ss_cursors s) = Some \<lparr>rs_epoch = E ?ch, rs_seq = p\<rparr>"
    using session_booksD(2) [OF assms(3) f] by (auto simp: span_ok_def)
  have one: "send_live_one cx d w s = (if ?q \<le> p then Ret (w, s, Continue) else if ?q = p + 1 then send_pass cx ?ch ?pass w s
      else drain_channel cx ?ch w s)"
    using True p by (simp add: send_live_one_def Let_def)
  consider "?q \<le> p" | "?q = p + 1" | "p + 1 < ?q" by linarith
  then show ?thesis
  proof cases
    case 2
    have "serves (cx_json cx) H E B w s (send_pass cx ?ch ?pass w s)"
      using assms(4) True 2
      by (intro serves_send_pass [OF assms(1,3) f p, where b = p and e = ?q]) (auto simp: live_genuine_def pass_genuine_def pass_positions_def Let_def)
    then show ?thesis using one 2 by simp
  qed (use one assms(3) serves_drain_channel [OF assms(1-3) f] in \<open>auto intro: serves_still\<close>)
qed

lemma serves_send_live:
  assumes "json_ok (cx_json cx)" "stores_honest H E w" "session_books (cx_json cx) H E B w s" "\<forall>d\<in>set ds. live_genuine H (ss_active s) d"
  shows "serves (cx_json cx) H E B w s (send_live cx ds w s)"
  using assms(2-4)
proof (induction ds arbitrary: w s)
  case Nil
  then show ?case by (simp add: serves_still)
next
  case (Cons d ds)
  have g: "live_genuine H (ss_active s) d" using Cons.prems(3) by simp
  show ?case unfolding send_live.simps
  proof (rule serves_seq [OF serves_send_live_one [OF assms(1) Cons.prems(1,2) g]])
    fix w' s' out
    assume a: "\<And>ch. store_at ch w' = store_at ch w" "ss_active s' = ss_active s" "out \<noteq> Disconnect \<Longrightarrow> session_books (cx_json cx) H E B w' s'"
    have "stores_honest H E w'" using Cons.prems(1) a(1) by (simp add: stores_honest_def)
    then show "serves (cx_json cx) H E B w' s'
        (case (w', s', out) of (w, s, out) \<Rightarrow> if out = Disconnect then Ret (w, s, Disconnect) else send_live cx ds w s)"
      using Cons.IH [of w' s'] a Cons.prems(3) by (auto intro: servesI)
  qed
qed

lemma serves_send_views: "session_books J H E B w s \<Longrightarrow> serves J H E B w s (Ret (send_views vs w s))"
proof (induction vs arbitrary: w s)
  case Nil
  then show ?case by (simp add: serves_still)
next
  case (Cons v vs)
  let ?f = "DeferredView (dvp_channel v) (dvp_attribution v) (dvp_entries v)"
  from serves_send_frame [OF Cons.prems, of ?f] show ?case
  proof (rule servesE, simp_all)
    fix w' s' out
    assume a: "send_frame ?f w s = (w', s', out)" "\<And>ch. store_at ch w' = store_at ch w" "aw_bus w' = aw_bus w" "ss_active s' = ss_active s"
      "out \<noteq> Disconnect \<Longrightarrow> session_books J H E B w' s'"
    have "out \<noteq> Disconnect \<Longrightarrow> serves J H E B w' s' (Ret (send_views vs w' s'))" using a(5) by (rule Cons.IH)
    then show "serves J H E B w s (Ret (case send_deferred_view v w s of
        (w, s, Disconnect) \<Rightarrow> (w, s, Disconnect) | (w, s, _) \<Rightarrow> send_views vs w s))"
      using a(1-4) by (cases out) (auto simp: send_deferred_view_def serves_def)
  qed
qed

lemma exec_map_bind: "exec_map f m = exec_bind m (\<lambda>x. Ret (f x))"
  by (cases m) auto

lemma serves_session_pushes:
  assumes "json_ok (cx_json cx)" "stores_honest H E w" "session_books (cx_json cx) H E B w s" "\<forall>d\<in>set (live_of pushes). live_genuine H (ss_active s) d"
  shows "serves (cx_json cx) H E B w s (send_session_pushes cx pushes w s)"
  unfolding send_session_pushes_def exec_map_bind
  by (rule serves_seq [OF serves_send_live [OF assms]]) (auto intro: serves_send_views servesI)

section \<open>The publish and alert planes\<close>

lemma call_bus_simps [simp]:
  "store_at ch (call_bus c w) = store_at ch w" "aw_out (call_bus c w) = aw_out w" "aw_bus (call_bus c w) = aw_bus w"
  by (simp_all add: call_bus_def store_at_def)

lemma map_counters_simps [simp]:
  "ss_active (map_counters f s) = ss_active s" "ss_cursors (map_counters f s) = ss_cursors s" "ss_buckets (map_counters f s) = ss_buckets s"
  by (simp_all add: map_counters_def)

lemma serves_shift:
  assumes "serves J H E B w1 s1 r" "\<And>ch. store_at ch w1 = store_at ch w" "aw_bus w1 = aw_bus w" "ss_active s1 = ss_active s"
  shows "serves J H E B w s r"
  using assms by (auto simp: serves_def)

lemma session_books_shift:
  assumes "session_books J H E B w s" "\<And>ch. store_at ch w1 = store_at ch w" "aw_out w1 = aw_out w"
    "ss_active s1 = ss_active s" "ss_cursors s1 = ss_cursors s"
  shows "session_books J H E B w1 s1"
  using assms by (intro session_books_cong [OF assms(1)]) simp_all

lemma serves_answer:
  assumes "session_books J H E B w s" "spanless f" "\<And>ch. store_at ch w1 = store_at ch w" "aw_out w1 = aw_out w" "aw_bus w1 = aw_bus w"
    "ss_active s1 = ss_active s" "ss_cursors s1 = ss_cursors s"
  shows "serves J H E B w s (Ret (send_frame f w1 s1))"
  by (rule serves_shift [OF serves_send_frame [OF session_books_shift [OF assms(1,3,4,6,7)] assms(2)] assms(3,5,6)])

lemma serves_stop:
  assumes "session_books J H E B w s" "\<And>ch. store_at ch w1 = store_at ch w" "aw_out w1 = aw_out w" "aw_bus w1 = aw_bus w"
    "ss_active s1 = ss_active s" "ss_cursors s1 = ss_cursors s"
  shows "serves J H E B w s (Ret (w1, s1, out))"
  by (rule serves_shift [OF serves_still [OF session_books_shift [OF assms(1,2,3,5,6)]] assms(2,4,5)])

lemma try_consume_returns: "\<exists>b' out. try_consume now b = Ret (b', out)"
  by (simp add: try_consume_def try_consume_n_def Let_def)

text \<open>What the session relies on: a profile lets nothing page-local be published; on a channel whose refusals it calls
  invariant violations the bus answers a publish with nothing else than success, a full body, a spent
  budget or a rate limit; no batch drops more schedules than it has entries; and parked messages
  are due after the epoch.\<close>

definition profile_ok :: "attach_profile \<Rightarrow> bool" where
  "profile_ok p \<longleftrightarrow> (\<forall>attribution ch. pf_publishable p attribution ch \<longrightarrow> \<not> is_local_channel ch)"

fun ordinary_answer :: "publish_result \<Rightarrow> bool" where
  "ordinary_answer PrOk = True"
| "ordinary_answer (PrBodyTooLarge len limit) = True"
| "ordinary_answer PrBudgetExhausted = True"
| "ordinary_answer PrRateLimited = True"
| "ordinary_answer _ = False"

definition bus_ok :: "attach_profile \<Rightarrow> ('u, 't) bus \<Rightarrow> bool" where
  "bus_ok p b \<longleftrightarrow>
     (\<forall>calls scope attribution ch body urgency. pf_publish_posture p ch = PostureInvariant \<longrightarrow>
        ordinary_answer (bs_publish b (calls @ [BusPublish scope attribution ch body urgency]))) \<and>
     (\<forall>calls scope attribution batch posture. bs_batch b (calls @ [BusBatch scope attribution batch posture]) \<le> length batch) \<and>
     (\<forall>calls. \<forall>m\<in>set (bs_parked b calls). 0 \<le> bs_timestamp_millis b (dm_release_at m))"

lemma assert_publishable_returns: "profile_ok (cx_profile cx) \<Longrightarrow> \<exists>ok. assert_publishable cx attribution ch what = Ret ok"
  by (simp add: assert_publishable_def profile_ok_def)

lemma settle_publish_returns:
  assumes "bus_ok (cx_profile cx) b"
  shows "\<exists>c' outcome. settle_publish cx attribution (pf_publish_posture (cx_profile cx) ch)
    (bs_publish b (calls @ [BusPublish scope attribution ch body urgency])) c = Ret (c', outcome)"
proof -
  let ?r = "bs_publish b (calls @ [BusPublish scope attribution ch body urgency])"
  have "pf_publish_posture (cx_profile cx) ch = PostureInvariant \<Longrightarrow> ordinary_answer ?r" using assms by (simp add: bus_ok_def)
  then show ?thesis by (cases "pf_publish_posture (cx_profile cx) ch"; cases ?r) (simp_all add: settle_publish_def)
qed

lemma serves_publish:
  assumes "session_books J H E B w s" "profile_ok (cx_profile cx)" "bus_ok (cx_profile cx) (aw_bus w)"
  shows "serves J H E B w s (handle_publish cx now q w s)"
proof -
  obtain ok where ok: "assert_publishable cx (pq_attribution q) (pq_channel q) ''Publish'' = Ret ok"
    using assert_publishable_returns [OF assms(2)] by blast
  obtain b drawn where d: "try_consume now (bk_publish (ss_buckets s)) = Ret (b, drawn)" using try_consume_returns by blast
  let ?call = "BusPublish (pf_attach_scope (cx_profile cx)) (pq_attribution q) (pq_channel q) (pq_body q) (pq_urgency q)"
  obtain c' outcome where c: "settle_publish cx (pq_attribution q) (pf_publish_posture (cx_profile cx) (pq_channel q))
      (bs_publish (aw_bus w) (aw_calls w @ [?call])) (ss_counters s) = Ret (c', outcome)"
    using settle_publish_returns [OF assms(3)] by blast
  have c: "settle_publish cx (pq_attribution q) (pf_publish_posture (cx_profile cx) (pq_channel q))
      (bs_publish (aw_bus (call_bus ?call w)) (aw_calls (call_bus ?call w))) (ss_counters s) = Ret (c', outcome)"
    using c by (simp add: call_bus_def)
  show ?thesis
    using ok d c assms(1)
    by (auto simp: handle_publish_def Let_def intro!: serves_stop serves_answer split: sum.split bucket_outcome.split)
qed

lemma apply_ops_frame:
  "apply_ops cx id_text sender now ops chs any w = (w', chs', any', stopped) \<Longrightarrow>
    (\<forall>ch. store_at ch w' = store_at ch w) \<and> aw_out w' = aw_out w \<and> aw_bus w' = aw_bus w"
proof (induction ops arbitrary: chs any w)
  case (Cons op ops)
  show ?case
  proof (cases "apply_deferred_op cx id_text sender op now w")
    case (Pair w1 r)
    have "(\<forall>ch. store_at ch w1 = store_at ch w) \<and> aw_out w1 = aw_out w \<and> aw_bus w1 = aw_bus w"
      using Pair by (auto simp: apply_deferred_op_def Let_def split: deferral_outcome.splits)
    then show ?thesis using Pair Cons.prems Cons.IH [of _ _ w1] by (cases r) auto
  qed
qed simp

lemma exec_traverse_returns: "\<forall>x\<in>set xs. returns (f x) \<Longrightarrow> returns (exec_traverse f xs)"
  by (induction f xs rule: exec_traverse.induct) (auto simp: returns_iff)

lemma view_entries_return:
  assumes "bus_ok p b"
  shows "\<exists>es. deferred_view_entries (bs_timestamp_millis b) (bs_parked b calls) = Ret es"
proof -
  have "\<forall>m\<in>set (bs_parked b calls). returns (view_entry (bs_timestamp_millis b) m)"
    using assms by (auto simp: bus_ok_def view_entry_def Let_def not_less)
  from exec_traverse_returns [OF this] show ?thesis by (simp add: deferred_view_entries_def returns_iff)
qed

lemma broadcast_frame:
  assumes "bus_ok p (aw_bus w)" "pf_admit_attribution (cx_profile cx) attribution \<noteq> None"
  shows "\<exists>w'. broadcast_each cx attribution chs w = Ret w' \<and>
    (\<forall>ch. store_at ch w' = store_at ch w) \<and> aw_out w' = aw_out w \<and> aw_bus w' = aw_bus w"
  using assms(1)
proof (induction chs arbitrary: w)
  case (Cons ch chs)
  obtain sender where sd: "parked_sender cx attribution = Ret sender" using assms(2) by (auto simp: parked_sender_def)
  obtain es where es: "deferred_view_entries (bs_timestamp_millis (aw_bus w)) (bs_parked (aw_bus w) (aw_calls (call_bus (BusParked ch sender) w))) = Ret es"
    using view_entries_return [OF Cons.prems] by blast
  then obtain w1 where w1: "broadcast_deferred_view cx attribution ch w = Ret w1" "\<And>ch. store_at ch w1 = store_at ch w" "aw_out w1 = aw_out w"
      "aw_bus w1 = aw_bus w"
    using sd by (simp add: broadcast_deferred_view_def Let_def)
  from Cons.IH [of w1] Cons.prems w1 show ?case by simp
qed simp

lemma serves_apply_batch:
  assumes "session_books J H E B w s" "bus_ok (cx_profile cx) (aw_bus w)" "pf_admit_attribution (cx_profile cx) (bq_attribution q) \<noteq> None"
  shows "serves J H E B w s (apply_batch cx id_text clk q sender resolved resolved_ops w s)"
proof -
  obtain w1 chs any stopped where ops: "apply_ops cx id_text sender (clk 0) resolved_ops [] False w = (w1, chs, any, stopped)"
    by (metis prod_cases4)
  define w2 where "w2 = (if any then call_bus BusKick w1 else w1)"
  have w2: "\<And>ch. store_at ch w2 = store_at ch w" "aw_out w2 = aw_out w" "aw_bus w2 = aw_bus w"
    using apply_ops_frame [OF ops] by (simp_all add: w2_def)
  show ?thesis
  proof (cases stopped)
    case (Some v)
    have "bus_ok (cx_profile cx) (aw_bus w2)" using assms(2) w2 by simp
    from broadcast_frame [OF this assms(3)] obtain w3 where w3: "emit_views cx (bq_attribution q) chs w2 = Ret w3"
        "\<And>ch. store_at ch w3 = store_at ch w2" "aw_out w3 = aw_out w2" "aw_bus w3 = aw_bus w2"
      unfolding emit_views_def by blast
    have "apply_batch cx id_text clk q sender resolved resolved_ops w s = Ret (w3, s, v)"
      using ops Some w3(1) by (simp add: apply_batch_def Let_def w2_def)
    moreover have "serves J H E B w s (Ret (w3, s, v))" using w2 w3 by (intro serves_stop [OF assms(1)]) simp_all
    ultimately show ?thesis by simp
  next
    case None
    let ?batch = "stamp_entries (bs_timestamp_nanos (aw_bus w2)) clk 1 None resolved"
    let ?call = "BusBatch (pf_attach_scope (cx_profile cx)) (bq_attribution q) ?batch (pf_missing_channel_posture (cx_profile cx))"
    define w3 where "w3 = call_bus ?call w2"
    have d: "bs_batch (aw_bus w3) (aw_calls w3) \<le> length ?batch"
      using assms(2) w2 by (simp add: bus_ok_def w3_def call_bus_def)
    have w3: "\<And>ch. store_at ch w3 = store_at ch w" "aw_out w3 = aw_out w" "aw_bus w3 = aw_bus w" using w2 by (simp_all add: w3_def)
    let ?touched = "map re_channel (filter (\<lambda>e. re_deliver_after e \<noteq> None) resolved) @ chs"
    have "bus_ok (cx_profile cx) (aw_bus w3)" using assms(2) w3 by simp
    from broadcast_frame [OF this assms(3)] obtain w4 where w4: "emit_views cx (bq_attribution q) ?touched w3 = Ret w4"
        "\<And>ch. store_at ch w4 = store_at ch w3" "aw_out w4 = aw_out w3" "aw_bus w4 = aw_bus w3"
      unfolding emit_views_def by blast
    let ?s = "map_counters ((count_publish_ok (bq_attribution q)) ^^ (length ?batch - bs_batch (aw_bus w3) (aw_calls w3))) s"
    have "apply_batch cx id_text clk q sender resolved resolved_ops w s = Ret (send_frame (PublishBatchResult (bq_correlation q) BatchOk) w4 ?s)"
      using ops None w4(1) d unfolding w3_def by (simp add: apply_batch_def Let_def w2_def [symmetric] not_less)
    moreover have "serves J H E B w s (Ret (send_frame (PublishBatchResult (bq_correlation q) BatchOk) w4 ?s))"
      using w3 w4 by (intro serves_answer [OF assms(1)]) simp_all
    ultimately show ?thesis by simp
  qed
qed

lemma resolve_entries_return:
  "profile_ok (cx_profile cx) \<Longrightarrow> \<exists>r. resolve_batch_entries cx fm attribution at es = Ret r"
proof (induction es)
  case (Cons e es)
  then obtain r where r: "resolve_batch_entries cx fm attribution at es = Ret r" by blast
  obtain ok where "assert_publishable cx attribution (be_channel e) ''PublishBatch entry'' = Ret ok"
    using assert_publishable_returns [OF Cons.prems] by blast
  then show ?case using r by (auto split: sum.split)
qed simp

lemma resolve_ops_return:
  "profile_ok (cx_profile cx) \<Longrightarrow> \<exists>r. resolve_deferred_ops cx fm attribution ops = Ret r"
proof (induction ops)
  case (Cons op ops)
  then obtain r where r: "resolve_deferred_ops cx fm attribution ops = Ret r" by blast
  obtain ok where "assert_publishable cx attribution (bo_channel op) ''PublishBatch control op'' = Ret ok"
    using assert_publishable_returns [OF Cons.prems] by blast
  then show ?case using r by (auto split: sum.split)
qed simp

lemma serves_publish_batch:
  assumes "session_books J H E B w s" "profile_ok (cx_profile cx)" "bus_ok (cx_profile cx) (aw_bus w)"
  shows "serves J H E B w s (handle_publish_batch cx id_text clk q w s)"
proof -
  obtain r1 where r1: "resolve_batch_entries cx (bs_from_timestamp_millis (aw_bus w)) (bq_attribution q) (clk 0) (bq_publishes q) = Ret r1"
    using resolve_entries_return [OF assms(2)] by blast
  obtain r2 where r2: "resolve_deferred_ops cx (bs_from_timestamp_millis (aw_bus w)) (bq_attribution q) (bq_deferred_ops q) = Ret r2"
    using resolve_ops_return [OF assms(2)] by blast
  have batch: "serves J H E B w s (apply_batch cx id_text clk q sender resolved ops (call_bus c w) s)"
    if "pf_admit_attribution (cx_profile cx) (bq_attribution q) \<noteq> None" for sender resolved ops c
    by (rule serves_shift [OF serves_apply_batch [OF session_books_shift [OF assms(1)] _ that]]) (use assms(3) in simp_all)
  show ?thesis
    using r1 r2 assms(1) batch unfolding handle_publish_batch_def Let_def
    by (auto simp: Let_def admit_attribution_or_violate_def intro!: serves_stop serves_answer split: sum.split option.split)
qed

lemma serves_alert:
  assumes "session_books J H E B w s"
  shows "serves J H E B w s (handle_alert cx id_text now attribution severity title body w s)"
proof -
  obtain b drawn where d: "try_consume now (bk_alert (ss_buckets s)) = Ret (b, drawn)" using try_consume_returns by blast
  show ?thesis unfolding handle_alert_def d
    by (auto simp: Let_def store_at_def intro!: serves_stop [OF assms] split: sum.split bucket_outcome.split)
qed

section \<open>Opening and closing spans\<close>

text \<open>The position a subscription states, and the base its answer gives the new span.\<close>

definition resumed_at :: "'u cursor_json \<Rightarrow> cursor_token option \<Rightarrow> nat option" where
  "resumed_at J resume =
     (case resume of
        None \<Rightarrow> None
      | Some cursor \<Rightarrow> (case cursor_parse J cursor of Inl e \<Rightarrow> None | Inr state \<Rightarrow> Some (rs_seq (cu_resume state))))"

fun base_after ::
  "'u cursor_json \<Rightarrow> 'u client_frame option \<Rightarrow> ('u, 't) server_frame list \<Rightarrow> (string \<Rightarrow> nat option) \<Rightarrow> string \<Rightarrow> nat option" where
  "base_after J (Some (Subscribe ch push_depth retain_depth resume)) (SubscribeResult c SubscribeOk n gap # fs) B =
     B(ch := if gap = None then resumed_at J resume else None)"
| "base_after J _ _ B = B"

definition handles ::
  "'u cursor_json \<Rightarrow> (string \<Rightarrow> ('u, 't) message_envelope list) \<Rightarrow> (string \<Rightarrow> 'u) \<Rightarrow> (string \<Rightarrow> nat option)
   \<Rightarrow> 'u client_frame option \<Rightarrow> ('u, 't) attach_world \<Rightarrow> ('u, 't) session_result \<Rightarrow> bool" where
  "handles J H E B frame w r \<longleftrightarrow>
     (\<exists>w' s' out. r = Ret (w', s', out) \<and> (\<forall>ch. store_at ch w' = store_at ch w) \<and> aw_bus w' = aw_bus w \<and>
        (out \<noteq> Disconnect \<longrightarrow> session_books J H E (base_after J frame (drop (length (aw_out w)) (aw_out w')) B) w' s'))"

lemma handles_serves:
  fixes w :: "('u, 't) attach_world"
  assumes "serves J H E B w s r" "\<And>fs :: ('u, 't) server_frame list. base_after J frame fs B = B"
  shows "handles J H E B frame w r"
  using assms(1) unfolding serves_def handles_def assms(2) by blast

lemma handles_unsubscribe:
  assumes "session_books J H E B w s"
  shows "handles J H E B (Some (Unsubscribe ch)) w (Ret (handle_unsubscribe cx ch w s))"
proof -
  have "session_books J H E B w (s\<lparr>ss_active := fst (deactivate ch (ss_active s)), ss_cursors := clear_span ch (ss_cursors s)\<rparr>)"
    unfolding session_books_def
  proof (intro allI impI)
    fix ch' facts
    assume "active_facts ch' (ss_active (s\<lparr>ss_active := fst (deactivate ch (ss_active s)), ss_cursors := clear_span ch (ss_cursors s)\<rparr>)) = Some facts"
    then have a: "active_facts ch' (ss_active s) = Some facts" "ch' \<noteq> ch"
      by (auto simp: active_facts_def deactivate_def Let_def delete_conv' split: if_splits)
    then show "store_at ch' w \<noteq> None \<and> span_ok J (H ch') (E ch') (B ch') ch' facts (aw_out w)
        (ss_cursors (s\<lparr>ss_active := fst (deactivate ch (ss_active s)), ss_cursors := clear_span ch (ss_cursors s)\<rparr>))"
      using session_booksD [OF assms a(1)] by (auto simp: span_ok_def clear_span_def pos_of_def delete_conv')
  qed
  moreover have "session_books J H E B w (s\<lparr>ss_active := fst (deactivate ch (ss_active s))\<rparr>)" if "\<not> snd (deactivate ch (ss_active s))"
    using assms that by (simp add: session_books_def active_facts_def deactivate_def Let_def delete_conv' fun_upd_idem)
  ultimately show ?thesis by (auto simp: handles_def handle_unsubscribe_def Let_def split_beta)
qed

lemma opening_window:
  assumes "honest_replay h cursor n r" "resume_answer (sr_decision r) (map_option rs_seq cursor) = (gap, anchor)"
  shows "\<exists>k. sr_messages r = drop k (numbered h) \<and> anchor \<le> length h \<and> (gap = None \<longrightarrow> map_option rs_seq cursor = None \<or> cursor \<noteq> None \<and> anchor = rs_seq (the cursor)) \<and>
    (sr_messages r = [] \<or> k = anchor \<or> anchor \<le> k \<and> (gap \<noteq> None \<or> cursor = None))"
proof (cases "sr_decision r")
  case Fresh
  then show ?thesis using assms by (intro exI [of _ "length h - length (sr_messages r)"]) (auto simp: honest_replay_def)
next
  case UpToDate
  then show ?thesis using assms by (intro exI [of _ "length h"]) (auto simp: honest_replay_def)
next
  case Exact
  then obtain cur where cur: "cursor = Some cur" "rs_seq cur < length h" "sr_messages r = drop (rs_seq cur) (numbered h)"
    using assms(1) by (auto simp: honest_replay_def)
  then show ?thesis using assms(2) Exact by (intro exI [of _ "rs_seq cur"]) auto
next
  case (Gap reason)
  then show ?thesis using assms
    by (intro exI [of _ "length h - length (sr_messages r)"]) (cases reason; auto simp: honest_replay_def)
qed

lemma ensure_entry_frame:
  "store_at ch' (ensure_runtime_entry cx entry ch w) = store_at ch' w" "aw_out (ensure_runtime_entry cx entry ch w) = aw_out w"
  "aw_bus (ensure_runtime_entry cx entry ch w) = aw_bus w" "aw_replay (ensure_runtime_entry cx entry ch w) = aw_replay w"
proof -
  have "map_option ce_uuid (dir_resolve ch' (fst (add_subscriber u m d))) = map_option ce_uuid (dir_resolve ch' d)" for u m and d :: "'a directory_inner"
    by (auto simp: add_subscriber_def dir_resolve_def Let_def update_conv' split: option.split bind_splits)
  then have "map_option (\<lambda>e. aw_replay w (ce_uuid e)) (dir_resolve ch' (fst (add_subscriber u m d))) =
      map_option (\<lambda>e. aw_replay w (ce_uuid e)) (dir_resolve ch' d)" for u m and d :: "'a directory_inner"
    by (metis (no_types, lifting) option.map_comp comp_def option.map_cong0)
  then show "store_at ch' (ensure_runtime_entry cx entry ch w) = store_at ch' w"
    by (auto simp: ensure_runtime_entry_def store_at_def Let_def split: option.split)
qed (auto simp: ensure_runtime_entry_def Let_def split: option.split)

lemma books_open:
  assumes "session_books J H E B w s" "store_at ch w \<noteq> None" "span_ok J (H ch) (E ch) (B' ch) ch facts (aw_out w') (ss_cursors s')"
    "\<And>c. store_at c w' = store_at c w" "ss_active s' = activate ch facts (ss_active s)"
    "\<And>c. c \<noteq> ch \<Longrightarrow> span_passes c (aw_out w') = span_passes c (aw_out w)"
    "\<And>c. c \<noteq> ch \<Longrightarrow> map_of (wc_span_seq (ss_cursors s')) c = map_of (wc_span_seq (ss_cursors s)) c"
    "\<And>c. c \<noteq> ch \<Longrightarrow> pos_of c (ss_cursors s') = pos_of c (ss_cursors s)"
    "wc_incarnation (ss_cursors s') = wc_incarnation (ss_cursors s)" "\<And>c. c \<noteq> ch \<Longrightarrow> B' c = B c"
  shows "session_books J H E B' w' s'"
  unfolding session_books_def
proof (intro allI impI)
  fix c facts'
  assume a: "active_facts c (ss_active s') = Some facts'"
  show "store_at c w' \<noteq> None \<and> span_ok J (H c) (E c) (B' c) c facts' (aw_out w') (ss_cursors s')"
  proof (cases "c = ch")
    case True
    then show ?thesis using a assms(2-5) by (simp add: active_facts_def activate_def update_conv')
  next
    case False
    then have "active_facts c (ss_active s) = Some facts'" using a assms(5) by (simp add: active_facts_def activate_def update_conv')
    note session_booksD [OF assms(1) this]
    then show ?thesis using False assms(4,6-10) by (auto simp: span_ok_def)
  qed
qed

lemma handles_subscribe:
  fixes w :: "('u, 't) attach_world"
  assumes "json_ok (cx_json cx)" "stores_honest H E w" "session_books (cx_json cx) H E B w s"
  shows "handles (cx_json cx) H E B (Some (Subscribe (sq_channel q) pd rd (sq_resume q))) w (handle_subscribe cx q w s)"
proof (cases "admit_subscribe cx q (ss_active s)")
  case (Inl outcome)
  then show ?thesis using assms(3) by (simp add: handles_def handle_subscribe_def Let_def)
next
  case (Inr p)
  let ?J = "cx_json cx" and ?ch = "sq_channel q"
  obtain facts echoed where adm: "admit_subscribe cx q (ss_active s) = Inr (facts, echoed)" using Inr by (cases p) simp
  have echo: "map_option (\<lambda>st. rs_seq (cu_resume st)) echoed = resumed_at ?J (sq_resume q)"
    using adm by (auto simp: admit_subscribe_def resumed_at_def parse_resume_cursor_def Let_def split: option.splits if_splits sum.splits)
  show ?thesis
  proof (cases "dir_resolve ?ch (aw_directory w)")
    case None
    have "handle_subscribe cx q w s = Ret (send_frame (SubscribeResult ?ch SubscribeUnavailable 0 None) w s)"
      using adm None by (simp add: handle_subscribe_def Let_def)
    then show ?thesis
      by (cases rule: send_frame_cases [of w "SubscribeResult ?ch SubscribeUnavailable 0 None" s])
        (auto simp: handles_def span_passes_snoc intro!: session_books_cong [OF assms(3)])
  next
    case (Some entry)
    define f where "f = aw_replay w (ce_uuid entry)"
    define w1 where "w1 = ensure_runtime_entry cx entry ?ch w"
    define stale where "stale = (case echoed of None \<Rightarrow> False | Some state \<Rightarrow> wc_incarnation (ss_cursors s) < cu_incarnation state)"
    define cursor where "cursor = (case echoed of None \<Rightarrow> None | Some state \<Rightarrow> if stale then None else Some (cu_resume state))"
    define r where "r = f cursor (replay_clamp facts)"
    obtain gap0 anchor where ga: "resume_answer (sr_decision r) (map_option rs_seq cursor) = (gap0, anchor)" by fastforce
    define gap where "gap = (if stale then Some \<lparr>gi_reason = WireEpochChanged\<rparr> else gap0)"
    define s2 where "s2 = s\<lparr>ss_active := activate ?ch facts (ss_active s), ss_cursors := start_span ?ch (sr_epoch r) anchor (ss_cursors s)\<rparr>"
    define fl where "fl = allows_channel_access (cx_policy cx) ?ch"
    define ans :: "('u, 't) server_frame" where "ans = SubscribeResult ?ch SubscribeOk (if fl then length (sr_messages r) mod 2 ^ 32 else 0) gap"
    define B' where "B' = B(?ch := if gap = None then resumed_at ?J (sq_resume q) else None)"
    have w1: "\<And>c. store_at c w1 = store_at c w" "aw_out w1 = aw_out w" "aw_bus w1 = aw_bus w" "aw_replay w1 = aw_replay w"
      unfolding w1_def by (rule ensure_entry_frame)+
    have st: "store_at ?ch w = Some f" using Some by (simp add: store_at_def f_def)
    have hr: "honest_replay (H ?ch) cursor (min (length (H ?ch)) (case replay_clamp facts of Bounded d \<Rightarrow> d | Unbounded \<Rightarrow> length (H ?ch))) r"
      and ep: "sr_epoch r = E ?ch" using assms(2) st by (simp_all add: stores_honest_def honest_store_def r_def)
    obtain k where k: "sr_messages r = drop k (numbered (H ?ch))" "anchor \<le> length (H ?ch)"
        "gap0 = None \<longrightarrow> map_option rs_seq cursor = None \<or> cursor \<noteq> None \<and> anchor = rs_seq (the cursor)"
        "sr_messages r = [] \<or> k = anchor \<or> anchor \<le> k \<and> (gap0 \<noteq> None \<or> cursor = None)"
      using opening_window [OF hr ga] by blast
    have base: "B' ?ch = None \<or> B' ?ch = Some anchor" "gap0 \<noteq> None \<or> cursor = None \<Longrightarrow> B' ?ch = None"
      using k(3) echo by (auto simp: B'_def gap_def cursor_def split: option.splits if_splits)
    have cu: "(case echoed of None \<Rightarrow> None | Some state \<Rightarrow>
        if wc_incarnation (ss_cursors s) < cu_incarnation state then None else Some (cu_resume state)) = cursor"
      by (simp add: cursor_def stale_def split: option.split)
    have hs: "handle_subscribe cx q w s = (let (w, s, sent) = send_frame ans w1 s2 in
        if sent = Disconnect then Ret (w, s, Disconnect) else if \<not> fl then Ret (w, s, Continue)
        else send_pass cx ?ch (drain_rows 0 (sr_messages r)) w s)"
      using adm Some ga w1(4)
      by (simp add: handle_subscribe_def Let_def w1_def [symmetric] stale_def [symmetric] cu f_def [symmetric]
          r_def [symmetric] s2_def [symmetric] gap_def [symmetric] fl_def [symmetric] ans_def cong: if_cong option.case_cong)
    show ?thesis
    proof (cases rule: send_frame_cases [of w1 ans s2])
      case gone
      then show ?thesis using hs w1 by (simp add: handles_def)
    next
      case (sent w3 s3)
      have B': "base_after ?J (Some (Subscribe ?ch pd rd (sq_resume q))) (ans # fs) B = B'" for fs by (simp add: ans_def B'_def)
      have a3: "active_facts ?ch (ss_active s3) = Some facts" using sent by (simp add: s2_def active_facts_def activate_def update_conv')
      have p3: "pos_of ?ch (ss_cursors s3) = Some \<lparr>rs_epoch = E ?ch, rs_seq = anchor\<rparr>"
        using sent ep by (simp add: s2_def start_span_def pos_of_def update_conv')
      have out: "span_passes ?ch (aw_out w3) = []" using sent by (simp add: span_passes_snoc ans_def)
      have books: "session_books ?J H E B' w3 s3"
      proof (rule books_open [OF assms(3), of ?ch])
        show "span_ok ?J (H ?ch) (E ?ch) (B' ?ch) ?ch facts (aw_out w3) (ss_cursors s3)"
          using out p3 base(1) k(2) sent by (auto simp: span_ok_def span_ledger_def s2_def start_span_def update_conv' row_positions_def)
      qed (use st sent w1 in \<open>auto simp: s2_def start_span_def pos_of_def update_conv' span_passes_snoc ans_def B'_def\<close>)
      show ?thesis
      proof (cases "fl \<and> sr_messages r \<noteq> []")
        case False
        then have "handle_subscribe cx q w s = Ret (w3, s3, Continue)" using hs sent by (auto simp: send_pass_def)
        then show ?thesis using sent w1 books B' by (simp add: handles_def)
      next
        case True
        then have kl: "k < length (H ?ch)" using k(1) by (cases "k < length (H ?ch)") auto
        have "serves ?J H E B' w3 s3 (send_pass cx ?ch (drain_rows 0 (sr_messages r)) w3 s3)"
          using True k(4) base(2) out kl unfolding k(1)
          by (intro serves_send_pass [OF assms(1) books a3 p3 _ drain_rows_genuine drain_rows_late drain_rows_chained [OF kl order_refl]]) auto
        moreover have "handle_subscribe cx q w s = send_pass cx ?ch (drain_rows 0 (sr_messages r)) w3 s3" using hs sent True by simp
        moreover have "\<exists>fs. aw_out w' = aw_out w3 @ fs" if "send_pass cx ?ch xs w3 s3 = Ret (w', s', out)" for w' s' out xs
          using that by (auto simp: send_pass_def send_frame_def exec_map_Ret_iff split: if_splits)
        ultimately show ?thesis using sent w1 B' by (fastforce simp: serves_def handles_def)
      qed
    qed
  qed
qed

end
