(* ===== verification/Delivery.thy ===== *)
theory Delivery
  imports Session_Books
begin

text \<open>
  What a session delivers, over whole runs of its read loop. A run interleaves the session's own events with
  changes to the world around it: messages appended, retention trimmed, channels provisioned. Beside
  the session a ledger keeps each channel's history, whose length is the number of messages ever
  appended to it, and the position a resumed subscription stated.
\<close>

section \<open>The loop\<close>

lemma handles_charged:
  assumes "session_books J H E B w s" "\<And>s'. session_books J H E B w s' \<Longrightarrow> handles J H E B frame w (handler s')" "base_after J frame ([] :: ('u, 't) server_frame list) B = B"
  shows "handles J H E B frame (w :: ('u, 't) attach_world) (charged_subscription cx now w s handler)"
proof -
  obtain b out where b: "try_consume now (bk_subscribe (ss_buckets s)) = Ret (b, out)" using try_consume_returns by blast
  let ?s = "s\<lparr>ss_buckets := (ss_buckets s)\<lparr>bk_subscribe := b\<rparr>\<rparr>"
  have books: "session_books J H E B w ?s" by (rule session_books_shift [OF assms(1)]) simp_all
  have "charged_subscription cx now w s handler =
      (case out of Denied _ \<Rightarrow> Ret (w, ?s, violation cx ''Subscribe/Unsubscribe rate exceeded'') | _ \<Rightarrow> handler ?s)"
    by (simp add: charged_subscription_def charge_subscribe_token_def b Let_def split: bucket_outcome.split)
  moreover have "handles J H E B frame w (Ret (w, ?s, violation cx ''Subscribe/Unsubscribe rate exceeded''))"
    using books assms(3) by (simp add: handles_def)
  ultimately show ?thesis using assms(2) [OF books] by (simp split: bucket_outcome.split)
qed

lemma handles_client_frame:
  assumes "json_ok (cx_json cx)" "stores_honest H E w" "session_books (cx_json cx) H E B w s" "profile_ok (cx_profile cx)"
    "bus_ok (cx_profile cx) (aw_bus w)"
  shows "handles (cx_json cx) H E B (parse json) w (handle_client_frame cx parse id_text now clk json w s)"
proof (cases "parse json")
  case None
  then show ?thesis using assms(3) by (simp add: handles_def handle_client_frame_def)
next
  case (Some frame)
  show ?thesis
  proof (cases frame)
    case (Subscribe ch pd rd resume)
    have "handles (cx_json cx) H E B (Some frame) w (charged_subscription cx now w s (\<lambda>s. handle_subscribe cx
        \<lparr>sq_channel = ch, sq_push_depth = pd, sq_retain_depth = rd, sq_resume = resume\<rparr> w s))"
      using Subscribe handles_subscribe [OF assms(1,2), where q = "\<lparr>sq_channel = ch, sq_push_depth = pd, sq_retain_depth = rd, sq_resume = resume\<rparr>"]
      by (intro handles_charged [OF assms(3)]) simp_all
    then show ?thesis using Some Subscribe by (simp add: handle_client_frame_def)
  next
    case (Unsubscribe ch)
    have "handles (cx_json cx) H E B (Some frame) w (charged_subscription cx now w s (\<lambda>s. Ret (handle_unsubscribe cx ch w s)))"
      using Unsubscribe handles_unsubscribe by (intro handles_charged [OF assms(3)]) auto
    then show ?thesis using Some Unsubscribe by (simp add: handle_client_frame_def)
  qed (use Some assms(3) serves_publish [OF assms(3-5)] serves_publish_batch [OF assms(3-5)] serves_alert [OF assms(3)]
       in \<open>auto simp: handle_client_frame_def intro!: handles_serves serves_still\<close>)
qed

text \<open>What runs around a session: its own events, and a world whose directory, retention, writer and bus move on. The
  ledger keeps each channel's history and epoch, and the base of each span.\<close>

datatype ('u, 't) session_input =
    Occurs nat "('u, 't) session_event"
  | Around "'u directory_inner" "'u \<Rightarrow> 'u resume option \<Rightarrow> depth \<Rightarrow> ('u, 't) store_replay" "nat option" "('u, 't) bus"
      "string \<Rightarrow> ('u, 't) message_envelope list" "string \<Rightarrow> 'u"

record ('u, 't) delivery_ledger =
  dl_loop :: "('u, 't) session_loop"
  dl_history :: "string \<Rightarrow> ('u, 't) message_envelope list"
  dl_epoch :: "string \<Rightarrow> 'u"
  dl_base :: "string \<Rightarrow> nat option"

fun frame_in :: "(string \<Rightarrow> 'u client_frame option) \<Rightarrow> ('u, 't) session_event \<Rightarrow> 'u client_frame option" where
  "frame_in parse (EvMessage (WsText json) clk) = parse json"
| "frame_in parse _ = None"

abbreviation dl_out :: "('u, 't) delivery_ledger \<Rightarrow> ('u, 't) server_frame list" where
  "dl_out l \<equiv> aw_out (lo_world (dl_loop l))"

definition with_world ::
  "'u directory_inner \<Rightarrow> ('u \<Rightarrow> 'u resume option \<Rightarrow> depth \<Rightarrow> ('u, 't) store_replay) \<Rightarrow> nat option \<Rightarrow> ('u, 't) bus
   \<Rightarrow> ('u, 't) attach_world \<Rightarrow> ('u, 't) attach_world" where
  "with_world d replay room b w = w\<lparr>aw_directory := d, aw_replay := replay, aw_room := room, aw_bus := b\<rparr>"

fun delivery_step ::
  "('u, 'g) session_ctx \<Rightarrow> (string \<Rightarrow> 'u client_frame option) \<Rightarrow> ('u \<Rightarrow> string) \<Rightarrow> nat
   \<Rightarrow> ('u, 't::linorder) delivery_ledger \<Rightarrow> ('u, 't) session_input \<Rightarrow> (('u, 't) delivery_ledger \<times> unit) exec" where
  "delivery_step cx parse id_text heartbeat l (Occurs at ev) = exec_map (\<lambda>lo.
     (l\<lparr>dl_loop := lo, dl_base := base_after (cx_json cx) (frame_in parse ev)
        (drop (length (dl_out l)) (aw_out (lo_world lo))) (dl_base l)\<rparr>, ()))
     (read_event cx parse id_text heartbeat at ev (dl_loop l))"
| "delivery_step cx parse id_text heartbeat l (Around d replay room b H E) =
     Ret (l\<lparr>dl_loop := (dl_loop l)\<lparr>lo_world := with_world d replay room b (lo_world (dl_loop l))\<rparr>,
            dl_history := H, dl_epoch := E\<rparr>, ())"

fun event_pushes :: "('u, 't) session_event \<Rightarrow> ('u, 't) session_push list" where
  "event_pushes (EvPush pushes) = pushes"
| "event_pushes (EvNudge pushes) = pushes"
| "event_pushes _ = []"

text \<open>An event comes to a session still reading, and a live row pushed at it is a message of its channel's history. The
  world keeps an active channel provisioned, its history only growing and its epoch the same, and every store
  honest about its channel.\<close>

fun delivery_legal :: "('u, 'g) session_ctx \<Rightarrow> ('u, 't) delivery_ledger \<Rightarrow> ('u, 't) session_input \<Rightarrow> bool" where
  "delivery_legal cx l (Occurs at ev) \<longleftrightarrow>
     lo_exit (dl_loop l) = None \<and>
     (\<forall>d\<in>set (live_of (event_pushes ev)). live_genuine (dl_history l) (ss_active (lo_state (dl_loop l))) d)"
| "delivery_legal cx l (Around d replay room b H E) \<longleftrightarrow>
     (let w' = with_world d replay room b (lo_world (dl_loop l)) in
      stores_honest H E w' \<and> bus_ok (cx_profile cx) b \<and>
      (\<forall>ch. active_is ch (ss_active (lo_state (dl_loop l))) \<longrightarrow>
         store_at ch w' \<noteq> None \<and> prefix (dl_history l ch) (H ch) \<and> E ch = dl_epoch l ch))"

definition delivery_ok :: "('u, 'g) session_ctx \<Rightarrow> ('u, 't) delivery_ledger \<Rightarrow> bool" where
  "delivery_ok cx l \<longleftrightarrow>
     json_ok (cx_json cx) \<and> profile_ok (cx_profile cx) \<and>
     stores_honest (dl_history l) (dl_epoch l) (lo_world (dl_loop l)) \<and> bus_ok (cx_profile cx) (aw_bus (lo_world (dl_loop l))) \<and>
     (lo_exit (dl_loop l) \<noteq> Some ExitPeer \<longrightarrow>
        session_books (cx_json cx) (dl_history l) (dl_epoch l) (dl_base l) (lo_world (dl_loop l)) (lo_state (dl_loop l)))"

definition goes_on :: "('u, 'g) session_ctx \<Rightarrow> (('u, 't) delivery_ledger \<times> unit) exec \<Rightarrow> bool" where
  "goes_on cx r \<longleftrightarrow> (\<exists>l out. r = Ret (l, out) \<and> delivery_ok cx l)"

lemma delivery_okD:
  assumes "delivery_ok cx l"
  shows "json_ok (cx_json cx)" "profile_ok (cx_profile cx)" "stores_honest (dl_history l) (dl_epoch l) (lo_world (dl_loop l))"
    "bus_ok (cx_profile cx) (aw_bus (lo_world (dl_loop l)))"
    "lo_exit (dl_loop l) = None \<Longrightarrow> session_books (cx_json cx) (dl_history l) (dl_epoch l) (dl_base l) (lo_world (dl_loop l)) (lo_state (dl_loop l))"
  using assms by (auto simp: delivery_ok_def)

lemma goes_on_handled:
  assumes "delivery_ok cx l"
    "handles (cx_json cx) (dl_history l) (dl_epoch l) (dl_base l) (frame_in parse ev) (lo_world (dl_loop l)) r"
    "read_event cx parse id_text heartbeat at ev (dl_loop l) = exec_map f r"
    "\<And>w s out. lo_world (f (w, s, out)) = w \<and> lo_state (f (w, s, out)) = s \<and> (out = Disconnect \<longrightarrow> lo_exit (f (w, s, out)) = Some ExitPeer)"
  shows "goes_on cx (delivery_step cx parse id_text heartbeat l (Occurs at ev))"
proof -
  obtain w' s' out where r: "r = Ret (w', s', out)" "\<And>ch. store_at ch w' = store_at ch (lo_world (dl_loop l))" "aw_bus w' = aw_bus (lo_world (dl_loop l))"
      "out \<noteq> Disconnect \<Longrightarrow> session_books (cx_json cx) (dl_history l) (dl_epoch l)
         (base_after (cx_json cx) (frame_in parse ev) (drop (length (dl_out l)) (aw_out w')) (dl_base l)) w' s'"
    using assms(2) by (auto simp: handles_def)
  show ?thesis using delivery_okD(1-4) [OF assms(1)] r assms(3) assms(4) [of w' s' out]
    by (auto simp: goes_on_def delivery_ok_def stores_honest_def)
qed

lemma goes_on_still:
  assumes "delivery_ok cx l" "lo_exit (dl_loop l) = None" "read_event cx parse id_text heartbeat at ev (dl_loop l) = Ret lo"
    "lo_world lo = lo_world (dl_loop l)" "lo_state lo = lo_state (dl_loop l)" "frame_in parse ev = None"
  shows "goes_on cx (delivery_step cx parse id_text heartbeat l (Occurs at ev))"
  using delivery_okD(1-4) [OF assms(1)] delivery_okD(5) [OF assms(1,2)] assms(3-6) by (simp add: goes_on_def delivery_ok_def)

lemma goes_on_event:
  assumes "delivery_ok cx l" "delivery_legal cx l (Occurs at ev)"
  shows "goes_on cx (delivery_step cx parse id_text heartbeat l (Occurs at ev))"
proof -
  let ?lo = "dl_loop l" and ?w = "lo_world (dl_loop l)" and ?s = "lo_state (dl_loop l)"
  have up: "lo_exit ?lo = None" and live: "\<forall>d\<in>set (live_of (event_pushes ev)). live_genuine (dl_history l) (ss_active ?s) d"
    using assms(2) by simp_all
  note ok = delivery_okD(1-4) [OF assms(1)] and books = delivery_okD(5) [OF assms(1) up]
  show ?thesis
  proof (cases ev)
    case (EvPush pushes)
    from serves_session_pushes [OF ok(1,3) books, of pushes]
    have "handles (cx_json cx) (dl_history l) (dl_epoch l) (dl_base l) None ?w (send_session_pushes cx pushes ?w ?s)"
      using live EvPush by (intro handles_serves) auto
    then show ?thesis using EvPush
      by (intro goes_on_handled [OF assms(1)]) (auto simp: read_event_def after_send_def Let_def)
  next
    case (EvNudge pushes)
    let ?drain = "\<lambda>(w, s, out). if out = Disconnect then Ret (w, s, Disconnect) else drain_all cx w s"
    let ?first = "if pushes = [] then Ret (?w, ?s, Continue) else send_session_pushes cx pushes ?w ?s"
    have first: "serves (cx_json cx) (dl_history l) (dl_epoch l) (dl_base l) ?w ?s ?first"
      using live EvNudge serves_session_pushes [OF ok(1,3) books, of pushes] serves_still [OF books] by simp
    have "serves (cx_json cx) (dl_history l) (dl_epoch l) (dl_base l) ?w ?s (exec_bind ?first ?drain)"
    proof (rule serves_seq [OF first])
      fix w' s' out
      assume a: "\<And>ch. store_at ch w' = store_at ch ?w" "out \<noteq> Disconnect \<Longrightarrow> session_books (cx_json cx) (dl_history l) (dl_epoch l) (dl_base l) w' s'"
      have "stores_honest (dl_history l) (dl_epoch l) w'" using ok(3) a(1) by (simp add: stores_honest_def)
      then show "serves (cx_json cx) (dl_history l) (dl_epoch l) (dl_base l) w' s' (?drain (w', s', out))"
        using a(2) serves_drain_all [OF ok(1)] by (auto intro: servesI)
    qed
    then have "handles (cx_json cx) (dl_history l) (dl_epoch l) (dl_base l) (frame_in parse ev) ?w (exec_bind ?first ?drain)"
      using EvNudge by (intro handles_serves) auto
    moreover have "read_event cx parse id_text heartbeat at ev ?lo = exec_map (\<lambda>(w, s, out).
        ?lo\<lparr>lo_world := w, lo_state := s, lo_exit := (if out = Disconnect then Some ExitPeer else None)\<rparr>) (exec_bind ?first ?drain)"
      using EvNudge by (cases ?first) (auto simp: read_event_def after_send_def Let_def)
    ultimately show ?thesis by (rule goes_on_handled [OF assms(1)]) auto
  next
    case (EvMessage m clk)
    show ?thesis
    proof (cases m)
      case (WsText json)
      have "session_books (cx_json cx) (dl_history l) (dl_epoch l) (dl_base l) ?w (count_frame_in ?s)"
        by (rule session_books_shift [OF books]) (simp_all add: count_frame_in_def)
      from handles_client_frame [OF ok(1,3) this ok(2,4)] show ?thesis using EvMessage WsText
        by (intro goes_on_handled [OF assms(1)])
          (auto simp: read_event_def after_frame_def Let_def split: frame_outcome.split)
    next
      case (WsError e)
      then show ?thesis using EvMessage
        by (cases e) (rule goes_on_still [OF assms(1) up], simp add: read_event_def Let_def, simp, simp, simp)+
    qed (rule goes_on_still [OF assms(1) up], simp add: EvMessage read_event_def Let_def, simp, simp, simp add: EvMessage)+
  qed (rule goes_on_still [OF assms(1) up], simp add: read_event_def Let_def, simp split: option.split, simp split: option.split, simp)+
qed

lemma goes_on_world:
  assumes "delivery_ok cx l" "delivery_legal cx l (Around d replay room b H E)"
  shows "goes_on cx (delivery_step cx parse id_text heartbeat l (Around d replay room b H E))"
proof -
  let ?w = "lo_world (dl_loop l)" and ?s = "lo_state (dl_loop l)"
  let ?w' = "with_world d replay room b ?w"
  have leg: "stores_honest H E ?w'" "bus_ok (cx_profile cx) b"
      "\<And>ch. active_is ch (ss_active ?s) \<Longrightarrow> store_at ch ?w' \<noteq> None \<and> prefix (dl_history l ch) (H ch) \<and> E ch = dl_epoch l ch"
    using assms(2) by (simp_all add: Let_def)
  have out: "aw_out ?w' = aw_out ?w" "aw_bus ?w' = b" by (simp_all add: with_world_def)
  have "session_books (cx_json cx) H E (dl_base l) ?w' ?s" if "session_books (cx_json cx) (dl_history l) (dl_epoch l) (dl_base l) ?w ?s"
    unfolding session_books_def out
  proof (intro allI impI)
    fix ch facts
    assume a: "active_facts ch (ss_active ?s) = Some facts"
    then have "active_is ch (ss_active ?s)" by (simp add: active_is_def active_facts_def)
    then show "store_at ch ?w' \<noteq> None \<and> span_ok (cx_json cx) (H ch) (E ch) (dl_base l ch) ch facts (aw_out ?w) (ss_cursors ?s)"
      using leg(3) span_ok_grow [OF session_booksD(2) [OF that a]] by simp
  qed
  then show ?thesis using assms(1) leg(1,2) out by (auto simp: goes_on_def delivery_ok_def)
qed

interpretation delivery_sys: contract_system
  "delivery_step cx parse id_text heartbeat :: ('u, 't::linorder) delivery_ledger \<Rightarrow> ('u, 't) session_input \<Rightarrow> (('u, 't) delivery_ledger \<times> unit) exec"
  "delivery_ok cx" "delivery_legal cx" for cx parse id_text heartbeat
proof
  fix l :: "('u, 't::linorder) delivery_ledger" and i
  assume "delivery_ok cx l" "delivery_legal cx l i"
  then have "goes_on cx (delivery_step cx parse id_text heartbeat l i)"
    by (cases i) (simp_all only: goes_on_event goes_on_world)
  then show "\<exists>l' out. delivery_step cx parse id_text heartbeat l i = Ret (l', out) \<and> delivery_ok cx l'" by (simp add: goes_on_def)
qed

section \<open>From the upgrade on\<close>

lemma send_frame_frame:
  "send_frame f w s = (w', s', out) \<Longrightarrow> (\<forall>ch. store_at ch w' = store_at ch w) \<and> aw_bus w' = aw_bus w \<and> ss_active s' = ss_active s"
  by (cases rule: send_frame_cases [of w f s]) auto

lemma seed_views_frame:
  "seed_views cx ts w s = Ret (w', s', out) \<Longrightarrow> (\<forall>ch. store_at ch w' = store_at ch w) \<and> aw_bus w' = aw_bus w \<and> ss_active s' = ss_active s"
proof (induction ts arbitrary: w s)
  case (Cons t ts)
  obtain sender entries where se: "parked_sender cx (dt_attribution t) = Ret sender"
      "deferred_view_entries (bs_timestamp_millis (aw_bus w)) (bs_parked (aw_bus w) (aw_calls (call_bus (BusParked (dt_channel t) sender) w))) = Ret entries"
    using Cons.prems by (auto simp: Let_def exec_bind_Ret_iff)
  obtain w1 s1 sent where sf: "send_frame (DeferredView (dt_channel t) (dt_attribution t) entries) (call_bus (BusParked (dt_channel t) sender) w) s = (w1, s1, sent)"
    by (metis prod_cases3)
  show ?case
  proof (cases "entries = []")
    case True
    then show ?thesis using Cons.prems se Cons.IH [of "call_bus (BusParked (dt_channel t) sender) w" s] by (simp add: Let_def)
  next
    case False
    then show ?thesis using Cons.prems se sf Cons.IH [of w1 s1] send_frame_frame [OF sf]
      by (cases sent) (auto simp: Let_def)
  qed
qed simp

lemma open_attachment_frame:
  fixes w :: "('u, 't) attach_world"
  assumes "open_attachment usize_max id_simple cx parse heartbeat_secs ident ms w s = Ret (w', s', Attached)"
  shows "\<forall>ch. store_at ch w' = store_at ch w" "aw_bus w' = aw_bus w" "ss_active s' = ss_active s"
proof -
  obtain w1 s1 out1 where s1: "send_frame (server_hello ident) w s = (w1, s1, out1)" by (metis prod_cases3)
  obtain version frame where hs: "read_client_hello parse ms = Agreed version" "welcome_of usize_max id_simple cx version heartbeat_secs = Ret (frame :: ('u, 't) server_frame)"
      "out1 \<noteq> Disconnect"
    using assms s1 by (auto simp: open_attachment_def exec_bind_Ret_iff split: frame_outcome.splits handshake.splits)
  obtain w2 s2 out2 where s2: "send_frame frame w1 s1 = (w2, s2, out2)" by (metis prod_cases3)
  have "\<exists>out. seed_views cx (pf_deferred_view_targets (cx_profile cx)) w2 s2 = Ret (w', s', out)"
    using assms s1 hs s2
    by (auto simp: open_attachment_def seed_deferred_views_def exec_map_Ret_iff split: frame_outcome.splits if_splits)
  then show "\<forall>ch. store_at ch w' = store_at ch w" "aw_bus w' = aw_bus w" "ss_active s' = ss_active s"
    using send_frame_frame [OF s1] send_frame_frame [OF s2] seed_views_frame by fastforce+
qed

definition attached_at ::
  "nat \<Rightarrow> (string \<Rightarrow> ('u, 't) message_envelope list) \<Rightarrow> (string \<Rightarrow> 'u) \<Rightarrow> ('u, 't) attach_world \<Rightarrow> 'u session_state \<Rightarrow> ('u, 't) delivery_ledger" where
  "attached_at at H E w s = \<lparr>dl_loop = \<lparr>lo_world = w, lo_state = s, lo_last_inbound = at, lo_exit = None\<rparr>,
     dl_history = H, dl_epoch = E, dl_base = (\<lambda>_. None)\<rparr>"

lemma attached_at_ok:
  assumes "json_ok (cx_json cx)" "profile_ok (cx_profile cx)" "bus_ok (cx_profile cx) (aw_bus w)" "stores_honest H E w"
    "session_new now (cx_profile cx) shared inc = Ret s"
    "open_attachment usize_max id_simple cx parse heartbeat_secs ident ms w s = Ret (w', s', Attached)"
  shows "delivery_ok cx (attached_at at H E w' s')"
proof -
  note fr = open_attachment_frame [OF assms(6)]
  have "ss_active s = active_new shared" using assms(5) by (auto simp: session_new_def exec_map_Ret_iff)
  then have "active_facts ch (ss_active s') = None" for ch using fr(3) by (simp add: active_new_def active_facts_def)
  then show ?thesis using assms(1-4) fr(1,2) by (simp add: delivery_ok_def attached_at_def session_books_def stores_honest_def)
qed

section \<open>The client at the other end\<close>

fun deliver_passes ::
  "string \<Rightarrow> ('u, 't) deliver_row list list \<Rightarrow> subscriptions \<Rightarrow> subscriptions \<times> (sub_error + deliver_disposition) list" where
  "deliver_passes ch [] c = (c, [])"
| "deliver_passes ch (rows # passes) c =
     (let (c, r) = on_deliver ch rows c; (c, rs) = deliver_passes ch passes c in (c, r # rs))"

lemma span_scan_rising:
  "map dr_seq rows = [Suc n..<Suc n + length rows] \<Longrightarrow> (\<forall>seen. hw = Some seen \<longrightarrow> seen \<le> n) \<Longrightarrow>
    \<exists>hw'. span_scan hw rows = Inr hw' \<and> (\<forall>seen. hw' = Some seen \<longrightarrow> seen \<le> n + length rows)"
proof (induction rows arbitrary: hw n)
  case (Cons row rows)
  have r: "dr_seq row = Suc n" "map dr_seq rows = [Suc (Suc n)..<Suc (Suc n) + length rows]"
    using Cons.prems(1) by (simp_all add: upt_conv_Cons del: upt_Suc)
  from Cons.IH [OF r(2), of "Some (Suc n)"] show ?case using r(1) Cons.prems(2) by (auto split: option.split)
qed simp

lemma on_deliver_rising:
  assumes "map_of (su_channels c) ch = Some e" "cs_wire e = Active" "cs_has_been_active e" "\<forall>seen. cs_span_hw e = Some seen \<longrightarrow> seen \<le> n"
    "pass_shape rows" "map dr_seq rows = [Suc n..<Suc n + length rows]"
  shows "\<exists>c' e'. on_deliver ch rows c = (c', Inr (Accept (dr_dropped (hd rows)))) \<and> map_of (su_channels c') ch = Some e' \<and>
    cs_wire e' = Active \<and> cs_has_been_active e' \<and> (\<forall>seen. cs_span_hw e' = Some seen \<longrightarrow> seen \<le> n + length rows) \<and>
    cs_resume_policy e' = cs_resume_policy e \<and> (cs_resume_policy e = Resume \<longrightarrow> cs_token e' = Some (dr_cursor (last rows)))"
proof -
  obtain hw' where hw: "span_scan (cs_span_hw e) rows = Inr hw'" "\<forall>seen. hw' = Some seen \<longrightarrow> seen \<le> n + length rows"
    using span_scan_rising [OF assms(6,4)] by blast
  obtain row rest where r: "rows = row # rest" using assms(5) by (cases rows) (auto simp: pass_shape_def)
  have f: "find (\<lambda>row. dr_dropped row \<noteq> 0) rest = None" using assms(5) r by (auto simp: pass_shape_def find_None_iff)
  show ?thesis using hw assms(1-3) f r by (auto simp: on_deliver_def Let_def bt_insert_lookup)
qed

lemma deliver_passes_rising:
  assumes "map_of (su_channels c) ch = Some e" "cs_wire e = Active" "cs_has_been_active e" "\<forall>seen. cs_span_hw e = Some seen \<longrightarrow> seen \<le> n"
    "list_all pass_shape passes" "map dr_seq (concat passes) = [Suc n..<Suc n + length (concat passes)]"
  shows "\<exists>c' e'. deliver_passes ch passes c = (c', map (\<lambda>rows. Inr (Accept (dr_dropped (hd rows)))) passes) \<and>
    map_of (su_channels c') ch = Some e' \<and> cs_resume_policy e' = cs_resume_policy e \<and>
    (cs_resume_policy e = Resume \<and> passes \<noteq> [] \<longrightarrow> cs_token e' = Some (dr_cursor (last (concat passes))))"
  using assms
proof (induction passes arbitrary: c e n)
  case (Cons rows passes)
  have "[Suc n..<Suc n + length (concat (rows # passes))] =
      [Suc n..<Suc n + length rows] @ [Suc (n + length rows)..<Suc (n + length rows) + length (concat passes)]"
    using upt_add_eq_append [of "Suc n" "Suc n + length rows" "length (concat passes)"] by (simp add: add.assoc del: upt_Suc)
  then have seqs: "map dr_seq rows = [Suc n..<Suc n + length rows]"
      "map dr_seq (concat passes) = [Suc (n + length rows)..<Suc (n + length rows) + length (concat passes)]"
    using Cons.prems(6) append_eq_append_conv [of "map dr_seq rows" "[Suc n..<Suc n + length rows]"] by (simp_all del: upt_Suc)
  have sh: "pass_shape rows" "list_all pass_shape passes" using Cons.prems(5) by simp_all
  obtain c1 e1 where c1: "on_deliver ch rows c = (c1, Inr (Accept (dr_dropped (hd rows))))" "map_of (su_channels c1) ch = Some e1"
      "cs_wire e1 = Active" "cs_has_been_active e1" "\<forall>seen. cs_span_hw e1 = Some seen \<longrightarrow> seen \<le> n + length rows"
      "cs_resume_policy e1 = cs_resume_policy e" "cs_resume_policy e = Resume \<longrightarrow> cs_token e1 = Some (dr_cursor (last rows))"
    using on_deliver_rising [OF Cons.prems(1-4) sh(1) seqs(1)] by blast
  have ne: "passes \<noteq> [] \<Longrightarrow> concat passes \<noteq> []" using sh(2) by (cases passes) (auto simp: pass_shape_def)
  show ?case
  proof (cases "passes = []")
    case True
    then show ?thesis using c1 by simp
  next
    case False
    then show ?thesis using Cons.IH [OF c1(2-5) sh(2) seqs(2)] c1(1,6) ne by (auto simp: last_append)
  qed
qed simp

lemma drain_unresolved: "dir_resolve ch (aw_directory w) = None \<Longrightarrow> drain_channel cx ch w s = Panic"
  by (auto simp: drain_channel_def store_for_address_def split: option.split)

lemma drain_channel_either:
  "drain_channel cx ch w s = Panic \<or> drain_channel cx ch w s = Ret (w, s, Continue) \<or> (\<exists>xs. drain_channel cx ch w s = send_pass cx ch xs w s)"
proof -
  have "drain_channel cx ch w s = Panic \<or> (\<exists>window lost. drain_channel cx ch w s =
      (if window = [] then Ret (w, s, Continue) else if \<not> allows_channel_access (cx_policy cx) ch then Ret (w, s, Continue)
       else send_pass cx ch (drain_rows lost window) w s))"
    by (cases "store_for_address ch w") (auto simp: drain_channel_def Let_def split_beta split: option.split)
  then show ?thesis by (metis (full_types))
qed

lemma send_pass_alive:
  assumes "aw_room w = None" "send_pass cx ch xs w s = Ret (w', s', out)"
  shows "out = Continue \<and> aw_room w' = None \<and> aw_directory w' = aw_directory w \<and> aw_replay w' = aw_replay w \<and> ss_active s' = ss_active s"
  using assms by (auto simp: send_pass_def send_frame_def exec_map_Ret_iff split: if_splits prod.splits)

lemma drain_channel_alive:
  assumes "aw_room w = None" "drain_channel cx ch w s = Ret (w', s', out)"
  shows "out = Continue \<and> aw_room w' = None \<and> aw_directory w' = aw_directory w \<and> aw_replay w' = aw_replay w \<and> ss_active s' = ss_active s"
proof -
  consider "drain_channel cx ch w s = Ret (w, s, Continue)" | xs where "drain_channel cx ch w s = send_pass cx ch xs w s"
    using drain_channel_either [of cx ch w s] assms(2) by auto
  then show ?thesis
  proof cases
    case 2
    then show ?thesis using send_pass_alive [OF assms(1), of cx ch xs s w' s' out] assms(2) by simp
  qed (use assms in simp)
qed

section \<open>Catching up\<close>

lemma mint_rows_other: "mint_rows J ch xs c = Ret (c', rows) \<Longrightarrow> d \<noteq> ch \<Longrightarrow> pos_of d c' = pos_of d c"
  by (induction J ch xs c arbitrary: c' rows rule: mint_rows.induct)
    (auto simp: exec_bind_Ret_iff exec_map_Ret_iff cursors_next_def next_span_seq_def pos_of_def update_conv' Let_def split: option.splits)

lemma send_pass_other: "send_pass cx ch xs w s = Ret (w', s', out) \<Longrightarrow> d \<noteq> ch \<Longrightarrow> pos_of d (ss_cursors s') = pos_of d (ss_cursors s)"
  by (auto simp: send_pass_def send_frame_def exec_map_Ret_iff dest: mint_rows_other split: if_splits prod.splits)

lemma drain_channel_other:
  assumes "drain_channel cx ch w s = Ret (w', s', out)" "d \<noteq> ch"
  shows "pos_of d (ss_cursors s') = pos_of d (ss_cursors s)"
proof -
  consider "drain_channel cx ch w s = Ret (w, s, Continue)" | xs where "drain_channel cx ch w s = send_pass cx ch xs w s"
    using drain_channel_either [of cx ch w s] assms(1) by auto
  then show ?thesis
  proof cases
    case 2
    then show ?thesis using send_pass_other [of cx ch xs w s w' s' out d] assms by simp
  qed (use assms in simp)
qed

text \<open>A subscription with nothing left to send: at the newest position, or its store retains nothing to send.\<close>

definition caught_up ::
  "(string \<Rightarrow> ('u, 't) message_envelope list) \<Rightarrow> ('u, 't) attach_world \<Rightarrow> 'u session_state \<Rightarrow> string \<Rightarrow> bool" where
  "caught_up H w s ch \<longleftrightarrow>
     (case (pos_of ch (ss_cursors s), active_facts ch (ss_active s), store_at ch w) of
        (Some cur, Some facts, Some f) \<Rightarrow> rs_seq cur = length (H ch) \<or> sr_messages (f (Some cur) (replay_clamp facts)) = []
      | _ \<Rightarrow> False)"

lemma drain_window_empty:
  assumes "honest_replay h (Some \<lparr>rs_epoch = ep, rs_seq = p\<rparr>) n r" "p \<le> length h"
    "fst (drain_window facts \<lparr>rs_epoch = ep, rs_seq = p\<rparr> r) = []"
  shows "p = length h \<or> sr_messages r = []"
proof (cases "sr_decision r")
  case (Gap reason)
  define j where "j = length h - length (sr_messages r)"
  have m: "sr_messages r = drop j (numbered h)" "j \<le> length h" using assms(1) by (simp_all add: honest_replay_def j_def)
  have "filter (\<lambda>e. p < r_seq e) (drop j (numbered h)) = []" using assms(3) Gap m(1) by (simp add: drain_window_def gap_suffix_def Let_def)
  moreover have "numbered h ! (length h - 1) \<in> set (drop j (numbered h))" if "j < length h"
    using that by (auto simp: set_conv_nth intro!: exI [of _ "length h - 1 - j"])
  ultimately have "\<not> p < length h" if "j < length h"
    using that by (fastforce simp: filter_empty_conv numbered_nth)
  then show ?thesis using m assms(2) by (cases "j < length h") auto
qed (use assms in \<open>auto simp: honest_replay_def drain_window_def\<close>)

lemma drain_channel_catches_up:
  assumes "json_ok (cx_json cx)" "stores_honest H E w" "session_books (cx_json cx) H E B w s" "active_facts ch (ss_active s) = Some facts"
    "allows_channel_access (cx_policy cx) ch" "aw_room w = None" "drain_channel cx ch w s = Ret (w', s', out)"
  shows "caught_up H w' s' ch"
proof -
  obtain f where f: "store_at ch w = Some f" using session_booksD(1) [OF assms(3,4)] by blast
  note so = session_booksD(2) [OF assms(3,4), unfolded span_ok_def]
  obtain p where p: "pos_of ch (ss_cursors s) = Some \<lparr>rs_epoch = E ch, rs_seq = p\<rparr>" "p \<le> length (H ch)"
    using so by (auto simp: span_ledger_def)
  let ?cur = "\<lparr>rs_epoch = E ch, rs_seq = p\<rparr>"
  let ?r = "f (Some ?cur) (replay_clamp facts)"
  have "honest_store (H ch) (E ch) f" using assms(2) f by (simp add: stores_honest_def)
  then have hr: "honest_replay (H ch) (Some ?cur)
      (min (length (H ch)) (case replay_clamp facts of Bounded d \<Rightarrow> d | Unbounded \<Rightarrow> length (H ch))) ?r" by (simp add: honest_store_def)
  obtain k where k: "p \<le> k" "drain_window facts ?cur ?r =
      (drop k (numbered (H ch)), if k < length (H ch) \<and> facts_push_enabled facts then k - p else 0)"
    using drain_window_suffix [OF hr p(2)] by blast
  have same: "store_at ch w' = store_at ch w" "ss_active s' = ss_active s"
    using drain_channel_alive [OF assms(6,7)] by (simp_all add: store_at_def)
  show ?thesis
  proof (cases "k < length (H ch)")
    case False
    then have "drain_channel cx ch w s = Ret (w, s, Continue)" using p assms(4) f k(2) by (simp add: drain_channel_def store_for_address_at Let_def)
    then show ?thesis using assms(4,7) f p drain_window_empty [OF hr p(2), of facts] k(2) False by (auto simp: caught_up_def)
  next
    case True
    let ?xs = "drain_rows (if facts_push_enabled facts then k - p else 0) (drop k (numbered (H ch)))"
    have "drain_channel cx ch w s = send_pass cx ch ?xs w s"
      using p assms(4,5) f k(2) True by (auto simp: drain_channel_def store_for_address_at Let_def)
    moreover obtain c' rows where "mint_rows (cx_json cx) ch ?xs (ss_cursors s) = Ret (c', rows)"
        "pos_of ch c' = Some \<lparr>rs_epoch = E ch, rs_seq = length (H ch)\<rparr>"
      using mint_rows_minted [OF _ p(1) drain_rows_chained [OF True k(1) refl] order_refl] so True by (fastforce simp: pos_of_def)
    ultimately have "pos_of ch (ss_cursors s') = Some \<lparr>rs_epoch = E ch, rs_seq = length (H ch)\<rparr>"
      using assms(6,7) True by (auto simp: send_pass_def send_frame_def split: if_splits)
    then show ?thesis using same assms(4) f by (simp add: caught_up_def)
  qed
qed

lemma drain_list_other:
  assumes "aw_room w = None" "drain_list cx chs w s = Ret (w', s', out)" "d \<notin> set chs"
  shows "pos_of d (ss_cursors s') = pos_of d (ss_cursors s) \<and> ss_active s' = ss_active s \<and> (\<forall>ch. store_at ch w' = store_at ch w)"
  using assms
proof (induction chs arbitrary: w s)
  case (Cons ch chs)
  obtain w1 s1 out1 where d: "drain_channel cx ch w s = Ret (w1, s1, out1)" using Cons.prems(2) by (cases "drain_channel cx ch w s") auto
  note al = drain_channel_alive [OF Cons.prems(1) d]
  then show ?case using Cons.IH [of w1 s1] Cons.prems d drain_channel_other [OF d, of d] by (simp add: store_at_def)
qed simp

lemma drain_list_catches_up:
  assumes "json_ok (cx_json cx)" "stores_honest H E w" "session_books (cx_json cx) H E B w s" "\<forall>ch\<in>set chs. active_is ch (ss_active s)" "aw_room w = None"
  shows "\<exists>w' s'. drain_list cx chs w s = Ret (w', s', Continue) \<and> ss_active s' = ss_active s \<and>
    (\<forall>ch\<in>set chs. allows_channel_access (cx_policy cx) ch \<longrightarrow> caught_up H w' s' ch)"
  using assms(2-5)
proof (induction chs arbitrary: w s)
  case (Cons ch chs)
  obtain facts where f: "active_facts ch (ss_active s) = Some facts" using Cons.prems(3) by (auto simp: active_is_def active_facts_def)
  obtain w1 s1 out where d: "drain_channel cx ch w s = Ret (w1, s1, out)" "out \<noteq> Disconnect \<Longrightarrow> session_books (cx_json cx) H E B w1 s1"
    using serves_drain_channel [OF assms(1) Cons.prems(1,2) f] by (auto simp: serves_def)
  note al = drain_channel_alive [OF Cons.prems(4) d(1)]
  have "stores_honest H E w1" using al Cons.prems(1) by (simp add: stores_honest_def store_at_def)
  then obtain w2 s2 where r: "drain_list cx chs w1 s1 = Ret (w2, s2, Continue)" "ss_active s2 = ss_active s1"
      "\<forall>ch\<in>set chs. allows_channel_access (cx_policy cx) ch \<longrightarrow> caught_up H w2 s2 ch"
    using Cons.IH [of w1 s1] d(2) al Cons.prems(3) by auto
  have "caught_up H w2 s2 ch" if "allows_channel_access (cx_policy cx) ch" "ch \<notin> set chs"
    using drain_channel_catches_up [OF assms(1) Cons.prems(1,2) f that(1) Cons.prems(4) d(1)] drain_list_other [OF _ r(1) that(2)] al
    by (simp add: caught_up_def)
  then show ?case using d(1) r al by auto
qed simp

section \<open>A sample session\<close>

text \<open>A cursor text that parses back: sign, incarnation, epoch and sequence in unary, then the channel.\<close>

definition unary :: "nat \<Rightarrow> string" where
  "unary n = replicate n (CHR ''1'') @ ''0''"

definition unary_split :: "string \<Rightarrow> nat \<times> string" where
  "unary_split t = (length (takeWhile (\<lambda>c. c = CHR ''1'') t), tl (dropWhile (\<lambda>c. c = CHR ''1'') t))"

lemma unary_splits: "unary_split (unary n @ t) = (n, t)"
  by (induction n) (simp_all add: unary_def unary_split_def)

definition unary_json :: "nat cursor_json" where
  "unary_json = \<lparr>cj_to_string = (\<lambda>w. (if cw_incarnation w < 0 then ''-'' else ''+'') @ unary (nat (abs (cw_incarnation w)))
       @ unary (cw_epoch w) @ unary (cw_seq w) @ cw_channel w),
     cj_from_str = (\<lambda>t. case t of
         [] \<Rightarrow> Inl ''empty''
       | sign # rest \<Rightarrow>
           (let (i, rest) = unary_split rest; (ep, rest) = unary_split rest; (q, ch) = unary_split rest
            in Inr \<lparr>cw_incarnation = (if sign = CHR ''-'' then - int i else int i), cw_channel = ch, cw_epoch = ep, cw_seq = q\<rparr>))\<rparr>"

lemma unary_json_ok: "json_ok unary_json"
  by (auto simp: json_ok_def unary_json_def unary_splits)

definition room_letter :: "(nat, nat) message_envelope" where
  "room_letter = \<lparr>me_message_id = 1, me_source = ''s'', me_channel = ''ephemeral:room'', me_sender = ''app:a'', me_publish_ts = 0,
     me_body = ''hi'', me_reply_to = None, me_delivery_deadline = None, me_deliver_after = None, me_impetus = None,
     me_urgency = Normal, me_envelope_type = Ephemeral\<rparr>"

text \<open>A ring store of the room, after one publish.\<close>

definition room_store :: "(nat, nat) ring_store" where
  "room_store = \<lparr>rst_epoch = 7, rst_channel_uuid = 3, rst_address = ''ephemeral:room'', rst_capabilities = transportable_only,
     rst_publishes = 1, rst_state = \<lparr>rg_core = fst (core_append room_letter (core_new 7 4)), rg_app_slugs = []\<rparr>\<rparr>"

definition room_entry :: "nat channel_entry" where
  "room_entry = \<lparr>ce_uuid = 3, ce_address = ''ephemeral:room'', ce_description = None, ce_resolved_channel = plain_channel,
     ce_subscribers = [], ce_transport_type = Ephemeral, ce_mount = None\<rparr>"

definition quiet_bus :: "(nat, nat) bus" where
  "quiet_bus = \<lparr>bs_publish = (\<lambda>_. PrOk), bs_draw = (\<lambda>_. True), bs_defer = (\<lambda>_. DeferApplied), bs_batch = (\<lambda>_. 0),
     bs_parked = (\<lambda>_. []), bs_timestamp_millis = int, bs_from_timestamp_millis = (\<lambda>ms. Some (nat ms)), bs_timestamp_nanos = int\<rparr>"

definition room_world :: "(nat, nat) attach_world" where
  "room_world = \<lparr>aw_directory = with_entries [room_entry],
     aw_replay = (\<lambda>_ cursor limit. replay_from cursor limit room_store), aw_room = None, aw_out = [], aw_alerts = [],
     aw_bus = quiet_bus, aw_calls = []\<rparr>"

definition room_profile :: attach_profile where
  "room_profile = \<lparr>pf_attacher = ''remote:r'', pf_subscribable = (\<lambda>_. Some \<lparr>sf_push_depth = 2, sf_retain_depth = 4\<rparr>),
     pf_publishable = (\<lambda>_ _. False), pf_admit_attribution = (\<lambda>_. None), pf_publish_posture = (\<lambda>_. PostureDiagnostic),
     pf_attach_scope = scope_remote ''r'', pf_missing_channel_posture = MissingRace, pf_deferred_view_targets = [],
     pf_subscribe_burst = 4, pf_publish_rate = \<lparr>pr_burst = 1, pr_per_sec = 1\<rparr>, pf_alert_granted = False,
     pf_attribution_may_alert = (\<lambda>_. False), pf_session_caps = \<lparr>sk_per_attacher = 1, sk_per_account = 1\<rparr>,
     pf_max_active_subscriptions = 4, pf_runtime_entry = (\<lambda>_. None)\<rparr>"

definition room_policy :: "unit app_policy" where
  "room_policy = \<lparr>ap_grants = {EphemeralSubscribe},
     ap_acls = \<lparr>acl_mqtt_subscribe = [], acl_mqtt_publish = [], acl_brenn_subscribe = [], acl_brenn_publish = [],
       acl_ephemeral_subscribe = [MatchExact ''room''], acl_ephemeral_publish = [], acl_local_publish = [],
       acl_local_subscribe = [], acl_webhook = []\<rparr>, ap_tool_grants = []\<rparr>"

definition room_ctx :: "(nat, unit) session_ctx" where
  "room_ctx = \<lparr>cx_profile = room_profile, cx_policy = room_policy, cx_max_body_bytes = 100, cx_session_id = 5, cx_account = ''acc'',
     cx_json = unary_json, cx_escape_debug = (\<lambda>c. [c])\<rparr>"

definition room_parse :: "string \<Rightarrow> nat client_frame option" where
  "room_parse json =
     (if json = ''hello'' then Some (CHello supported_versions ''c'')
      else if json = ''sub'' then Some (Subscribe ''ephemeral:room'' 2 4 None) else None)"

abbreviation room_history :: "string \<Rightarrow> (nat, nat) message_envelope list" where
  "room_history \<equiv> (\<lambda>_. [room_letter])"

abbreviation room_epoch :: "string \<Rightarrow> nat" where
  "room_epoch \<equiv> (\<lambda>_. 7)"

lemma room_bus_ok: "bus_ok p quiet_bus"
  by (simp add: bus_ok_def quiet_bus_def)

lemma room_profile_ok: "profile_ok (cx_profile room_ctx)"
  by (simp add: profile_ok_def room_ctx_def room_profile_def)

lemma room_stores_honest: "stores_honest room_history room_epoch room_world"
proof -
  have ring: "rc_ring (the_core room_store) = fst (ring_append room_letter (ring_new 7 4))"
    by (simp add: room_store_def core_append_def core_new_def ring_append_def ring_new_def ring_trim_def Let_def)
  then have "ring_of_history [room_letter] (rc_ring (the_core room_store))"
    using ring_of_history_append [OF ring_of_history_new, of room_letter 7 4] by simp
  moreover have "rr_epoch (rc_ring (the_core room_store)) = rst_epoch room_store"
    by (simp add: ring) (simp add: room_store_def ring_append_def ring_new_def ring_trim_def Let_def)
  ultimately have "honest_store [room_letter] (rst_epoch room_store) (\<lambda>cursor limit. replay_from cursor limit room_store)"
    by (intro ring_store_honest) (simp_all add: u64_max_def)
  then show ?thesis by (simp add: stores_honest_def store_at_def room_world_def room_store_def)
qed

lemma room_replays:
  "replay_from None (Bounded 4) room_store = \<lparr>sr_epoch = 7, sr_messages = [\<lparr>r_seq = 1, r_message = room_letter\<rparr>], sr_decision = Fresh\<rparr>"
  "replay_from (Some \<lparr>rs_epoch = 7, rs_seq = Suc 0\<rparr>) (Bounded 4) room_store = \<lparr>sr_epoch = 7, sr_messages = [], sr_decision = UpToDate\<rparr>"
  by (simp_all add: replay_from_def rstore_replay_def ring_replay_def clamp_replay_def room_store_def core_append_def core_new_def
      ring_append_def ring_new_def ring_trim_def ring_newest_seq_def Let_def)

lemma room_access: "allows_channel_access room_policy ''ephemeral:room''"
  by (simp add: allows_channel_access_def scheme_split_def prefix_defs strip_prefix_def allows_ephemeral_delivery_def has_grant_def
      grant_has_def acl_covers_def) (simp add: room_policy_def)

abbreviation room_start :: "nat session_state" where
  "room_start \<equiv> \<lparr>ss_active = active_new {}, ss_cursors = cursors_new 2,
     ss_buckets = \<lparr>bk_subscribe = \<lparr>tb_capacity = 4, tb_refill_interval = 1000000000, tb_refill_amount = 1, tb_tokens = 4,
         tb_last_refill = 0, tb_suppressed = 0, tb_in_suppression = False\<rparr>,
       bk_publish = \<lparr>tb_capacity = 1, tb_refill_interval = 1000000000, tb_refill_amount = 1, tb_tokens = 1,
         tb_last_refill = 0, tb_suppressed = 0, tb_in_suppression = False\<rparr>,
       bk_alert = \<lparr>tb_capacity = 5, tb_refill_interval = 300000000000, tb_refill_amount = 1, tb_tokens = 5,
         tb_last_refill = 0, tb_suppressed = 0, tb_in_suppression = False\<rparr>\<rparr>, ss_counters = counters_default\<rparr>"

lemma room_new: "session_new 0 (cx_profile room_ctx) {} 2 = Ret room_start"
  by (simp add: session_new_def buckets_new_def subscribe_bucket_def bucket_new_def room_ctx_def room_profile_def Let_def
      nanos_per_sec_def subscribe_refill_def alert_burst_def alert_refill_def)

definition room_attached_world :: "(nat, nat) attach_world" where
  "room_attached_world = room_world\<lparr>aw_out := [SHello supported_versions ''b'',
     Welcome \<lparr>wf_version = 4, wf_participant_id = ''remote:r'', wf_session_id = ''id'', wf_heartbeat_secs = 30, wf_max_body_bytes = 100,
       wf_max_frame_bytes = 100 * json_escape_expansion + max_batch_ops * batch_op_overhead_bytes + publish_frame_overhead_bytes,
       wf_alert_granted = False\<rparr>]\<rparr>"

definition room_attached_state :: "nat session_state" where
  "room_attached_state = room_start\<lparr>ss_counters := counters_default\<lparr>ct_frames_out := 2\<rparr>\<rparr>"

lemma room_opens:
  "open_attachment u64_max (\<lambda>_. ''id'') room_ctx room_parse 30 ''b'' [WsPing, WsText ''hello''] room_world room_start =
     Ret (room_attached_world, room_attached_state, Attached)"
  by (simp add: open_attachment_def send_frame_def server_hello_def read_client_hello_def classify_hello_def room_parse_def
      negotiate_def supported_versions_def versions_exactly_def welcome_of_def max_client_frame_bytes_def seed_deferred_views_def
      room_ctx_def room_profile_def room_attached_world_def room_attached_state_def room_world_def counters_default_def
      json_escape_expansion_def max_batch_ops_def batch_op_overhead_bytes_def publish_frame_overhead_bytes_def u64_max_def Let_def)

definition room_ledger :: "(nat, nat) delivery_ledger" where
  "room_ledger = attached_at 0 room_history room_epoch room_attached_world room_attached_state"

definition room_run :: "(nat, nat) session_input list" where
  "room_run = [Occurs 5 (EvMessage (WsText ''sub'') (\<lambda>_. 0)), Occurs 6 (EvNudge [])]"

definition room_row :: "(nat, nat) deliver_row" where
  "room_row = \<lparr>dr_envelope = room_letter, dr_seq = 1, dr_cursor = cursor_mint unary_json 2 ''ephemeral:room'' \<lparr>rs_epoch = 7, rs_seq = 1\<rparr>,
     dr_dropped = 0\<rparr>"

definition room_subscribed :: "(nat, nat) session_loop" where
  "room_subscribed = \<lparr>lo_world = room_attached_world\<lparr>aw_out := aw_out room_attached_world @
       [SubscribeResult ''ephemeral:room'' SubscribeOk 1 None, Deliver ''ephemeral:room'' [room_row]]\<rparr>,
     lo_state = room_attached_state\<lparr>
       ss_active := \<lparr>ac_active = [(''ephemeral:room'', \<lparr>sf_push_depth = 2, sf_retain_depth = 4\<rparr>)], ac_shared = {''ephemeral:room''}\<rparr>,
       ss_cursors := \<lparr>wc_span_seq = [(''ephemeral:room'', 1)], wc_incarnation = 2,
         wc_pos = [(''ephemeral:room'', \<lparr>rs_epoch = 7, rs_seq = 1\<rparr>)]\<rparr>,
       ss_buckets := (ss_buckets room_start)\<lparr>bk_subscribe := (bk_subscribe (ss_buckets room_start))\<lparr>tb_tokens := 3\<rparr>\<rparr>,
       ss_counters := counters_default\<lparr>ct_frames_in := 1, ct_frames_out := 4\<rparr>\<rparr>,
     lo_last_inbound = 5, lo_exit = None\<rparr>"

lemma room_admits:
  "admit_subscribe room_ctx \<lparr>sq_channel = ''ephemeral:room'', sq_push_depth = 2, sq_retain_depth = 4, sq_resume = None\<rparr> (active_new {}) =
     Inr (\<lparr>sf_push_depth = 2, sf_retain_depth = 4\<rparr>, None)"
  by (simp add: admit_subscribe_def room_ctx_def room_profile_def active_new_def active_is_def active_len_def Let_def)

lemma room_resolves: "dir_resolve ''ephemeral:room'' (aw_directory room_world) = Some room_entry"
  by (simp add: room_world_def with_entries_def from_arcs_def directory_new_def dir_resolve_def room_entry_def)

lemma room_subscribes:
  "read_event room_ctx room_parse id_text heartbeat 5 (EvMessage (WsText ''sub'') clk)
     \<lparr>lo_world = room_attached_world, lo_state = room_attached_state, lo_last_inbound = 0, lo_exit = None\<rparr> = Ret room_subscribed"
proof -
  have "admit_subscribe room_ctx \<lparr>sq_channel = ''ephemeral:room'', sq_push_depth = 2, sq_retain_depth = 4, sq_resume = None\<rparr>
      \<lparr>ac_active = [], ac_shared = {}\<rparr> = Inr (\<lparr>sf_push_depth = 2, sf_retain_depth = 4\<rparr>, None)"
    using room_admits by (simp add: active_new_def)
  moreover have "dir_resolve ''ephemeral:room'' (with_entries [room_entry]) = Some room_entry" using room_resolves by (simp add: room_world_def)
  moreover have "allows_channel_access (cx_policy room_ctx) ''ephemeral:room''" using room_access by (simp add: room_ctx_def)
  moreover have "ensure_runtime_entry room_ctx entry ch w = w" for entry ch and w :: "(nat, nat) attach_world"
    by (simp add: ensure_runtime_entry_def room_ctx_def room_profile_def)
  moreover have "cx_json room_ctx = unary_json" by (simp add: room_ctx_def)
  ultimately show ?thesis
    by (simp add: read_event_def after_frame_def handle_client_frame_def room_parse_def charged_subscription_def charge_subscribe_token_def
        try_consume_def try_consume_n_def bucket_refill_def handle_subscribe_def count_frame_in_def map_counters_def active_new_def
        room_attached_state_def room_attached_world_def room_world_def room_replays replay_clamp_def start_span_def cursors_new_def
        send_frame_def send_pass_def cursors_next_def next_span_seq_def activate_def room_row_def room_subscribed_def counters_default_def Let_def)
qed

lemma room_drains:
  "read_event room_ctx room_parse id_text heartbeat at (EvNudge []) room_subscribed = Ret room_subscribed"
proof -
  have "dir_resolve ''ephemeral:room'' (with_entries [room_entry]) = Some room_entry" using room_resolves by (simp add: room_world_def)
  then show ?thesis
    by (simp add: read_event_def after_send_def drain_all_def active_names_def drain_channel_def pos_of_def active_facts_def
        store_for_address_def room_subscribed_def room_attached_world_def room_world_def replay_clamp_def room_replays [simplified] drain_window_def Let_def)
qed

lemma room_up: "lo_exit room_subscribed = None"
  by (simp add: room_subscribed_def)

lemma room_json: "cx_json room_ctx = unary_json"
  by (simp add: room_ctx_def)

lemma room_legal:
  "legal_run (delivery_step room_ctx room_parse id_text heartbeat) (delivery_legal room_ctx)
     (attached_at 0 room_history room_epoch room_attached_world room_attached_state) room_run"
  by (simp add: room_run_def attached_at_def room_subscribes room_drains room_up)

definition room_final :: "(nat, nat) delivery_ledger" where
  "room_final = \<lparr>dl_loop = room_subscribed, dl_history = room_history, dl_epoch = room_epoch, dl_base = (\<lambda>_. None)\<rparr>"

lemma room_runs:
  "run (delivery_step room_ctx room_parse id_text heartbeat)
     (attached_at 0 room_history room_epoch room_attached_world room_attached_state) room_run = Ret (room_final, [(), ()])"
proof -
  have "base_after unary_json (room_parse ''sub'') (drop (length (aw_out room_attached_world)) (aw_out (lo_world room_subscribed))) (\<lambda>_. None) = (\<lambda>_. None)"
    by (simp add: room_parse_def room_subscribed_def resumed_at_def fun_upd_idem)
  then show ?thesis
    by (simp add: room_run_def attached_at_def room_subscribes room_drains room_final_def room_json)
qed

lemma room_world_bus: "aw_bus room_world = quiet_bus"
  by (simp add: room_world_def)

lemmas room_session = unary_json_ok [folded room_json] room_profile_ok room_bus_ok [folded room_world_bus] room_stores_honest room_new room_opens room_legal

lemma room_books:
  "active_facts ''ephemeral:room'' (ss_active (lo_state room_subscribed)) = Some \<lparr>sf_push_depth = 2, sf_retain_depth = 4\<rparr>"
  "span_passes ''ephemeral:room'' (aw_out (lo_world room_subscribed)) = [[room_row]]"
  "ss_cursors (lo_state room_subscribed) = \<lparr>wc_span_seq = [(''ephemeral:room'', 1)], wc_incarnation = 2,
     wc_pos = [(''ephemeral:room'', \<lparr>rs_epoch = 7, rs_seq = 1\<rparr>)]\<rparr>"
  by (simp_all add: room_subscribed_def active_facts_def span_passes_def room_attached_world_def)

definition room_client :: subscriptions where
  "room_client = \<lparr>su_channels = [(''ephemeral:room'', \<lparr>cs_refcount = 1, cs_depths = \<lparr>sd_push_depth = 2, sd_retain_depth = 4\<rparr>,
     cs_resume_policy = Resume, cs_wire = Active, cs_token = None, cs_span_hw = None, cs_has_been_active = True,
     cs_straggler_reported = False, cs_stated = None\<rparr>)], su_live = True\<rparr>"

section \<open>Properties\<close>



text \<open>C2. Server and client planes agree. Whatever a session has delivered on an active channel, a client whose
  subscription was opened by the same answer accepts every pass of it, is told of exactly the losses
  the passes report, and, where it keeps a resume token, holds after the last of them a token that parses
  to the very position the server has the subscription at.\<close>

theorem client_accepts_session:
  assumes "json_ok (cx_json cx)" "profile_ok (cx_profile cx)" "bus_ok (cx_profile cx) (aw_bus w)" "stores_honest H E w"
    and "session_new now (cx_profile cx) shared inc = Ret s"
    and "open_attachment usize_max id_simple cx parse heartbeat_secs ident ms w s = Ret (w0, s0, Attached)"
    and "legal_run (delivery_step cx parse id_text heartbeat) (delivery_legal cx) (attached_at at H E w0 s0) is"
    and "run (delivery_step cx parse id_text heartbeat) (attached_at at H E w0 s0) is = Ret (l, outs)"
    and "lo_exit (dl_loop l) = None" "active_is ch (ss_active (lo_state (dl_loop l)))"
    and "map_of (su_channels c) ch = Some e" "cs_wire e = Active" "cs_has_been_active e" "cs_span_hw e = None"
  shows "\<exists>c' e'. deliver_passes ch (span_passes ch (dl_out l)) c =
      (c', map (\<lambda>rows. Inr (Accept (dr_dropped (hd rows)))) (span_passes ch (dl_out l))) \<and>
    map_of (su_channels c') ch = Some e' \<and>
    (cs_resume_policy e = Resume \<and> span_passes ch (dl_out l) \<noteq> [] \<longrightarrow>
      (\<exists>token st. cs_token e' = Some token \<and> cursor_parse (cx_json cx) token = Inr st \<and> cu_channel st = ch \<and>
         pos_of ch (ss_cursors (lo_state (dl_loop l))) = Some (cu_resume st)))"
proof -
  let ?ps = "span_passes ch (dl_out l)" and ?s = "lo_state (dl_loop l)"
  obtain facts where f: "active_facts ch (ss_active ?s) = Some facts" using assms(10) by (auto simp: active_is_def active_facts_def)
  have "delivery_ok cx l"
    using delivery_sys.legal_run_ok [OF attached_at_ok [OF assms(1-6)] assms(7)] assms(8) by auto
  then obtain p where p: "pos_of ch (ss_cursors ?s) = Some \<lparr>rs_epoch = dl_epoch l ch, rs_seq = p\<rparr>"
      "span_ledger (cx_json cx) (wc_incarnation (ss_cursors ?s)) (dl_history l ch) (dl_epoch l ch) (dl_base l ch) ch (facts_push_enabled facts) ?ps p"
    using session_booksD(2) [OF delivery_okD(5) f] assms(9) by (auto simp: span_ok_def)
  have sh: "list_all pass_shape ?ps" and seqs: "map dr_seq (concat ?ps) = [Suc 0..<Suc 0 + length (concat ?ps)]"
    using p(2) by (simp_all add: span_ledger_def)
  obtain c' e' where c': "deliver_passes ch ?ps c = (c', map (\<lambda>rows. Inr (Accept (dr_dropped (hd rows)))) ?ps)"
      "map_of (su_channels c') ch = Some e'" "cs_resume_policy e = Resume \<and> ?ps \<noteq> [] \<longrightarrow> cs_token e' = Some (dr_cursor (last (concat ?ps)))"
    using deliver_passes_rising [OF assms(11-13) _ sh seqs] assms(14) by auto
  have last: "\<exists>st. cursor_parse (cx_json cx) (dr_cursor (last (concat ?ps))) = Inr st \<and> cu_channel st = ch \<and>
      cu_resume st = \<lparr>rs_epoch = dl_epoch l ch, rs_seq = p\<rparr>" if "?ps \<noteq> []"
  proof -
    have ne: "concat ?ps \<noteq> []" using that sh by (cases ?ps) (auto simp: pass_shape_def)
    have "p = row_pos (cx_json cx) (last (concat ?ps))"
      using p(2) ne chained_last by (fastforce simp: span_ledger_def row_positions_def last_map)
    moreover have "row_genuine (cx_json cx) (wc_incarnation (ss_cursors ?s)) (dl_history l ch) (dl_epoch l ch) ch (last (concat ?ps))"
      using p(2) last_in_set [OF ne] unfolding span_ledger_def list_all_iff by blast
    ultimately show ?thesis by (simp add: row_genuine_def Let_def)
  qed
  show ?thesis
  proof (intro exI conjI impI)
    show "deliver_passes ch ?ps c = (c', map (\<lambda>rows. Inr (Accept (dr_dropped (hd rows)))) ?ps)" by (rule c'(1))
    show "map_of (su_channels c') ch = Some e'" by (rule c'(2))
    assume a: "cs_resume_policy e = Resume \<and> ?ps \<noteq> []"
    then show "cs_token e' = Some (dr_cursor (last (concat ?ps)))" using c'(3) by blast
    from last a obtain st where st: "cursor_parse (cx_json cx) (dr_cursor (last (concat ?ps))) = Inr st" "cu_channel st = ch"
      "cu_resume st = \<lparr>rs_epoch = dl_epoch l ch, rs_seq = p\<rparr>" by blast
    show "cursor_parse (cx_json cx) (dr_cursor (last (concat ?ps))) = Inr (projr (cursor_parse (cx_json cx) (dr_cursor (last (concat ?ps)))))"
      "cu_channel (projr (cursor_parse (cx_json cx) (dr_cursor (last (concat ?ps))))) = ch"
      "pos_of ch (ss_cursors ?s) = Some (cu_resume (projr (cursor_parse (cx_json cx) (dr_cursor (last (concat ?ps))))))"
      using st p(1) by simp_all
  qed
qed

theorem client_accepts_session_witness:
  "\<exists>c' e' token st. deliver_passes ''ephemeral:room'' [[room_row]] room_client = (c', [Inr (Accept 0)]) \<and>
     map_of (su_channels c') ''ephemeral:room'' = Some e' \<and> cs_token e' = Some token \<and>
     cursor_parse unary_json token = Inr st \<and> cu_resume st = \<lparr>rs_epoch = 7, rs_seq = 1\<rparr>"
proof -
  have a: "active_is ''ephemeral:room'' (ss_active (lo_state (dl_loop room_final)))"
    using room_books(1) by (simp add: room_final_def active_is_def active_facts_def)
  have d: "dr_dropped room_row = 0" by (simp add: room_row_def)
  show ?thesis
    using client_accepts_session [OF room_session room_runs [of "\<lambda>_. ''x''" 30] _ a, of room_client]
    by (auto simp: room_client_def room_final_def room_up room_json room_books d pos_of_def)
qed

text \<open>C40. A session subscribed to a channel the directory no longer has panics at its next nudge, its writer being alive,
  whichever of its channels that is and whatever the others hold: retention is looked up by an address
  that must resolve. A \<open>Subscribe\<close> naming such a channel is answered \<open>SubscribeUnavailable\<close> instead.\<close>

theorem deprovisioned_drain_panics:
  assumes "active_is ch (ss_active s)" "dir_resolve ch (aw_directory w) = None" "aw_room w = None"
  shows "drain_all cx w s = Panic \<and>
    read_event cx parse id_text heartbeat at (EvNudge []) \<lparr>lo_world = w, lo_state = s, lo_last_inbound = t, lo_exit = None\<rparr> = Panic \<and>
    (admit_subscribe cx q (ss_active s') = Inr admitted \<and> sq_channel q = ch \<longrightarrow>
      (\<exists>w1 s1. handle_subscribe cx q w s' = Ret (w1, s1, Continue) \<and>
         aw_out w1 = aw_out w @ [SubscribeResult ch SubscribeUnavailable 0 None]))"
proof -
  have "drain_list cx chs w s = Panic" if "ch \<in> set chs" "dir_resolve ch (aw_directory w) = None" "aw_room w = None" for chs w s
    using that
  proof (induction chs arbitrary: w s)
    case (Cons c chs)
    show ?case
    proof (cases "drain_channel cx c w s")
      case (Ret r)
      obtain w' s' out where r: "r = (w', s', out)" by (cases r)
      have "c \<noteq> ch" using Ret drain_unresolved [OF Cons.prems(2), of cx s] by auto
      then show ?thesis using Ret r Cons drain_channel_alive [OF Cons.prems(3), of cx c s w' s' out] by simp
    qed simp
  qed simp
  moreover have "ch \<in> set (active_names (ss_active s))"
    using assms(1) by (auto simp: active_is_def active_names_def map_of_eq_None_iff image_iff dest: map_of_SomeD)
  ultimately have d: "drain_all cx w s = Panic" using assms(2,3) by (simp add: drain_all_def)
  then show ?thesis using assms(2,3)
    by (auto simp: read_event_def after_send_def Let_def handle_subscribe_def send_frame_def split: prod.split)
qed

theorem deprovisioned_drain_panics_witness:
  "drain_all room_ctx (room_world\<lparr>aw_directory := directory_new\<rparr>) (lo_state room_subscribed) = Panic \<and>
   (\<exists>w1 s1. handle_subscribe room_ctx \<lparr>sq_channel = ''ephemeral:room'', sq_push_depth = 2, sq_retain_depth = 4, sq_resume = None\<rparr>
      (room_world\<lparr>aw_directory := directory_new\<rparr>) room_start = Ret (w1, s1, Continue) \<and>
      aw_out w1 = [SubscribeResult ''ephemeral:room'' SubscribeUnavailable 0 None])"
proof -
  let ?q = "\<lparr>sq_channel = ''ephemeral:room'', sq_push_depth = 2, sq_retain_depth = 4, sq_resume = None\<rparr>"
  let ?w = "room_world\<lparr>aw_directory := directory_new\<rparr>"
  have "active_is ''ephemeral:room'' (ss_active (lo_state room_subscribed))"
    using room_books(1) by (simp add: active_is_def active_facts_def)
  moreover have "dir_resolve ''ephemeral:room'' (aw_directory ?w) = None" by (simp add: directory_new_def dir_resolve_def)
  moreover have "aw_room ?w = None" "aw_out ?w = []" by (simp_all add: room_world_def)
  ultimately show ?thesis
    using deprovisioned_drain_panics [of "''ephemeral:room''" "lo_state room_subscribed" ?w room_ctx room_parse "\<lambda>_. ''x''" 30 9 0 ?q room_start]
      room_admits by simp
qed

text \<open>C9. A nudge catches a session up: on any reachable session still reading whose writer takes frames, the drain ends and
  leaves every active channel the policy lets through at its newest position, unless retention has nothing
  at all to send for it.\<close>

theorem nudge_catches_up:
  assumes "json_ok (cx_json cx)" "profile_ok (cx_profile cx)" "bus_ok (cx_profile cx) (aw_bus w)" "stores_honest H E w"
    and "session_new now (cx_profile cx) shared inc = Ret s"
    and "open_attachment usize_max id_simple cx parse heartbeat_secs ident ms w s = Ret (w0, s0, Attached)"
    and "legal_run (delivery_step cx parse id_text heartbeat) (delivery_legal cx) (attached_at at H E w0 s0) is"
    and "run (delivery_step cx parse id_text heartbeat) (attached_at at H E w0 s0) is = Ret (l, outs)"
    and "lo_exit (dl_loop l) = None" "aw_room (lo_world (dl_loop l)) = None"
  shows "\<exists>lo. read_event cx parse id_text heartbeat t (EvNudge []) (dl_loop l) = Ret lo \<and> lo_exit lo = None \<and>
    ss_active (lo_state lo) = ss_active (lo_state (dl_loop l)) \<and>
    (\<forall>ch. active_is ch (ss_active (lo_state lo)) \<and> allows_channel_access (cx_policy cx) ch \<longrightarrow>
       caught_up (dl_history l) (lo_world lo) (lo_state lo) ch)"
proof -
  let ?w = "lo_world (dl_loop l)" and ?s = "lo_state (dl_loop l)"
  have ok: "delivery_ok cx l" using delivery_sys.legal_run_ok [OF attached_at_ok [OF assms(1-6)] assms(7)] assms(8) by auto
  have names: "active_is ch (ss_active ?s) \<longleftrightarrow> ch \<in> set (active_names (ss_active ?s))" for ch
    by (force simp: active_is_def active_names_def map_of_eq_None_iff)
  obtain w' s' where d: "drain_all cx ?w ?s = Ret (w', s', Continue)" "ss_active s' = ss_active ?s"
      "\<forall>ch\<in>set (active_names (ss_active ?s)). allows_channel_access (cx_policy cx) ch \<longrightarrow> caught_up (dl_history l) w' s' ch"
    using drain_list_catches_up [OF assms(1) delivery_okD(3) [OF ok] delivery_okD(5) [OF ok assms(9)] _ assms(10), of "active_names (ss_active ?s)"] names
    unfolding drain_all_def by blast
  then show ?thesis using names by (simp add: read_event_def after_send_def Let_def)
qed

theorem nudge_catches_up_witness:
  "\<exists>lo. read_event room_ctx room_parse (\<lambda>_. ''x'') 30 9 (EvNudge []) room_subscribed = Ret lo \<and>
     caught_up room_history (lo_world lo) (lo_state lo) ''ephemeral:room''"
proof -
  have "active_is ''ephemeral:room'' (ss_active (lo_state room_subscribed))"
    using room_books(1) by (simp add: active_is_def active_facts_def)
  moreover have "allows_channel_access (cx_policy room_ctx) ''ephemeral:room''" using room_access by (simp add: room_ctx_def)
  moreover have "aw_room (lo_world room_subscribed) = None" by (simp add: room_subscribed_def room_attached_world_def room_world_def)
  ultimately show ?thesis
    using nudge_catches_up [OF room_session room_runs [of "\<lambda>_. ''x''" 30], of 9] by (auto simp: room_final_def room_up)
qed

end
