(* ===== verification/Publish_Plane.thy ===== *)
theory Publish_Plane
  imports Delivery
begin

text \<open>
  What reaches the bus from an attach session, and what kills one. Every call a client frame makes the
  session place is on a channel its attribution may write, under an attribution the profile admits and the
  session's own scope; a frame that ends in a violation has published nothing. A batch that an
  activation's gate admitted (\<^verbatim>\<open>brenn-budget/src/gate.rs\<close>) and the batch law lets through
  (\<^verbatim>\<open>attach/proto/src/lib.rs\<close>) never ends in one (\<^verbatim>\<open>attach/server/src/publish.rs\<close>).
\<close>

section \<open>Admitted calls\<close>

definition writable :: "('u, 'g) session_ctx \<Rightarrow> string option \<Rightarrow> string \<Rightarrow> bool" where
  "writable cx attribution ch \<longleftrightarrow>
     pf_publishable (cx_profile cx) attribution ch \<and> \<not> is_local_channel ch \<and>
     (\<exists>scheme. scheme_of ch = Some scheme \<and> well_formed_name ch scheme \<noteq> None)"

definition speaks_as :: "('u, 'g) session_ctx \<Rightarrow> attach_scope \<Rightarrow> string option \<Rightarrow> bool" where
  "speaks_as cx scope attribution \<longleftrightarrow>
     scope = pf_attach_scope (cx_profile cx) \<and> pf_admit_attribution (cx_profile cx) attribution \<noteq> None"

definition controls :: "('u, 'g) session_ctx \<Rightarrow> participant_id \<Rightarrow> string \<Rightarrow> bool" where
  "controls cx sender ch \<longleftrightarrow>
     (\<exists>attribution. pf_admit_attribution (cx_profile cx) attribution = Some sender \<and> writable cx attribution ch)"

fun call_admitted :: "('u, 'g) session_ctx \<Rightarrow> ('u, 't) bus_call \<Rightarrow> bool" where
  "call_admitted cx (BusPublish scope attribution ch body urgency) \<longleftrightarrow>
     speaks_as cx scope attribution \<and> writable cx attribution ch \<and> length body \<le> cx_max_body_bytes cx"
| "call_admitted cx (BusDraw scope attribution n) \<longleftrightarrow> speaks_as cx scope attribution \<and> 1 \<le> n"
| "call_admitted cx (BusCancel ch sender message at) \<longleftrightarrow> controls cx sender ch"
| "call_admitted cx (BusEdit ch sender message body release at) \<longleftrightarrow> controls cx sender ch"
| "call_admitted cx (BusRace sender ch) \<longleftrightarrow> controls cx sender ch"
| "call_admitted cx BusKick \<longleftrightarrow> True"
| "call_admitted cx (BusBatch scope attribution batch posture) \<longleftrightarrow>
     speaks_as cx scope attribution \<and> list_all (\<lambda>e. writable cx attribution (ab_channel_address e)) batch \<and>
     sorted_wrt (<) (map ab_publish_ts_ns batch) \<and> length batch \<le> max_publishes_per_activation"
| "call_admitted cx (BusParked ch sender) \<longleftrightarrow> (\<exists>attribution. pf_admit_attribution (cx_profile cx) attribution = Some sender)"
| "call_admitted cx (BusView key view) \<longleftrightarrow>
     key = registry_key (pf_attach_scope (cx_profile cx)) \<and> pf_admit_attribution (cx_profile cx) (dvp_attribution view) \<noteq> None"

fun publishes :: "('u, 't) bus_call \<Rightarrow> bool" where
  "publishes (BusPublish scope attribution ch body urgency) = True"
| "publishes (BusBatch scope attribution batch posture) = True"
| "publishes _ = False"

definition places :: "('u, 'g) session_ctx \<Rightarrow> bool \<Rightarrow> ('u, 't) attach_world \<Rightarrow> ('u, 't) attach_world \<Rightarrow> bool" where
  "places cx silent w w' \<longleftrightarrow> aw_bus w' = aw_bus w \<and>
     (\<exists>cs. aw_calls w' = aw_calls w @ cs \<and> list_all (call_admitted cx) cs \<and> (silent \<longrightarrow> \<not> list_ex publishes cs))"

lemma places_refl: "aw_calls w' = aw_calls w \<Longrightarrow> aw_bus w' = aw_bus w \<Longrightarrow> places cx silent w w'"
  by (simp add: places_def)

lemma places_trans: "places cx silent w w1 \<Longrightarrow> places cx silent w1 w2 \<Longrightarrow> places cx silent w w2"
  by (auto simp: places_def)

lemma places_call: "call_admitted cx c \<Longrightarrow> (silent \<Longrightarrow> \<not> publishes c) \<Longrightarrow> places cx silent w (call_bus c w)"
  by (auto simp: places_def call_bus_def)

lemma places_loud: "places cx silent w w' \<Longrightarrow> places cx False w w'"
  by (auto simp: places_def)

lemma places_quiet: "places cx True w w' \<Longrightarrow> places cx silent w w'"
  by (auto simp: places_def)

lemma places_prefix: "places cx silent w w' \<Longrightarrow> prefix (aw_calls w) (aw_calls w')"
  by (auto simp: places_def)

lemma send_frame_calls: "send_frame f w s = (w', s', out) \<Longrightarrow> aw_calls w' = aw_calls w \<and> aw_bus w' = aw_bus w \<and> (out = Continue \<or> out = Disconnect)"
  by (auto simp: send_frame_def split: if_splits)

lemma places_send: "places cx silent w w1 \<Longrightarrow> send_frame f w1 s = (w', s', out) \<Longrightarrow> places cx silent w w'"
  using send_frame_calls by (fastforce simp: places_def)

section \<open>The steps of a batch\<close>

lemma assert_publishable_writable: "assert_publishable cx attribution ch what = Ret (Inr u) \<Longrightarrow> writable cx attribution ch"
  by (auto simp: assert_publishable_def writable_def split: if_splits option.splits)

lemma Inr_case_iff: "Inr y = (case x of Inl e \<Rightarrow> Inl e | Inr z \<Rightarrow> Inr (f z)) \<longleftrightarrow> (\<exists>z. x = Inr z \<and> y = f z)"
  by (cases x) auto

lemma resolve_entries_writable:
  "resolve_batch_entries cx fm attribution at es = Ret (Inr rs) \<Longrightarrow>
    map re_channel rs = map be_channel es \<and> list_all (\<lambda>r. writable cx attribution (re_channel r)) rs"
proof (induction es arbitrary: rs)
  case (Cons e es)
  then obtain ok where "assert_publishable cx attribution (be_channel e) ''PublishBatch entry'' = Ret ok" by (auto simp: exec_bind_Ret_iff)
  then show ?case using Cons
    by (cases ok) (auto simp: exec_map_Ret_iff Inr_case_iff dest: assert_publishable_writable split: sum.split_asm)
qed simp

lemma resolve_ops_writable:
  "resolve_deferred_ops cx fm attribution ops = Ret (Inr rs) \<Longrightarrow> list_all (\<lambda>r. writable cx attribution (ro_channel r)) rs"
proof (induction ops arbitrary: rs)
  case (Cons op ops)
  then obtain ok where "assert_publishable cx attribution (bo_channel op) ''PublishBatch control op'' = Ret ok" by (auto simp: exec_bind_Ret_iff)
  then show ?case using Cons
    by (cases ok) (auto simp: exec_map_Ret_iff Inr_case_iff dest: assert_publishable_writable split: sum.split_asm)
qed simp

lemma stamps_increase: "sorted_wrt (<) (map ab_publish_ts_ns (stamp_entries ns clk k prev es))"
proof -
  have above: "\<forall>e\<in>set (stamp_entries ns clk k (Some prev) es). prev < ab_publish_ts_ns e" for k prev es
    by (induction es arbitrary: k prev) (fastforce simp: Let_def)+
  show ?thesis
  proof (induction es arbitrary: k prev)
    case (Cons e es)
    then show ?case using above by (auto simp: Let_def)
  qed simp
qed

lemma stamps_channels: "map ab_channel_address (stamp_entries ns clk k prev es) = map re_channel es"
  by (induction es arbitrary: k prev) (simp_all add: Let_def)

lemma places_apply_ops:
  assumes "pf_admit_attribution (cx_profile cx) attribution = Some sender" "list_all (\<lambda>op. writable cx attribution (ro_channel op)) ops"
    "apply_ops cx id_text sender now ops chs any w = (w', chs', any', stopped)"
  shows "places cx True w w' \<and>
    (stopped \<noteq> None \<longrightarrow> length (aw_calls w) < length (aw_calls w') \<and> bs_defer (aw_bus w) (aw_calls w') = DeferWrongSender)"
  using assms(2,3)
proof (induction ops arbitrary: chs any w)
  case Nil
  then show ?case by (simp add: places_refl)
next
  case (Cons op ops)
  let ?c = "case ro_edit op of None \<Rightarrow> BusCancel (ro_channel op) sender (ro_message_id op) now
    | Some (body, release_at) \<Rightarrow> BusEdit (ro_channel op) sender (ro_message_id op) body release_at now"
  have ctl: "controls cx sender (ro_channel op)" using assms(1) Cons.prems(1) by (auto simp: controls_def)
  have p1: "places cx True w (call_bus ?c w)" using ctl by (intro places_call) (auto split: option.split)
  have p2: "places cx True w (call_bus (BusRace sender (ro_channel op)) (call_bus ?c w))"
    using ctl by (intro places_trans [OF p1] places_call) simp_all
  have ws: "list_all (\<lambda>op. writable cx attribution (ro_channel op)) ops" using Cons.prems(1) by simp
  have len: "length (aw_calls (call_bus c w)) = Suc (length (aw_calls w))" for c and w :: "('a, 'c) attach_world" by (simp add: call_bus_def)
  have rest: ?case if "places cx True w w1" "length (aw_calls w) < length (aw_calls w1)" "aw_bus w1 = aw_bus w"
      "apply_ops cx id_text sender now ops chs1 any1 w1 = (w', chs', any', stopped)" for w1 chs1 any1
    using Cons.IH [OF ws that(4)] that places_trans [OF that(1)] by auto
  show ?case
  proof (cases "bs_defer (aw_bus w) (aw_calls (call_bus ?c w))")
    case DeferApplied
    then show ?thesis using Cons.prems(2) by (intro rest [OF p1]) (simp_all add: len apply_deferred_op_def Let_def)
  next
    case (NotDeferred x)
    then show ?thesis using Cons.prems(2) by (intro rest [OF p2]) (simp_all add: len apply_deferred_op_def Let_def)
  next
    case DeferWrongSender
    then show ?thesis using Cons.prems(2) p1 len [of ?c w] by (auto simp: apply_deferred_op_def Let_def)
  qed
qed

lemma places_emit_views:
  assumes "emit_views cx attribution chs w = Ret w'"
  shows "places cx True w w'"
proof -
  have "broadcast_each cx attribution chs w = Ret w' \<Longrightarrow> places cx True w w'" for chs w
  proof (induction chs arbitrary: w)
    case (Cons ch chs)
    then obtain w1 where w1: "broadcast_deferred_view cx attribution ch w = Ret w1" "broadcast_each cx attribution chs w1 = Ret w'"
      by (auto simp: exec_bind_Ret_iff)
    then obtain sender es where "pf_admit_attribution (cx_profile cx) attribution = Some sender"
        "w1 = call_bus (BusView (registry_key (pf_attach_scope (cx_profile cx)))
           \<lparr>dvp_channel = ch, dvp_attribution = attribution, dvp_entries = es\<rparr>) (call_bus (BusParked ch sender) w)"
      by (auto simp: broadcast_deferred_view_def parked_sender_def exec_bind_Ret_iff exec_map_Ret_iff Let_def split: option.splits)
    then have "places cx True w w1" by (auto intro!: places_trans [OF places_call places_call])
    then show ?case using Cons.IH [OF w1(2)] places_trans by blast
  qed (simp add: places_refl)
  then show ?thesis using assms by (simp add: emit_views_def)
qed

section \<open>The handlers\<close>

definition answers :: "('u, 'g) session_ctx \<Rightarrow> ('u, 't) attach_world \<Rightarrow> ('u, 't) session_result \<Rightarrow> bool" where
  "answers cx w r \<longleftrightarrow>
     (\<forall>w' s' out. r = Ret (w', s', out) \<longrightarrow>
        places cx (\<exists>detail. out = Violation detail) w w' \<and>
        ((\<exists>detail. out = Violation detail) \<and> aw_calls w' \<noteq> aw_calls w \<longrightarrow>
           (\<exists>calls. prefix calls (aw_calls w') \<and> length (aw_calls w) < length calls \<and> bs_defer (aw_bus w) calls = DeferWrongSender)))"

lemma answers_still: "aw_calls w1 = aw_calls w \<Longrightarrow> aw_bus w1 = aw_bus w \<Longrightarrow> answers cx w (Ret (w1, s1, out))"
  by (simp add: answers_def places_refl)

lemma answers_send:
  assumes "places cx silent w w1"
  shows "answers cx w (Ret (send_frame f w1 s))"
  using send_frame_calls [of f w1 s] places_send [OF places_loud [OF assms], of f s] by (force simp: answers_def)

lemma answers_send_plain: "answers cx w (Ret (send_frame f w s))"
  by (rule answers_send [OF places_refl]) simp_all

lemma admitted_Inr: "admit_attribution_or_violate cx attribution what = Inr who \<Longrightarrow> pf_admit_attribution (cx_profile cx) attribution = Some who"
  by (simp add: admit_attribution_or_violate_def split: option.splits)

lemma answers_publish: "answers cx w (handle_publish cx now q w s)"
proof -
  let ?a = "pq_attribution q" and ?ch = "pq_channel q"
  let ?call = "BusPublish (pf_attach_scope (cx_profile cx)) ?a ?ch (pq_body q) (pq_urgency q)"
  consider (refused) v where "admit_attribution_or_violate cx ?a ''Publish'' = Inl v"
    | (admitted) who where "admit_attribution_or_violate cx ?a ''Publish'' = Inr who" by (meson sumE)
  then show ?thesis
  proof cases
    case refused
    then show ?thesis by (simp add: handle_publish_def Let_def answers_still)
  next
    case admitted
    show ?thesis
    proof (cases "assert_publishable cx ?a ?ch ''Publish''")
      case (Ret ok)
      show ?thesis
      proof (cases ok)
        case (Inl v)
        then show ?thesis using admitted Ret by (simp add: handle_publish_def Let_def answers_still)
      next
        case (Inr u)
        have "writable cx ?a ?ch" using Ret Inr assert_publishable_writable by blast
        then have p: "length (pq_body q) \<le> cx_max_body_bytes cx \<Longrightarrow> places cx False w (call_bus ?call w)"
          using admitted_Inr [OF admitted] by (intro places_call) (simp_all add: speaks_as_def)
        have settled: "answers cx w (exec_map (\<lambda>(c, outcome). send_frame (f outcome) (call_bus ?call w) (g c)) r)"
          if "length (pq_body q) \<le> cx_max_body_bytes cx" for f g r
          using answers_send [OF p [OF that]] by (cases r) (auto simp: answers_def split: prod.split)
        obtain b drawn where "try_consume now (bk_publish (ss_buckets s)) = Ret (b, drawn)" using try_consume_returns by blast
        then show ?thesis using admitted Ret Inr settled
          by (auto simp: handle_publish_def Let_def intro: answers_still answers_send_plain split: bucket_outcome.split)
      qed
    qed (use admitted in \<open>simp add: handle_publish_def Let_def answers_def\<close>)
  qed
qed

lemma answers_apply_batch:
  assumes "places cx True w w0" "speaks_as cx (pf_attach_scope (cx_profile cx)) (bq_attribution q)"
    "pf_admit_attribution (cx_profile cx) (bq_attribution q) = Some sender"
    "list_all (\<lambda>r. writable cx (bq_attribution q) (re_channel r)) resolved" "length resolved \<le> max_publishes_per_activation"
    "list_all (\<lambda>r. writable cx (bq_attribution q) (ro_channel r)) ops"
  shows "answers cx w (apply_batch cx id_text clk q sender resolved ops w0 s)"
proof -
  let ?a = "bq_attribution q"
  obtain w1 chs any stopped where ops: "apply_ops cx id_text sender (clk 0) ops [] False w0 = (w1, chs, any, stopped)" by (metis prod_cases4)
  define w2 where "w2 = (if any then call_bus BusKick w1 else w1)"
  note st = places_apply_ops [OF assms(3,6) ops]
  have p1: "places cx True w w1" using places_trans [OF assms(1)] st by blast
  have p12: "places cx True w1 w2" by (auto simp: w2_def intro: places_call places_refl)
  note p2 = places_trans [OF p1 p12]
  show ?thesis
  proof (cases stopped)
    case (Some v)
    have "places cx True w w' \<and> prefix (aw_calls w1) (aw_calls w')" if "emit_views cx ?a chs w2 = Ret w'" for w'
      using places_trans [OF p2 places_emit_views [OF that]] places_prefix [OF places_trans [OF p12 places_emit_views [OF that]]] by blast
    moreover have "length (aw_calls w) < length (aw_calls w1)" "bs_defer (aw_bus w) (aw_calls w1) = DeferWrongSender"
      using st Some assms(1) by (auto simp: places_def)
    moreover have "apply_batch cx id_text clk q sender resolved ops w0 s = exec_map (\<lambda>w. (w, s, v)) (emit_views cx ?a chs w2)"
      using ops Some by (simp add: apply_batch_def Let_def w2_def)
    ultimately show ?thesis by (auto simp: answers_def exec_map_Ret_iff intro: places_quiet)
  next
    case None
    let ?batch = "stamp_entries (bs_timestamp_nanos (aw_bus w2)) clk 1 None resolved"
    let ?call = "BusBatch (pf_attach_scope (cx_profile cx)) ?a ?batch (pf_missing_channel_posture (cx_profile cx))"
    have "list_all (\<lambda>ch. writable cx ?a ch) (map ab_channel_address ?batch)"
      unfolding stamps_channels using assms(4) by (simp add: list_all_iff)
    moreover have "length ?batch = length resolved" using stamps_channels [of _ clk 1 None resolved] by (metis length_map)
    ultimately have p3: "places cx False w (call_bus ?call w2)"
      using assms(2,5) stamps_increase by (intro places_trans [OF places_loud [OF p2] places_call]) (simp_all add: list_all_iff)
    have "answers cx w (exec_map (\<lambda>w. send_frame f w t) (emit_views cx ?a touched (call_bus ?call w2)))" for f t touched
    proof (cases "emit_views cx ?a touched (call_bus ?call w2)")
      case (Ret w')
      then show ?thesis using answers_send [OF places_trans [OF p3 places_loud [OF places_emit_views [OF Ret]]]] by simp
    qed (simp add: answers_def)
    then show ?thesis using ops None by (simp add: apply_batch_def Let_def w2_def [symmetric]) (simp add: answers_def)
  qed
qed

lemma batch_shape_bound: "batch_shape cx q = Inr u \<Longrightarrow> length (bq_publishes q) \<le> max_publishes_per_activation"
  by (auto simp: batch_shape_def Let_def split: if_splits)

lemma answers_publish_batch: "answers cx w (handle_publish_batch cx id_text clk q w s)"
proof -
  let ?a = "bq_attribution q" and ?fm = "bs_from_timestamp_millis (aw_bus w)"
  let ?entries = "resolve_batch_entries cx ?fm ?a (clk 0) (bq_publishes q)" and ?ops = "resolve_deferred_ops cx ?fm ?a (bq_deferred_ops q)"
  consider (stop) v where "handle_publish_batch cx id_text clk q w s = Ret (w, s, v)"
    | (panic) "handle_publish_batch cx id_text clk q w s = Panic"
    | (resolved) sender u resolved ops where "admit_attribution_or_violate cx ?a ''PublishBatch'' = Inr sender" "batch_shape cx q = Inr u"
        "?entries = Ret (Inr resolved)" "?ops = Ret (Inr ops)"
  proof (cases "admit_attribution_or_violate cx ?a ''PublishBatch''"; cases "batch_shape cx q")
    fix sender u assume *: "admit_attribution_or_violate cx ?a ''PublishBatch'' = Inr sender" "batch_shape cx q = Inr u"
    consider "?entries = Panic" | v where "?entries = Ret (Inl v)" | rs where "?entries = Ret (Inr rs)" "?ops = Panic"
      | rs v where "?entries = Ret (Inr rs)" "?ops = Ret (Inl v)" | rs ops where "?entries = Ret (Inr rs)" "?ops = Ret (Inr ops)"
      by (metis exec.exhaust sumE)
    then show ?thesis by cases (use * that in \<open>simp_all add: handle_publish_batch_def Let_def\<close>)
  qed (use that in \<open>simp_all add: handle_publish_batch_def Let_def\<close>)
  then show ?thesis
  proof cases
    case resolved
    note who = admitted_Inr [OF resolved(1)]
    have speaks: "speaks_as cx (pf_attach_scope (cx_profile cx)) ?a" by (simp add: speaks_as_def who)
    have short: "length resolved \<le> max_publishes_per_activation"
      using batch_shape_bound [OF resolved(2)] resolve_entries_writable [OF resolved(3)] by (metis length_map)
    let ?w = "call_bus (BusDraw (pf_attach_scope (cx_profile cx)) ?a (max (length resolved) 1)) w"
    have "places cx True w ?w" by (intro places_call) (simp_all add: speaks)
    then have "answers cx w (Ret (send_frame f ?w t))" "answers cx w (apply_batch cx id_text clk q sender resolved ops ?w s)" for f t
      using answers_send answers_apply_batch speaks who short resolve_entries_writable [OF resolved(3)] resolve_ops_writable [OF resolved(4)]
      by blast+
    then show ?thesis using resolved by (simp add: handle_publish_batch_def Let_def)
  qed (simp_all add: answers_still, simp add: answers_def)
qed

definition idle :: "('u, 't) attach_world \<Rightarrow> ('u, 't) session_result \<Rightarrow> bool" where
  "idle w r \<longleftrightarrow> (\<forall>w' s' out. r = Ret (w', s', out) \<longrightarrow> aw_calls w' = aw_calls w \<and> aw_bus w' = aw_bus w)"

lemma idle_answers: "idle w r \<Longrightarrow> answers cx w r"
  by (simp add: idle_def answers_def places_refl)

lemma idle_send: "aw_calls w1 = aw_calls w \<Longrightarrow> aw_bus w1 = aw_bus w \<Longrightarrow> idle w (Ret (send_frame f w1 s))"
  using send_frame_calls by (fastforce simp: idle_def)

lemma idle_send_pass: "aw_calls w1 = aw_calls w \<Longrightarrow> aw_bus w1 = aw_bus w \<Longrightarrow> idle w (send_pass cx ch pass w1 s)"
  using idle_send [of w1 w] by (cases "mint_rows (cx_json cx) ch pass (ss_cursors s)") (fastforce simp: send_pass_def idle_def split: prod.split)+

lemma idle_subscribe: "idle w (handle_subscribe cx q w s)"
proof (cases "admit_subscribe cx q (ss_active s)")
  case (Inr fe)
  obtain facts echoed where fe: "fe = (facts, echoed)" by force
  show ?thesis
  proof (cases "dir_resolve (sq_channel q) (aw_directory w)")
    case (Some entry)
    have e: "aw_calls (ensure_runtime_entry cx entry ch w) = aw_calls w" for ch
      by (simp add: ensure_runtime_entry_def Let_def split: option.split)
    have "idle w (case send_frame f (ensure_runtime_entry cx entry ch w) t of (w, s, sent) \<Rightarrow>
        if sent = Disconnect then Ret (w, s, Disconnect) else if c then Ret (w, s, Continue) else send_pass cx ch rows w s)" for f ch t c rows
      using send_frame_calls [of f "ensure_runtime_entry cx entry ch w" t] e [of ch] ensure_entry_frame(3) [of cx entry ch w]
      by (auto simp: idle_send_pass split: prod.split) (simp_all add: idle_def)
    then show ?thesis using Inr fe Some by (simp add: handle_subscribe_def Let_def split: prod.split)
  qed (use Inr fe in \<open>simp add: handle_subscribe_def idle_send\<close>)
qed (simp add: handle_subscribe_def idle_def)

lemma idle_charged: "(\<And>s. idle w (h s)) \<Longrightarrow> idle w (charged_subscription cx now w s h)"
  by (cases "charge_subscribe_token cx now (bk_subscribe (ss_buckets s))")
    (fastforce simp: charged_subscription_def Let_def idle_def split: sum.split_asm)+

lemma idle_alert: "idle w (handle_alert cx id_text now attribution severity title body w s)"
proof -
  obtain b drawn where "try_consume now (bk_alert (ss_buckets s)) = Ret (b, drawn)" using try_consume_returns by blast
  then show ?thesis by (cases drawn) (auto simp: handle_alert_def idle_def Let_def split: sum.split_asm if_splits)
qed

lemma answers_client_frame: "answers cx w (handle_client_frame cx parse id_text now clk json w s)"
proof (cases "parse json")
  case (Some frame)
  show ?thesis
  proof (cases frame)
    case (Unsubscribe ch)
    have "idle w (Ret (handle_unsubscribe cx ch w s))" for s by (auto simp: idle_def handle_unsubscribe_def Let_def split: prod.splits if_splits)
    then show ?thesis using Some Unsubscribe by (simp add: handle_client_frame_def idle_charged idle_answers)
  qed (simp_all add: Some handle_client_frame_def answers_still answers_publish answers_publish_batch idle_alert idle_answers idle_charged idle_subscribe)
qed (simp add: handle_client_frame_def answers_still)

text \<open>C7. Only what the profile admits reaches the bus. Whatever bytes a client sends, every bus call the
  session places while it handles the frame speaks for the session's own scope under an attribution the
  profile admits, and publishes, parks, cancels and edits only on channels that attribution may write: well
  formed, and never a local one. A publish is within the body cap; a batch is within the activation cap and
  its publish stamps strictly increase. A frame that ends in a violation has published nothing; if it reached
  the bus at all, that is because the bus answered one of its control ops with a foreign sender.\<close>

theorem bus_calls_admitted:
  assumes "handle_client_frame cx parse id_text now clk json w s = Ret (w', s', out)"
  shows "\<exists>cs. aw_calls w' = aw_calls w @ cs \<and> list_all (call_admitted cx) cs \<and>
    (\<forall>detail. out = Violation detail \<longrightarrow> \<not> list_ex publishes cs \<and>
       (cs \<noteq> [] \<longrightarrow> (\<exists>before. before \<noteq> [] \<and> prefix before cs \<and> bs_defer (aw_bus w) (aw_calls w @ before) = DeferWrongSender)))"
proof -
  note a = answers_client_frame [of cx w parse id_text now clk json s, unfolded assms answers_def, rule_format, OF refl]
  then obtain cs where cs: "aw_calls w' = aw_calls w @ cs" "list_all (call_admitted cx) cs"
      "(\<exists>detail. out = Violation detail) \<longrightarrow> \<not> list_ex publishes cs"
    by (auto simp: places_def)
  have "\<exists>before. before \<noteq> [] \<and> prefix before cs \<and> bs_defer (aw_bus w) (aw_calls w @ before) = DeferWrongSender"
    if "out = Violation detail" "cs \<noteq> []" for detail
  proof -
    from a that cs(1) obtain calls where c: "prefix calls (aw_calls w @ cs)" "length (aw_calls w) < length calls"
        "bs_defer (aw_bus w) calls = DeferWrongSender" by auto
    then obtain before where "calls = aw_calls w @ before" "prefix before cs" by (auto simp: prefix_append dest: prefix_length_le)
    then show ?thesis using c by auto
  qed
  then show ?thesis using cs by blast
qed

section \<open>What a gate lets through\<close>








lemma writable_asserted: "writable cx attribution ch \<Longrightarrow> assert_publishable cx attribution ch what = Ret (Inr ())"
  by (auto simp: writable_def assert_publishable_def split: option.splits)








section \<open>A sample desk\<close>

text \<open>The sample session, under a profile that may write one channel. Its parked messages are its own on the
  quiet bus and another sender's on the foreign one.\<close>

definition desk_ctx :: "(nat, unit) session_ctx" where
  "desk_ctx = room_ctx\<lparr>cx_profile := room_profile\<lparr>pf_publishable := (\<lambda>_ ch. ch = ''ephemeral:room''),
     pf_admit_attribution := (\<lambda>_. Some ''app:a'')\<rparr>\<rparr>"

definition foreign_world :: "(nat, nat) attach_world" where
  "foreign_world = room_world\<lparr>aw_bus := quiet_bus\<lparr>bs_defer := (\<lambda>_. DeferWrongSender)\<rparr>\<rparr>"

definition desk_entries :: "batch_entry list" where
  "desk_entries = [\<lparr>be_channel = ''ephemeral:room'', be_body = ''hi'', be_urgency = Normal, be_deliver_after = Some 7\<rparr>]"

definition desk_ops :: "nat batch_deferred_op list" where
  "desk_ops = [\<lparr>bo_channel = ''ephemeral:room'', bo_message_id = 4, bo_op = Cancel\<rparr>]"

definition desk_batch :: "nat publish_batch_request" where
  "desk_batch = \<lparr>bq_attribution = None, bq_correlation = 9, bq_publishes = desk_entries, bq_deferred_ops = desk_ops\<rparr>"

lemmas desk_defs = desk_ctx_def desk_entries_def desk_ops_def desk_batch_def room_ctx_def room_profile_def

lemma desk_writable: "writable desk_ctx attribution ''ephemeral:room''"
  by (simp add: writable_def desk_defs is_local_channel_def scheme_of_def scheme_split_def prefix_defs strip_prefix_def well_formed_name_def
      is_unreserved_name_def is_unreserved_char_def channel_capabilities_of_def transportable_only_def)

lemma desk_admits: "admit_attribution_or_violate desk_ctx attribution what = Inr ''app:a''"
  by (simp add: admit_attribution_or_violate_def desk_defs)

lemma desk_law: "check_batch_legality desk_entries desk_ops 100 = Inr ()"
  by (simp add: desk_defs check_batch_legality_def max_batch_ops_def batch_charged_bytes_def op_charge_def)

lemma desk_shape: "batch_shape desk_ctx desk_batch = Inr ()"
  using desk_law by (simp add: batch_shape_def desk_defs max_publishes_per_activation_def max_publish_bytes_per_activation_def edit_bytes_def)

lemma desk_resolves:
  "\<exists>rs. resolve_batch_entries desk_ctx (\<lambda>ms. Some (nat ms)) None 0 desk_entries = Ret (Inr rs) \<and> length rs = 1"
  "resolve_deferred_ops desk_ctx (\<lambda>ms. Some (nat ms)) None desk_ops =
    Ret (Inr [\<lparr>ro_channel = ''ephemeral:room'', ro_message_id = 4, ro_edit = None\<rparr>])"
  by (simp_all add: desk_entries_def desk_ops_def writable_asserted [OF desk_writable] utc_from_epoch_ms_def i64_max_def)

lemma desk_refused:
  "\<exists>w' s' detail. handle_client_frame desk_ctx (\<lambda>_. Some (PublishBatch None 9 desk_entries desk_ops)) (\<lambda>_. ''id'') 0 (\<lambda>_. 0) ''batch''
     foreign_world room_start = Ret (w', s', Violation detail) \<and> aw_calls w' \<noteq> []"
proof -
  obtain rs where rs: "resolve_batch_entries desk_ctx (\<lambda>ms. Some (nat ms)) None 0 desk_entries = Ret (Inr rs)" using desk_resolves(1) by blast
  have "batch_shape desk_ctx \<lparr>bq_attribution = None, bq_correlation = 9, bq_publishes = desk_entries, bq_deferred_ops = desk_ops\<rparr> = Inr ()"
    using desk_shape by (simp add: desk_batch_def)
  then show ?thesis using rs desk_resolves(2) desk_admits
    by (simp add: handle_client_frame_def handle_publish_batch_def Let_def foreign_world_def room_world_def quiet_bus_def call_bus_def
        apply_batch_def apply_deferred_op_def emit_views_def violation_def)
qed

theorem bus_calls_admitted_witness:
  "\<exists>w' s' detail. handle_client_frame desk_ctx (\<lambda>_. Some (PublishBatch None 9 desk_entries desk_ops)) (\<lambda>_. ''id'') 0 (\<lambda>_. 0) ''batch''
     foreign_world room_start = Ret (w', s', Violation detail) \<and>
    aw_calls w' \<noteq> [] \<and> list_all (call_admitted desk_ctx) (aw_calls w') \<and> \<not> list_ex publishes (aw_calls w') \<and>
    (\<exists>before. before \<noteq> [] \<and> prefix before (aw_calls w') \<and> bs_defer (aw_bus foreign_world) before = DeferWrongSender)"
proof -
  obtain w' s' detail where h: "handle_client_frame desk_ctx (\<lambda>_. Some (PublishBatch None 9 desk_entries desk_ops)) (\<lambda>_. ''id'') 0 (\<lambda>_. 0) ''batch''
     foreign_world room_start = Ret (w', s', Violation detail)" "aw_calls w' \<noteq> []" using desk_refused by blast
  have "aw_calls foreign_world = []" by (simp add: foreign_world_def room_world_def)
  then obtain cs where "aw_calls w' = cs" "list_all (call_admitted desk_ctx) cs" "\<not> list_ex publishes cs"
      "cs \<noteq> [] \<longrightarrow> (\<exists>before. before \<noteq> [] \<and> prefix before cs \<and> bs_defer (aw_bus foreign_world) before = DeferWrongSender)"
    using bus_calls_admitted [OF h(1)] by auto
  then show ?thesis using h by blast
qed


end
