(* ===== verification/Connection.thy ===== *)
theory Connection
  imports Attach_Proto "HOL-Library.Word"
begin

text \<open>
  The connection lifecycle of an attachment (\<^verbatim>\<open>attach/client/src/conn.rs\<close>): dial, exchange hellos,
  accept the welcome, hold the attachment against the silence rule, back off and redial. The
  machine is a step function on inputs that carry the driver's clock in milliseconds and answers
  with effects in the order the driver executes them. The serde parser of server frames is the
  parameter \<open>parse\<close>; the jitter generator is the source's, on 64-bit words.
\<close>

unbundle bit_operations_syntax

section \<open>Events, effects and inputs\<close>

datatype detach_reason = LivenessTimeout | TransportClosed "nat option" string

record attachment_facts =
  af_version :: nat
  af_participant_id :: string
  af_session_id :: string
  af_heartbeat_secs :: nat
  af_max_body_bytes :: nat
  af_max_frame_bytes :: nat
  af_alert_granted :: bool

datatype conn_event =
    Attached attachment_facts
  | Detached detach_reason
  | Fatal string
  | Incompatible version_range version_range
  | PeerClosedTerminal nat string

datatype 'u conn_effect =
    Connect string
  | CloseTransport
  | SetWakeup "nat option"
  | SendFrame "'u client_frame"
  | Emit conn_event

datatype conn_input =
    Opened
  | ConnectFailed
  | Disconnected "nat option" string
  | TextFrame string
  | BinaryFrame
  | HostFatal string
  | Tick

record ('u, 't) conn_step =
  st_effects :: "'u conn_effect list"
  st_routed :: "('u, 't) server_frame option"

definition step_effects :: "'u conn_effect list \<Rightarrow> ('u, 't) conn_step" where
  "step_effects effects = \<lparr>st_effects = effects, st_routed = None\<rparr>"

definition step_none :: "('u, 't) conn_step" where
  "step_none = step_effects []"

datatype conn_state = Connecting | Negotiating | AwaitingWelcome | Active | Backoff | Terminal

section \<open>The jitter generator\<close>

record splitmix64 =
  sm_state :: "64 word"

definition splitmix_new :: "64 word \<Rightarrow> splitmix64" where
  "splitmix_new seed = \<lparr>sm_state = seed\<rparr>"

definition next_u64 :: "splitmix64 \<Rightarrow> splitmix64 \<times> 64 word" where
  "next_u64 g =
     (let s = sm_state g + 0x9E3779B97F4A7C15;
          z = (s XOR drop_bit 30 s) * 0xBF58476D1CE4E5B9;
          z = (z XOR drop_bit 27 z) * 0x94D049BB133111EB
      in (\<lparr>sm_state = s\<rparr>, z XOR drop_bit 31 z))"

section \<open>The connection\<close>

text \<open>A \<^verbatim>\<open>Duration\<close> is a number of nanoseconds.\<close>

record conn_config =
  cc_url :: string
  cc_ident :: string
  cc_initial_backoff :: nat
  cc_max_backoff :: nat
  cc_connect_timeout :: nat
  cc_liveness_multiplier :: nat
  cc_backoff_jitter_seed :: "64 word"
  cc_terminal_close_codes :: "nat list"

record connection =
  cn_url :: string
  cn_ident :: string
  cn_initial_backoff_ms :: nat
  cn_max_backoff_ms :: nat
  cn_connect_timeout_ms :: nat
  cn_liveness_multiplier :: nat
  cn_terminal_close_codes :: "nat list"
  cn_liveness_ms :: nat
  cn_state :: conn_state
  cn_backoff_step :: nat
  cn_deadline :: nat
  cn_version :: "nat option"
  cn_jitter :: splitmix64

definition duration_ms :: "nat \<Rightarrow> nat exec" where
  "duration_ms d = (let ms = d div 1000000 in if ms \<le> u64_max then Ret ms else Panic)"

definition begin_connect :: "nat \<Rightarrow> connection \<Rightarrow> connection \<times> 'u conn_effect list" where
  "begin_connect now c =
     (let deadline = sat_add64 now (cn_connect_timeout_ms c)
      in (c\<lparr>cn_state := Connecting, cn_deadline := deadline\<rparr>,
          [Connect (cn_url c), SetWakeup (Some deadline)]))"

definition conn_start :: "conn_config \<Rightarrow> nat \<Rightarrow> (connection \<times> 'u conn_effect list) exec" where
  "conn_start config now =
     (if cc_liveness_multiplier config = 0 then Panic
      else exec_bind (duration_ms (cc_initial_backoff config)) (\<lambda>initial.
           exec_bind (duration_ms (cc_max_backoff config)) (\<lambda>cap.
           exec_bind (duration_ms (cc_connect_timeout config)) (\<lambda>timeout.
             Ret (begin_connect now
               \<lparr>cn_url = cc_url config, cn_ident = cc_ident config,
                cn_initial_backoff_ms = initial, cn_max_backoff_ms = cap, cn_connect_timeout_ms = timeout,
                cn_liveness_multiplier = cc_liveness_multiplier config,
                cn_terminal_close_codes = cc_terminal_close_codes config,
                cn_liveness_ms = 0, cn_state = Backoff, cn_backoff_step = 0, cn_deadline = now,
                cn_version = None, cn_jitter = splitmix_new (cc_backoff_jitter_seed config)\<rparr>)))))"

definition conn_is_active :: "connection \<Rightarrow> bool" where
  "conn_is_active c = (cn_state c = Active)"

text \<open>The doubling loop of \<^verbatim>\<open>backoff_delay_ms\<close>: at most \<open>steps\<close> doublings, left early at the cap.\<close>

fun backoff_nominal :: "nat \<Rightarrow> nat \<Rightarrow> nat \<Rightarrow> nat" where
  "backoff_nominal 0 cap nominal = nominal"
| "backoff_nominal (Suc steps) cap nominal =
     (let nominal = sat_mul64 nominal 2
      in if nominal \<ge> cap then nominal else backoff_nominal steps cap nominal)"

definition backoff_delay_ms :: "connection \<Rightarrow> connection \<times> nat" where
  "backoff_delay_ms c =
     (let nominal = min (backoff_nominal (cn_backoff_step c) (cn_max_backoff_ms c) (cn_initial_backoff_ms c))
                        (cn_max_backoff_ms c);
          half = nominal div 2;
          (jitter, draw) = next_u64 (cn_jitter c)
      in (c\<lparr>cn_jitter := jitter\<rparr>, (nominal - half) + unat draw mod (half + 1)))"

definition enter_backoff :: "nat \<Rightarrow> connection \<Rightarrow> connection \<times> 'u conn_effect list" where
  "enter_backoff now c =
     (let (c, delay) = backoff_delay_ms (c\<lparr>cn_version := None\<rparr>);
          deadline = sat_add64 now delay
      in (c\<lparr>cn_backoff_step := min (cn_backoff_step c + 1) u32_max, cn_state := Backoff, cn_deadline := deadline\<rparr>,
          [SetWakeup (Some deadline)]))"

definition go_fatal :: "string \<Rightarrow> connection \<Rightarrow> connection \<times> 'u conn_effect list" where
  "go_fatal detail c = (c\<lparr>cn_state := Terminal\<rparr>, [CloseTransport, Emit (Fatal detail), SetWakeup None])"

definition conn_close :: "connection \<Rightarrow> connection \<times> 'u conn_effect list" where
  "conn_close c = (c\<lparr>cn_state := Terminal\<rparr>, [CloseTransport, SetWakeup None])"

definition on_disconnected ::
  "nat option \<Rightarrow> string \<Rightarrow> nat \<Rightarrow> connection \<Rightarrow> connection \<times> 'u conn_effect list" where
  "on_disconnected code reason now c =
     (case code of
        Some k \<Rightarrow>
          if k \<in> set (cn_terminal_close_codes c)
          then (c\<lparr>cn_state := Terminal\<rparr>, [Emit (PeerClosedTerminal k reason), SetWakeup None])
          else (let (c, effects) = enter_backoff now c
                in (c, Emit (Detached (TransportClosed code reason)) # effects))
      | None \<Rightarrow>
          (let (c, effects) = enter_backoff now c
           in (c, Emit (Detached (TransportClosed code reason)) # effects)))"

definition arm_liveness :: "nat \<Rightarrow> connection \<Rightarrow> connection \<times> nat" where
  "arm_liveness now c =
     (let deadline = sat_add64 now (cn_liveness_ms c) in (c\<lparr>cn_deadline := deadline\<rparr>, deadline))"

fun frame_type_name :: "('u, 't) server_frame \<Rightarrow> string" where
  "frame_type_name (SHello _ _) = ''Hello''"
| "frame_type_name (Welcome _) = ''Welcome''"
| "frame_type_name Heartbeat = ''Heartbeat''"
| "frame_type_name (SubscribeResult _ _ _ _) = ''SubscribeResult''"
| "frame_type_name (Deliver _ _) = ''Deliver''"
| "frame_type_name (PublishResult _ _) = ''PublishResult''"
| "frame_type_name (PublishBatchResult _ _) = ''PublishBatchResult''"
| "frame_type_name (DeferredView _ _ _) = ''DeferredView''"

type_synonym ('u, 't) frame_parser = "string \<Rightarrow> string + ('u, 't) server_frame"

definition parse_frame :: "('u, 't) frame_parser \<Rightarrow> ('u, 't) frame_parser" where
  "parse_frame parse text =
     (case parse text of Inl err \<Rightarrow> Inl (''unparseable server frame: '' @ err) | Inr frame \<Rightarrow> Inr frame)"

definition fatal_step :: "string \<Rightarrow> connection \<Rightarrow> connection \<times> ('u, 't) conn_step" where
  "fatal_step detail c = (let (c, effects) = go_fatal detail c in (c, step_effects effects))"

definition on_text_negotiating ::
  "('u, 't) frame_parser \<Rightarrow> string \<Rightarrow> connection \<Rightarrow> connection \<times> ('u, 't) conn_step" where
  "on_text_negotiating parse text c =
     (case parse_frame parse text of
        Inl detail \<Rightarrow> fatal_step detail c
      | Inr frame \<Rightarrow>
          (case frame of
             SHello versions _ \<Rightarrow>
               (case negotiate supported_versions versions of
                  Some version \<Rightarrow> (c\<lparr>cn_version := Some version, cn_state := AwaitingWelcome\<rparr>, step_none)
                | None \<Rightarrow>
                    (c\<lparr>cn_state := Terminal\<rparr>,
                     step_effects [CloseTransport, Emit (Incompatible supported_versions versions), SetWakeup None]))
           | _ \<Rightarrow> fatal_step (''expected Hello as the first server frame, got '' @ frame_type_name frame) c))"

definition on_text_awaiting_welcome ::
  "('u, 't) frame_parser \<Rightarrow> string \<Rightarrow> nat \<Rightarrow> connection \<Rightarrow> (connection \<times> ('u, 't) conn_step) exec" where
  "on_text_awaiting_welcome parse text now c =
     (case parse_frame parse text of
        Inl detail \<Rightarrow> Ret (fatal_step detail c)
      | Inr frame \<Rightarrow>
          (case frame of
             Welcome w \<Rightarrow>
               (case cn_version c of
                  None \<Rightarrow> Panic
                | Some agreed \<Rightarrow>
                    if wf_version w \<noteq> agreed
                    then Ret (fatal_step (''Welcome states version '' @ decimal (wf_version w) @
                                ('', but the handshake agreed '' @ decimal agreed)) c)
                    else if wf_heartbeat_secs w = 0
                    then Ret (fatal_step ''Welcome states a zero heartbeat interval'' c)
                    else
                      (let c = c\<lparr>cn_backoff_step := 0, cn_state := Active,
                                 cn_liveness_ms := sat_mul64 (sat_mul64 (wf_heartbeat_secs w) (cn_liveness_multiplier c)) 1000\<rparr>;
                           (c, deadline) = arm_liveness now c
                       in Ret (c, step_effects
                            [Emit (Attached
                               \<lparr>af_version = wf_version w, af_participant_id = wf_participant_id w,
                                af_session_id = wf_session_id w, af_heartbeat_secs = wf_heartbeat_secs w,
                                af_max_body_bytes = wf_max_body_bytes w, af_max_frame_bytes = wf_max_frame_bytes w,
                                af_alert_granted = wf_alert_granted w\<rparr>),
                             SetWakeup (Some deadline)])))
           | _ \<Rightarrow> Ret (fatal_step (''expected Welcome after the version handshake, got '' @ frame_type_name frame) c)))"

definition on_text_active ::
  "('u, 't) frame_parser \<Rightarrow> string \<Rightarrow> nat \<Rightarrow> connection \<Rightarrow> connection \<times> ('u, 't) conn_step" where
  "on_text_active parse text now c =
     (case parse_frame parse text of
        Inl detail \<Rightarrow> fatal_step detail c
      | Inr frame \<Rightarrow>
          (case frame of
             SHello _ _ \<Rightarrow> fatal_step ''second Hello frame'' c
           | Welcome _ \<Rightarrow> fatal_step ''second Welcome frame'' c
           | Heartbeat \<Rightarrow>
               (let (c, deadline) = arm_liveness now c in (c, step_effects [SetWakeup (Some deadline)]))
           | _ \<Rightarrow>
               (let (c, deadline) = arm_liveness now c
                in (c, \<lparr>st_effects = [SetWakeup (Some deadline)], st_routed = Some frame\<rparr>))))"

text \<open>The arms of the match on \<^verbatim>\<open>(state, input)\<close>, first match first.\<close>

definition on_tick :: "nat \<Rightarrow> connection \<Rightarrow> connection \<times> ('u, 't) conn_step" where
  "on_tick now c =
     (case cn_state c of
        Backoff \<Rightarrow>
          if now \<ge> cn_deadline c
          then (let (c, effects) = begin_connect now c in (c, step_effects effects))
          else (c, step_effects [SetWakeup (Some (cn_deadline c))])
      | Active \<Rightarrow>
          if now \<ge> cn_deadline c
          then (let (c, effects) = enter_backoff now c
                in (c, step_effects ([CloseTransport, Emit (Detached LivenessTimeout)] @ effects)))
          else (c, step_effects [SetWakeup (Some (cn_deadline c))])
      | _ \<Rightarrow>
          if now \<ge> cn_deadline c
          then (let (c, effects) = enter_backoff now c in (c, step_effects (CloseTransport # effects)))
          else (c, step_effects [SetWakeup (Some (cn_deadline c))]))"

definition conn_on_input ::
  "('u, 't) frame_parser \<Rightarrow> conn_input \<Rightarrow> nat \<Rightarrow> connection \<Rightarrow> (connection \<times> ('u, 't) conn_step) exec" where
  "conn_on_input parse input now c =
     (case input of
        HostFatal detail \<Rightarrow> Ret (fatal_step detail c)
      | _ \<Rightarrow>
          if cn_state c = Terminal then Ret (c, step_none)
          else
            (case input of
               Opened \<Rightarrow>
                 if cn_state c = Connecting
                 then Ret (c\<lparr>cn_state := Negotiating\<rparr>,
                           step_effects [SendFrame (CHello supported_versions (cn_ident c))])
                 else Ret (c, step_none)
             | ConnectFailed \<Rightarrow>
                 if cn_state c = Connecting
                 then (let (c, effects) = enter_backoff now c in Ret (c, step_effects effects))
                 else Ret (c, step_none)
             | Disconnected code reason \<Rightarrow>
                 if cn_state c \<in> {Negotiating, AwaitingWelcome, Active}
                 then (let (c, effects) = on_disconnected code reason now c in Ret (c, step_effects effects))
                 else Ret (c, step_none)
             | TextFrame text \<Rightarrow>
                 (case cn_state c of
                    Negotiating \<Rightarrow> Ret (on_text_negotiating parse text c)
                  | AwaitingWelcome \<Rightarrow> on_text_awaiting_welcome parse text now c
                  | Active \<Rightarrow> Ret (on_text_active parse text now c)
                  | _ \<Rightarrow> Ret (c, step_none))
             | BinaryFrame \<Rightarrow>
                 if cn_state c \<in> {Negotiating, AwaitingWelcome, Active}
                 then Ret (fatal_step ''unexpected binary frame from peer'' c)
                 else Ret (c, step_none)
             | Tick \<Rightarrow> Ret (on_tick now c)))"

section \<open>The driver's side\<close>

text \<open>
  What the driver holds: one transport at most, one armed timer, and what the embedder has been told.
  An effect the driver could not execute, or an event out of turn, has no successor.
\<close>

datatype transport = NoTransport | Dialing | Open

record driver =
  drv_transport :: transport
  drv_wakeup :: "nat option"
  drv_attached :: bool
  drv_over :: bool

fun driver_event :: "conn_event \<Rightarrow> driver \<Rightarrow> driver option" where
  "driver_event (Attached _) d =
     (if drv_transport d = Open \<and> \<not> drv_attached d \<and> \<not> drv_over d then Some (d\<lparr>drv_attached := True\<rparr>) else None)"
| "driver_event (Detached _) d = (if drv_over d then None else Some (d\<lparr>drv_attached := False\<rparr>))"
| "driver_event _ d = Some (d\<lparr>drv_attached := False, drv_over := True\<rparr>)"

fun driver_effect :: "'u conn_effect \<Rightarrow> driver \<Rightarrow> driver option" where
  "driver_effect (Connect _) d =
     (if drv_transport d = NoTransport \<and> \<not> drv_over d then Some (d\<lparr>drv_transport := Dialing\<rparr>) else None)"
| "driver_effect CloseTransport d = Some (d\<lparr>drv_transport := NoTransport\<rparr>)"
| "driver_effect (SetWakeup w) d = Some (d\<lparr>drv_wakeup := w\<rparr>)"
| "driver_effect (SendFrame _) d = (if drv_transport d = Open then Some d else None)"
| "driver_effect (Emit ev) d = driver_event ev d"

fun driver_effects :: "'u conn_effect list \<Rightarrow> driver \<Rightarrow> driver option" where
  "driver_effects [] d = Some d"
| "driver_effects (e # es) d = (case driver_effect e d of None \<Rightarrow> None | Some d' \<Rightarrow> driver_effects es d')"

datatype conn_op = Feed conn_input nat | GoFatal string | Close

definition conn_op_step ::
  "('u, 't) frame_parser \<Rightarrow> connection \<Rightarrow> conn_op \<Rightarrow> (connection \<times> ('u, 't) conn_step) exec" where
  "conn_op_step parse c op =
     (case op of
        Feed input now \<Rightarrow> conn_on_input parse input now c
      | GoFatal detail \<Rightarrow> Ret (fatal_step detail c)
      | Close \<Rightarrow> (let (c, effects) = conn_close c in Ret (c, step_effects effects)))"

text \<open>What an operation itself says about the driver: a resolved dial, a lost socket, a spent timer.\<close>

definition driver_input :: "conn_op \<Rightarrow> driver \<Rightarrow> driver" where
  "driver_input op d =
     (case op of
        Feed Opened _ \<Rightarrow> d\<lparr>drv_transport := Open\<rparr>
      | Feed ConnectFailed _ \<Rightarrow> d\<lparr>drv_transport := NoTransport\<rparr>
      | Feed (Disconnected _ _) _ \<Rightarrow> d\<lparr>drv_transport := NoTransport\<rparr>
      | Feed Tick _ \<Rightarrow> d\<lparr>drv_wakeup := None\<rparr>
      | Close \<Rightarrow> d\<lparr>drv_attached := False, drv_over := True\<rparr>
      | _ \<Rightarrow> d)"

text \<open>The driver's obligation: a transport event comes from the transport it holds.\<close>

definition driver_legal :: "connection \<times> driver \<Rightarrow> conn_op \<Rightarrow> bool" where
  "driver_legal cd op =
     (case op of
        Feed Opened _ \<Rightarrow> drv_transport (snd cd) = Dialing
      | Feed ConnectFailed _ \<Rightarrow> drv_transport (snd cd) = Dialing
      | Feed (Disconnected _ _) _ \<Rightarrow> drv_transport (snd cd) = Open
      | Feed (TextFrame _) _ \<Rightarrow> drv_transport (snd cd) = Open
      | Feed BinaryFrame _ \<Rightarrow> drv_transport (snd cd) = Open
      | _ \<Rightarrow> True)"

definition plane_frame :: "('u, 't) server_frame \<Rightarrow> bool" where
  "plane_frame frame = (case frame of SHello _ _ \<Rightarrow> False | Welcome _ \<Rightarrow> False | Heartbeat \<Rightarrow> False | _ \<Rightarrow> True)"

text \<open>The two together. A step the driver cannot follow, or a frame routed to the planes above that is
  the connection's own or comes off a live attachment, counts as a panic.\<close>

definition attachment_step ::
  "('u, 't) frame_parser \<Rightarrow> connection \<times> driver \<Rightarrow> conn_op \<Rightarrow>
     ((connection \<times> driver) \<times> ('u, 't) server_frame option) exec" where
  "attachment_step parse cd op =
     exec_bind (conn_op_step parse (fst cd) op) (\<lambda>(c, step).
       case driver_effects (st_effects step) (driver_input op (snd cd)) of
         None \<Rightarrow> Panic
       | Some d \<Rightarrow>
           (case st_routed step of
              None \<Rightarrow> Ret ((c, d), None)
            | Some frame \<Rightarrow> if drv_attached d \<and> plane_frame frame then Ret ((c, d), Some frame) else Panic))"

definition transport_of :: "conn_state \<Rightarrow> transport" where
  "transport_of st =
     (case st of Connecting \<Rightarrow> Dialing | Backoff \<Rightarrow> NoTransport | Terminal \<Rightarrow> NoTransport | _ \<Rightarrow> Open)"

definition driver_of :: "connection \<Rightarrow> driver" where
  "driver_of c =
     \<lparr>drv_transport = transport_of (cn_state c),
      drv_wakeup = (if cn_state c = Terminal then None else Some (cn_deadline c)),
      drv_attached = (cn_state c = Active),
      drv_over = (cn_state c = Terminal)\<rparr>"

definition conn_wf :: "connection \<Rightarrow> bool" where
  "conn_wf c \<longleftrightarrow>
     (cn_state c \<in> {AwaitingWelcome, Active} \<longrightarrow> cn_version c \<noteq> None) \<and>
     0 < cn_liveness_multiplier c \<and>
     cn_initial_backoff_ms c \<le> u64_max \<and> cn_max_backoff_ms c \<le> u64_max"

definition attachment_inv :: "connection \<times> driver \<Rightarrow> bool" where
  "attachment_inv cd \<longleftrightarrow> conn_wf (fst cd) \<and> snd cd = driver_of (fst cd)"

section \<open>Every step keeps the two in agreement\<close>

lemma enter_backoff_eq:
  "enter_backoff now c =
     (c\<lparr>cn_version := None, cn_jitter := fst (next_u64 (cn_jitter c)),
        cn_backoff_step := min (cn_backoff_step c + 1) u32_max, cn_state := Backoff,
        cn_deadline := sat_add64 now (snd (backoff_delay_ms c))\<rparr>,
      [SetWakeup (Some (sat_add64 now (snd (backoff_delay_ms c))))])"
  by (simp add: enter_backoff_def backoff_delay_ms_def Let_def split_beta)

lemmas conn_unfold =
  conn_op_step_def conn_on_input_def fatal_step_def go_fatal_def conn_close_def step_effects_def step_none_def
  enter_backoff_eq begin_connect_def arm_liveness_def Let_def split_beta

lemmas view_unfold =
  attachment_step_def attachment_inv_def driver_of_def transport_of_def conn_wf_def driver_input_def plane_frame_def

lemma attachment_stepI:
  assumes "conn_op_step parse c op = Ret (c', step)"
    "driver_effects (st_effects step) (driver_input op (driver_of c)) = Some (driver_of c')"
    "\<And>frame. st_routed step = Some frame \<Longrightarrow> cn_state c' = Active \<and> plane_frame frame"
    "conn_wf c'"
  shows "\<exists>cd' out. attachment_step parse (c, driver_of c) op = Ret (cd', out) \<and> attachment_inv cd'"
  using assms by (cases "st_routed step") (simp_all add: attachment_step_def attachment_inv_def driver_of_def)

lemma fatal_step_ok:
  assumes "conn_wf c" "conn_op_step parse c op = Ret (fatal_step detail c)" "driver_input op (driver_of c) = driver_of c"
  shows "\<exists>cd' out. attachment_step parse (c, driver_of c) op = Ret (cd', out) \<and> attachment_inv cd'"
  using assms(1)
  by (intro attachment_stepI [OF assms(2) [unfolded fatal_step_def go_fatal_def split_def Let_def, simplified]])
    (simp_all add: assms(3) step_effects_def driver_of_def transport_of_def conn_wf_def)

lemma parse_frame_cases:
  obtains (bad) detail where "parse_frame parse t = Inl detail" | (good) frame where "parse_frame parse t = Inr frame"
  by (cases "parse_frame parse t") auto

lemma text_negotiating_step:
  assumes "conn_wf c" "cn_state c = Negotiating"
  shows "\<exists>cd' out. attachment_step parse (c, driver_of c) (Feed (TextFrame t) now) = Ret (cd', out) \<and> attachment_inv cd'"
proof -
  have st: "conn_op_step parse c (Feed (TextFrame t) now) = Ret (on_text_negotiating parse t c)"
    and d: "driver_input (Feed (TextFrame t) now) (driver_of c) = driver_of c"
    by (simp_all add: conn_op_step_def conn_on_input_def assms(2) driver_input_def)
  show ?thesis
  proof (cases parse t rule: parse_frame_cases)
    case (good frame)
    show ?thesis
    proof (cases "\<exists>versions ident. frame = SHello versions ident")
      case True
      then obtain versions ident where f: "frame = SHello versions ident" by blast
      show ?thesis
      proof (cases "negotiate supported_versions versions")
        case None
        then have "on_text_negotiating parse t c = (c\<lparr>cn_state := Terminal\<rparr>,
            step_effects [CloseTransport, Emit (Incompatible supported_versions versions), SetWakeup None])"
          by (simp add: on_text_negotiating_def good f)
        from attachment_stepI [OF st [unfolded this]] show ?thesis using assms
          by (simp add: driver_input_def step_effects_def driver_of_def transport_of_def conn_wf_def)
      next
        case (Some version)
        then have "on_text_negotiating parse t c = (c\<lparr>cn_version := Some version, cn_state := AwaitingWelcome\<rparr>, step_none)"
          by (simp add: on_text_negotiating_def good f)
        from attachment_stepI [OF st [unfolded this]] show ?thesis using assms
          by (simp add: driver_input_def step_effects_def step_none_def driver_of_def transport_of_def conn_wf_def)
      qed
    next
      case False
      then have "\<exists>detail. on_text_negotiating parse t c = fatal_step detail c"
        using good by (cases frame) (auto simp: on_text_negotiating_def)
      then show ?thesis using fatal_step_ok [OF assms(1) _ d] st by metis
    qed
  qed (use fatal_step_ok [OF assms(1) _ d] st in \<open>simp add: on_text_negotiating_def\<close>)
qed

lemma text_awaiting_step:
  assumes "conn_wf c" "cn_state c = AwaitingWelcome"
  shows "\<exists>cd' out. attachment_step parse (c, driver_of c) (Feed (TextFrame t) now) = Ret (cd', out) \<and> attachment_inv cd'"
proof -
  have st: "conn_op_step parse c (Feed (TextFrame t) now) = on_text_awaiting_welcome parse t now c"
    and d: "driver_input (Feed (TextFrame t) now) (driver_of c) = driver_of c"
    by (simp_all add: conn_op_step_def conn_on_input_def assms(2) driver_input_def)
  obtain agreed where v: "cn_version c = Some agreed" using assms by (auto simp: conn_wf_def)
  show ?thesis
  proof (cases "\<exists>detail. on_text_awaiting_welcome parse t now c = Ret (fatal_step detail c)")
    case True
    then show ?thesis using fatal_step_ok [OF assms(1) _ d] st by metis
  next
    case False
    then obtain w where w: "parse_frame parse t = Inr (Welcome w)" "wf_version w = agreed" "wf_heartbeat_secs w \<noteq> 0"
      using v by (cases parse t rule: parse_frame_cases) (auto simp: on_text_awaiting_welcome_def split: server_frame.splits if_splits)
    let ?live = "sat_mul64 (sat_mul64 (wf_heartbeat_secs w) (cn_liveness_multiplier c)) 1000"
    let ?c = "c\<lparr>cn_backoff_step := 0, cn_state := Active, cn_liveness_ms := ?live, cn_deadline := sat_add64 now ?live\<rparr>"
    obtain facts where "on_text_awaiting_welcome parse t now c =
        Ret (?c, step_effects [Emit (Attached facts), SetWakeup (Some (sat_add64 now ?live))])"
      using v w by (simp add: on_text_awaiting_welcome_def arm_liveness_def Let_def)
    then show ?thesis
      using assms v by (intro attachment_stepI [OF st [THEN trans]])
        (auto simp: driver_input_def step_effects_def driver_of_def transport_of_def conn_wf_def)
  qed
qed

lemma text_active_step:
  assumes "conn_wf c" "cn_state c = Active"
  shows "\<exists>cd' out. attachment_step parse (c, driver_of c) (Feed (TextFrame t) now) = Ret (cd', out) \<and> attachment_inv cd'"
proof -
  have st: "conn_op_step parse c (Feed (TextFrame t) now) = Ret (on_text_active parse t now c)"
    and d: "driver_input (Feed (TextFrame t) now) (driver_of c) = driver_of c"
    by (simp_all add: conn_op_step_def conn_on_input_def assms(2) driver_input_def)
  show ?thesis
  proof (cases "\<exists>detail. on_text_active parse t now c = fatal_step detail c")
    case True
    then show ?thesis using fatal_step_ok [OF assms(1) _ d] st by metis
  next
    case False
    let ?c = "c\<lparr>cn_deadline := sat_add64 now (cn_liveness_ms c)\<rparr>"
    obtain r where r: "on_text_active parse t now c =
        (?c, \<lparr>st_effects = [SetWakeup (Some (sat_add64 now (cn_liveness_ms c)))], st_routed = r\<rparr>)"
      "\<And>frame. r = Some frame \<Longrightarrow> plane_frame frame"
      using False by (cases parse t rule: parse_frame_cases)
        (auto simp: on_text_active_def arm_liveness_def Let_def step_effects_def plane_frame_def split: server_frame.splits)
    show ?thesis
      using assms r(2) by (intro attachment_stepI [OF st [unfolded r(1)]])
        (auto simp: driver_input_def driver_of_def transport_of_def conn_wf_def)
  qed
qed

lemma disconnected_step:
  fixes parse :: "('u, 't) frame_parser"
  assumes "conn_wf c" "driver_legal (c, driver_of c) (Feed (Disconnected code reason) now)"
  shows "\<exists>cd' out. attachment_step parse (c, driver_of c) (Feed (Disconnected code reason) now) = Ret (cd', out) \<and> attachment_inv cd'"
proof -
  let ?r = "on_disconnected code reason now c :: connection \<times> 'u conn_effect list"
  have st: "cn_state c \<in> {Negotiating, AwaitingWelcome, Active}"
    using assms(2) by (cases "cn_state c") (simp_all add: driver_legal_def driver_of_def transport_of_def)
  then have eq: "conn_op_step parse c (Feed (Disconnected code reason) now) =
      Ret (fst ?r, step_effects (snd ?r))"
    by (auto simp: conn_op_step_def conn_on_input_def split_beta)
  show ?thesis
    using st assms(1)
    by (intro attachment_stepI [OF eq])
      (auto simp: on_disconnected_def enter_backoff_eq step_effects_def driver_input_def driver_of_def transport_of_def
        conn_wf_def Let_def split: option.split)
qed

lemma tick_step:
  fixes parse :: "('u, 't) frame_parser"
  assumes "conn_wf c"
  shows "\<exists>cd' out. attachment_step parse (c, driver_of c) (Feed Tick now) = Ret (cd', out) \<and> attachment_inv cd'"
proof (cases "cn_state c = Terminal")
  case True
  then have eq: "conn_op_step parse c (Feed Tick now) = Ret (c, step_none)" by (simp add: conn_op_step_def conn_on_input_def)
  show ?thesis using assms True
    by (intro attachment_stepI [OF eq]) (auto simp: step_none_def step_effects_def driver_input_def driver_of_def)
next
  case False
  let ?r = "on_tick now c :: connection \<times> ('u, 't) conn_step"
  have eq: "conn_op_step parse c (Feed Tick now) = Ret (fst ?r, snd ?r)"
    using False by (simp add: conn_op_step_def conn_on_input_def)
  show ?thesis using assms False
    by (intro attachment_stepI [OF eq]; cases "cn_state c")
      (auto simp: on_tick_def enter_backoff_eq begin_connect_def step_effects_def driver_input_def driver_of_def transport_of_def
        conn_wf_def Let_def split_beta split: if_splits)
qed

lemma dial_step:
  fixes parse :: "('u, 't) frame_parser"
  assumes "conn_wf c" "input = Opened \<or> input = ConnectFailed" "driver_legal (c, driver_of c) (Feed input now)"
  shows "\<exists>cd' out. attachment_step parse (c, driver_of c) (Feed input now) = Ret (cd', out) \<and> attachment_inv cd'"
proof -
  have st: "cn_state c = Connecting"
    using assms(2,3) by (cases "cn_state c") (auto simp: driver_legal_def driver_of_def transport_of_def)
  let ?r = "if input = Opened then (c\<lparr>cn_state := Negotiating\<rparr>, [SendFrame (CHello supported_versions (cn_ident c))])
    else enter_backoff now c :: connection \<times> 'u conn_effect list"
  have eq: "conn_op_step parse c (Feed input now) = Ret (fst ?r, step_effects (snd ?r))"
    using assms(2) st by (auto simp: conn_op_step_def conn_on_input_def split_beta)
  show ?thesis
    using st assms(1,2)
    by (intro attachment_stepI [OF eq])
      (auto simp: enter_backoff_eq step_effects_def driver_input_def driver_of_def transport_of_def conn_wf_def Let_def)
qed

lemma binary_step:
  assumes "conn_wf c" "driver_legal (c, driver_of c) (Feed BinaryFrame now)"
  shows "\<exists>cd' out. attachment_step parse (c, driver_of c) (Feed BinaryFrame now) = Ret (cd', out) \<and> attachment_inv cd'"
proof (rule fatal_step_ok [OF assms(1)])
  show "conn_op_step parse c (Feed BinaryFrame now) = Ret (fatal_step ''unexpected binary frame from peer'' c)"
    using assms(2)
    by (cases "cn_state c") (simp_all add: driver_legal_def driver_of_def transport_of_def conn_op_step_def conn_on_input_def)
qed (simp add: driver_input_def)

lemma text_step:
  assumes "conn_wf c" "driver_legal (c, driver_of c) (Feed (TextFrame t) now)"
  shows "\<exists>cd' out. attachment_step parse (c, driver_of c) (Feed (TextFrame t) now) = Ret (cd', out) \<and> attachment_inv cd'"
  using assms text_negotiating_step text_awaiting_step text_active_step
  by (cases "cn_state c") (simp_all add: driver_legal_def driver_of_def transport_of_def)

lemma close_step:
  fixes parse :: "('u, 't) frame_parser"
  assumes "conn_wf c"
  shows "\<exists>cd' out. attachment_step parse (c, driver_of c) Close = Ret (cd', out) \<and> attachment_inv cd'"
proof -
  let ?r = "conn_close c :: connection \<times> 'u conn_effect list"
  have eq: "conn_op_step parse c Close = Ret (fst ?r, step_effects (snd ?r))"
    by (simp add: conn_op_step_def split_beta)
  show ?thesis using assms
    by (intro attachment_stepI [OF eq])
      (auto simp: conn_close_def step_effects_def driver_input_def driver_of_def transport_of_def conn_wf_def)
qed

lemma attachment_step_ok:
  "attachment_inv cd \<Longrightarrow> driver_legal cd op \<Longrightarrow>
     \<exists>cd' out. attachment_step parse cd op = Ret (cd', out) \<and> attachment_inv cd'"
proof -
  assume inv: "attachment_inv cd" and l: "driver_legal cd op"
  obtain c where cd: "cd = (c, driver_of c)" and wf: "conn_wf c"
    using inv by (cases cd) (simp add: attachment_inv_def)
  have fatal: "\<exists>cd' out. attachment_step parse (c, driver_of c) op = Ret (cd', out) \<and> attachment_inv cd'"
    if "conn_op_step parse c op = Ret (fatal_step detail c)" "driver_input op (driver_of c) = driver_of c" for detail
    using fatal_step_ok [OF wf that] .
  show ?thesis
  proof (cases op)
    case (Feed input now)
    show ?thesis
    proof (cases input)
      case (HostFatal detail)
      then show ?thesis unfolding cd using fatal [of detail] Feed
        by (simp add: conn_op_step_def conn_on_input_def driver_input_def)
    next
      case Opened
      then show ?thesis unfolding cd Feed using dial_step [OF wf _ l [unfolded cd Feed]] by simp
    next
      case ConnectFailed
      then show ?thesis unfolding cd Feed using dial_step [OF wf _ l [unfolded cd Feed]] by simp
    qed (use l [unfolded cd Feed] disconnected_step [OF wf] text_step [OF wf] binary_step [OF wf] tick_step [OF wf]
        in \<open>unfold cd Feed, simp_all\<close>)
  next
    case (GoFatal detail)
    then show ?thesis unfolding cd using fatal [of detail] by (simp add: conn_op_step_def driver_input_def)
  next
    case Close
    then show ?thesis unfolding cd using close_step [OF wf] by simp
  qed
qed

interpretation conn_sys: contract_system "attachment_step parse" attachment_inv driver_legal for parse
  by unfold_locales (rule attachment_step_ok)

section \<open>Properties\<close>

lemma start_agrees:
  assumes "conn_start config now = Ret (c, effects)"
  shows "conn_wf c" "driver_effects effects \<lparr>drv_transport = NoTransport, drv_wakeup = None, drv_attached = False, drv_over = False\<rparr> =
    Some (driver_of c)"
  using assms
  by (auto simp: conn_start_def duration_ms_def begin_connect_def conn_wf_def driver_of_def transport_of_def Let_def
      split: if_splits)

text \<open>C6. The machine and its driver agree through every session. A connection that was started leaves
  the driver dialing with the handshake deadline armed; from there, whatever the peer, the timer, the
  host and the embedder do, as long as transport events come from the transport the driver holds:
  nothing panics; a transport is opened only when none is held; a frame is sent only on an open one;
  attached and detached alternate and nothing follows a terminal event; a frame reaches the planes
  above only while attached and is never one of the connection's own; and unless the machine is
  terminal, exactly its current deadline is armed, so it is never left waiting for nothing.\<close>

theorem attachment_agrees:
  "conn_start config now = Ret (c0, effects0) \<Longrightarrow>
   driver_effects effects0 \<lparr>drv_transport = NoTransport, drv_wakeup = None, drv_attached = False, drv_over = False\<rparr> =
     Some d0 \<Longrightarrow>
   legal_run (attachment_step parse) driver_legal (c0, d0) ops \<Longrightarrow>
   \<exists>c routed. run (attachment_step parse) (c0, d0) ops = Ret ((c, driver_of c), routed)"
proof -
  assume s: "conn_start config now = Ret (c0, effects0)"
    and d: "driver_effects effects0 \<lparr>drv_transport = NoTransport, drv_wakeup = None, drv_attached = False, drv_over = False\<rparr> = Some d0"
    and l: "legal_run (attachment_step parse) driver_legal (c0, d0) ops"
  have "attachment_inv (c0, d0)" using start_agrees [OF s] d by (simp add: attachment_inv_def)
  from conn_sys.legal_run_ok [OF this l] show ?thesis by (auto simp: attachment_inv_def)
qed

definition example_config :: conn_config where
  "example_config =
     \<lparr>cc_url = ''u'', cc_ident = ''i'', cc_initial_backoff = 500000000, cc_max_backoff = 30000000000,
      cc_connect_timeout = 10000000000, cc_liveness_multiplier = 2, cc_backoff_jitter_seed = 7,
      cc_terminal_close_codes = [4001]\<rparr>"

definition example_connection :: connection where
  "example_connection =
     \<lparr>cn_url = ''u'', cn_ident = ''i'', cn_initial_backoff_ms = 500, cn_max_backoff_ms = 30000,
      cn_connect_timeout_ms = 10000, cn_liveness_multiplier = 2, cn_terminal_close_codes = [4001],
      cn_liveness_ms = 0, cn_state = Connecting, cn_backoff_step = 0, cn_deadline = 10000,
      cn_version = None, cn_jitter = \<lparr>sm_state = 7\<rparr>\<rparr>"

lemma example_start: "conn_start example_config 0 = Ret (example_connection, [Connect ''u'', SetWakeup (Some 10000)])"
  by (simp add: conn_start_def example_config_def example_connection_def duration_ms_def begin_connect_def sat_add64_def
      u64_max_def splitmix_new_def)

text \<open>A parser that reads one text as the peer's hello and nothing else.\<close>

definition example_parse :: "(unit, unit) frame_parser" where
  "example_parse t = (if t = ''hello'' then Inr (SHello supported_versions ''p'') else Inl ''?'')"

theorem attachment_agrees_witness:
  "\<exists>c routed. run (attachment_step example_parse)
     (example_connection, driver_of example_connection)
     [Feed Opened 1, Feed (TextFrame ''hello'') 2, Feed (TextFrame ''garbage'') 3, Feed Tick 4] =
   Ret ((c, driver_of c), routed)"
proof (rule attachment_agrees [OF example_start])
  show "driver_effects [Connect ''u'', SetWakeup (Some 10000)]
      \<lparr>drv_transport = NoTransport, drv_wakeup = None, drv_attached = False, drv_over = False\<rparr> =
    Some (driver_of example_connection)"
    by (simp add: driver_of_def transport_of_def example_connection_def)
  show "legal_run (attachment_step example_parse) driver_legal (example_connection, driver_of example_connection)
      [Feed Opened 1, Feed (TextFrame ''hello'') 2, Feed (TextFrame ''garbage'') 3, Feed Tick 4]"
    by (simp add: driver_legal_def attachment_step_def conn_unfold driver_of_def transport_of_def example_connection_def
        driver_input_def on_text_negotiating_def on_text_awaiting_welcome_def parse_frame_def example_parse_def
        negotiate_def supported_versions_def versions_exactly_def)
qed

lemma backoff_nominal_exact:
  "cap \<le> u64_max \<Longrightarrow> min (backoff_nominal n cap x) cap = min cap (x * 2 ^ n)"
proof (induction n arbitrary: x)
  case (Suc n)
  show ?case
  proof (cases "sat_mul64 x 2 \<ge> cap")
    case True
    then have "cap \<le> x * 2 * 1" by (simp add: sat_mul64_def split: if_splits)
    also have "x * 2 * 1 \<le> x * 2 * 2 ^ n" by (rule mult_le_mono2) simp
    finally have "cap \<le> x * 2 ^ Suc n" by (simp add: mult.assoc)
    then show ?thesis using True by (simp add: Let_def min_def)
  next
    case False
    then have "sat_mul64 x 2 = x * 2" using Suc.prems by (simp add: sat_mul64_def split: if_splits)
    then show ?thesis using False Suc.IH [OF Suc.prems, of "x * 2"] by (simp add: mult.assoc)
  qed
qed (simp add: min.commute)

lemma delay_bounds:
  assumes "cn_max_backoff_ms c \<le> u64_max"
  defines "nominal \<equiv> min (cn_max_backoff_ms c) (cn_initial_backoff_ms c * 2 ^ cn_backoff_step c)"
  shows "(nominal + 1) div 2 \<le> snd (backoff_delay_ms c) \<and> snd (backoff_delay_ms c) \<le> nominal"
proof -
  define r where "r = unat (snd (next_u64 (cn_jitter c))) mod (nominal div 2 + 1)"
  have "r \<le> nominal div 2"
    using mod_less_divisor [of "nominal div 2 + 1" "unat (snd (next_u64 (cn_jitter c)))"] unfolding r_def by linarith
  moreover have "snd (backoff_delay_ms c) = nominal - nominal div 2 + r"
    unfolding backoff_delay_ms_def Let_def split_beta snd_conv backoff_nominal_exact [OF assms(1)] nominal_def r_def ..
  ultimately show ?thesis by linarith
qed

text \<open>C35. The backoff schedule is exact. Whatever the step counter and the jitter state, the delay
  lies between half the nominal, rounded up, and the nominal, and the nominal is the initial delay
  doubled once per step and capped: the saturating doubling and the early exit of the loop never
  show. It consumes one draw of the generator and changes nothing else.\<close>

theorem backoff_schedule_exact:
  assumes "cn_max_backoff_ms c \<le> u64_max"
  defines "nominal \<equiv> min (cn_max_backoff_ms c) (cn_initial_backoff_ms c * 2 ^ cn_backoff_step c)"
  shows "case backoff_delay_ms c of (c', delay) \<Rightarrow>
    (nominal + 1) div 2 \<le> delay \<and> delay \<le> nominal \<and> c' = c\<lparr>cn_jitter := fst (next_u64 (cn_jitter c))\<rparr>"
  using delay_bounds [OF assms(1)] unfolding nominal_def
  by (simp add: backoff_delay_ms_def split_beta Let_def)

theorem backoff_schedule_exact_witness:
  "15000 \<le> snd (backoff_delay_ms (example_connection\<lparr>cn_backoff_step := 9\<rparr>)) \<and>
   snd (backoff_delay_ms (example_connection\<lparr>cn_backoff_step := 9\<rparr>)) \<le> 30000"
  using backoff_schedule_exact [of "example_connection\<lparr>cn_backoff_step := 9\<rparr>"]
  by (simp add: example_connection_def u64_max_def split_beta)

text \<open>C22. A silent peer is noticed and redialed in bounded time. In every state but terminal and
  backoff, the timer firing at or after its deadline drops the transport, tells the embedder if it was
  attached, and schedules the retry at most the maximal backoff later; the timer firing at or after
  that opens a transport again. Before the deadline a tick changes nothing but re-arms it, so no
  attachment that is heard from in time is reaped.\<close>

theorem silent_peer_redialed:
  fixes parse :: "('u, 't) frame_parser"
  assumes "conn_wf c" "cn_state c \<notin> {Terminal, Backoff}"
  shows "if now < cn_deadline c
    then conn_on_input parse Tick now c = Ret (c, step_effects [SetWakeup (Some (cn_deadline c))])
    else \<exists>c' at. conn_on_input parse Tick now c =
           Ret (c', step_effects (CloseTransport # (if cn_state c = Active then [Emit (Detached LivenessTimeout)] else []) @
                                  [SetWakeup (Some at)])) \<and>
         at \<le> now + cn_max_backoff_ms c \<and>
         (\<forall>later. (later < at \<longrightarrow> conn_on_input parse Tick later c' = Ret (c', step_effects [SetWakeup (Some at)])) \<and>
            (at \<le> later \<longrightarrow> (\<exists>c'' deadline. conn_on_input parse Tick later c' =
               Ret (c'', step_effects [Connect (cn_url c), SetWakeup (Some deadline)]))))"
proof (cases "now < cn_deadline c")
  case True
  then show ?thesis using assms(2) by (cases "cn_state c") (simp_all add: conn_on_input_def on_tick_def)
next
  case False
  define e where "e = (enter_backoff now c :: connection \<times> 'u conn_effect list)"
  define at where "at = sat_add64 now (snd (backoff_delay_ms c))"
  have e: "snd e = [SetWakeup (Some at)]" "cn_state (fst e) = Backoff" "cn_deadline (fst e) = at" "cn_url (fst e) = cn_url c"
    by (simp_all add: e_def enter_backoff_eq at_def)
  have "snd (backoff_delay_ms c) \<le> cn_max_backoff_ms c" using delay_bounds [of c] assms(1) by (simp add: conn_wf_def)
  then have bound: "at \<le> now + cn_max_backoff_ms c" by (simp add: at_def sat_add64_def)
  have tick: "conn_on_input parse Tick now c = Ret (fst e, step_effects (CloseTransport #
      (if cn_state c = Active then [Emit (Detached LivenessTimeout)] else []) @ [SetWakeup (Some at)]))"
    using assms(2) False e(1)
    by (cases "cn_state c") (simp_all add: conn_on_input_def on_tick_def e_def [symmetric] split_beta Let_def)
  have early: "conn_on_input parse Tick later (fst e) = Ret (fst e, step_effects [SetWakeup (Some at)])" if "later < at" for later
    using that e by (simp add: conn_on_input_def on_tick_def)
  have due: "\<exists>c'' deadline. conn_on_input parse Tick later (fst e) =
      Ret (c'', step_effects [Connect (cn_url c), SetWakeup (Some deadline)])" if "at \<le> later" for later
    using that e by (auto simp: conn_on_input_def on_tick_def begin_connect_def Let_def)
  show ?thesis unfolding if_not_P [OF False] using tick bound early due by (intro exI [of _ "fst e"] exI [of _ at]) blast
qed

theorem silent_peer_redialed_witness:
  "conn_on_input example_parse Tick 9999 example_connection =
     Ret (example_connection, step_effects [SetWakeup (Some 10000)]) \<and>
   (\<exists>c' at. conn_on_input example_parse Tick 10000 example_connection =
      Ret (c', step_effects [CloseTransport, SetWakeup (Some at)]) \<and> at \<le> 40000)"
  using silent_peer_redialed [of example_connection 9999 example_parse]
    silent_peer_redialed [of example_connection 10000 example_parse]
  by (auto simp: conn_wf_def example_connection_def u64_max_def)

text \<open>The terminal state is not quite absorbing: every input is absorbed but a host fatal, which closes
  and reports once more.\<close>

lemma terminal_absorbs_all_but_host_fatal:
  "cn_state c = Terminal \<Longrightarrow>
     conn_on_input parse input now c =
       (case input of
          HostFatal detail \<Rightarrow> Ret (c, step_effects [CloseTransport, Emit (Fatal detail), SetWakeup None])
        | _ \<Rightarrow> Ret (c, step_none))"
  by (cases input) (simp_all add: conn_unfold)

end
