(* ===== verification/Outbox.thy ===== *)
theory Outbox
  imports Attach_Proto "HOL-Library.Sublist"
begin


section \<open>Single publishes\<close>

record publish_request =
  pr_channel :: string
  pr_attribution :: "string option"
  pr_body :: string
  pr_urgency :: urgency

definition publish_frame :: "publish_request \<Rightarrow> nat option \<Rightarrow> 'u client_frame" where
  "publish_frame req correlation =
     Publish (pr_channel req) (pr_attribution req) (pr_body req) (pr_urgency req) correlation"

record 'a pending_publishes =
  pp_pending :: "(nat \<times> 'a) list"

definition pending_new :: "'a pending_publishes" where
  "pending_new = \<lparr>pp_pending = []\<rparr>"

definition pending_send ::
  "nat \<Rightarrow> 'a \<Rightarrow> publish_request \<Rightarrow> 'a pending_publishes \<Rightarrow> ('a pending_publishes \<times> 'u client_frame) exec" where
  "pending_send correlation tag req p =
     (if map_of (pp_pending p) correlation \<noteq> None then Panic
      else Ret (p\<lparr>pp_pending := AList.update correlation tag (pp_pending p)\<rparr>, publish_frame req (Some correlation)))"

datatype result_error = NoCorrelation | UnknownCorrelation nat

definition pending_on_result ::
  "nat option \<Rightarrow> 'a pending_publishes \<Rightarrow> 'a pending_publishes \<times> (result_error + 'a)" where
  "pending_on_result correlation p =
     (case correlation of
        None \<Rightarrow> (p, Inl NoCorrelation)
      | Some c \<Rightarrow>
          (case map_of (pp_pending p) c of
             None \<Rightarrow> (p, Inl (UnknownCorrelation c))
           | Some tag \<Rightarrow> (p\<lparr>pp_pending := AList.delete c (pp_pending p)\<rparr>, Inr tag)))"

definition fail_all :: "'a pending_publishes \<Rightarrow> 'a pending_publishes \<times> (nat \<times> 'a) list" where
  "fail_all p = (p\<lparr>pp_pending := []\<rparr>, sort_key fst (pp_pending p))"

section \<open>Flushes, steps and outboxes\<close>

record 'u flush_batch =
  fb_entries :: "batch_entry list"
  fb_ops :: "'u batch_deferred_op list"


definition frame_bytes :: "(string \<Rightarrow> string) \<Rightarrow> ('u \<Rightarrow> string) \<Rightarrow> string option \<Rightarrow> 'u flush_batch \<Rightarrow> nat" where
  "frame_bytes quote show_uuid attribution batch =
     length (publish_batch_json quote show_uuid attribution u64_max (fb_entries batch) (fb_ops batch))"

datatype timer_change = Arm nat | Disarm

record ('k, 'u) outbox_steps =
  os_frames :: "'u client_frame list"
  os_dropped :: "'k list"
  os_retry_wakeup :: "timer_change option"


record discarded =
  di_flushes :: nat
  di_retry_wakeup :: "timer_change option"

record ('k, 'u) batch_answer =
  ba_steps :: "('k, 'u) outbox_steps"
  ba_registrant :: 'k
  ba_lost :: "'u flush_batch option"

record 'u outbox =
  ob_generation :: nat
  ob_attribution :: "string option"
  ob_depth :: nat
  ob_parked :: "'u flush_batch list"
  ob_in_flight :: "nat option"
  ob_dropped :: nat
  ob_discarded :: bool
  ob_rate_limited :: nat

record ('k, 'u) pending_batch =
  pb_key :: 'k
  pb_generation :: nat
  pb_batch :: "'u flush_batch"

record ('k, 'u) outboxes =
  ox_registrants :: "('k \<times> 'u outbox) list"
  ox_pending :: "(nat \<times> ('k, 'u) pending_batch) list"
  ox_next_correlation :: nat
  ox_next_generation :: nat
  ox_body_cap :: "nat option"
  ox_retry_armed :: bool


abbreviation registrant :: "('k, 'u) outboxes \<Rightarrow> 'k \<Rightarrow> 'u outbox option" where
  "registrant s \<equiv> map_of (ox_registrants s)"

abbreviation put_outbox :: "'k::linorder \<Rightarrow> 'u outbox \<Rightarrow> ('k, 'u) outboxes \<Rightarrow> ('k, 'u) outboxes" where
  "put_outbox key ob s \<equiv> s\<lparr>ox_registrants := bt_insert key ob (ox_registrants s)\<rparr>"

section \<open>The operations of the outboxes\<close>



definition is_registered :: "'k \<Rightarrow> ('k, 'u) outboxes \<Rightarrow> bool" where
  "is_registered key s \<longleftrightarrow> registrant s key \<noteq> None"



















definition registrant_keys :: "('k, 'u) outboxes \<Rightarrow> 'k list" where
  "registrant_keys s = map fst (ox_registrants s)"

definition parked_len :: "'k \<Rightarrow> ('k, 'u) outboxes \<Rightarrow> nat" where
  "parked_len key s = (case registrant s key of None \<Rightarrow> 0 | Some ob \<Rightarrow> length (ob_parked ob))"

definition dropped_count :: "'k \<Rightarrow> ('k, 'u) outboxes \<Rightarrow> nat" where
  "dropped_count key s = (case registrant s key of None \<Rightarrow> 0 | Some ob \<Rightarrow> ob_dropped ob)"

definition rate_limited_count :: "'k \<Rightarrow> ('k, 'u) outboxes \<Rightarrow> nat" where
  "rate_limited_count key s = (case registrant s key of None \<Rightarrow> 0 | Some ob \<Rightarrow> ob_rate_limited ob)"

section \<open>The mirror of the peer's parked sets\<close>

text \<open>Only looked up, replaced and cleared, so the order of the \<^verbatim>\<open>BTreeMap\<close> never shows.\<close>

record 'u deferred_views =
  dvs_views :: "((string \<times> string option) \<times> 'u deferred_view_entry list) list"

definition views_new :: "'u deferred_views" where
  "views_new = \<lparr>dvs_views = []\<rparr>"

definition views_on_view ::
  "string \<Rightarrow> string option \<Rightarrow> 'u deferred_view_entry list \<Rightarrow> 'u deferred_views \<Rightarrow> 'u deferred_views" where
  "views_on_view channel attribution entries v =
     v\<lparr>dvs_views := AList.update (channel, attribution) entries (dvs_views v)\<rparr>"

definition views_get :: "string \<Rightarrow> string option \<Rightarrow> 'u deferred_views \<Rightarrow> 'u deferred_view_entry list" where
  "views_get channel attribution v =
     (case map_of (dvs_views v) (channel, attribution) of None \<Rightarrow> [] | Some entries \<Rightarrow> entries)"

definition views_clear :: "'u deferred_views \<Rightarrow> 'u deferred_views" where
  "views_clear v = v\<lparr>dvs_views := []\<rparr>"

section \<open>Well-formed outboxes\<close>


text \<open>What a registrant is still owed: its flush on the wire, then its queue.\<close>

definition on_the_wire :: "('k, 'u) outboxes \<Rightarrow> 'u outbox \<Rightarrow> 'u flush_batch list" where
  "on_the_wire s ob =
     (case ob_in_flight ob of
        None \<Rightarrow> []
      | Some c \<Rightarrow> (case map_of (ox_pending s) c of None \<Rightarrow> [] | Some p \<Rightarrow> [pb_batch p]))"

definition owed :: "('k, 'u) outboxes \<Rightarrow> 'k \<Rightarrow> 'u flush_batch list" where
  "owed s key = (case registrant s key of None \<Rightarrow> [] | Some ob \<Rightarrow> on_the_wire s ob @ ob_parked ob)"

definition outbox_ok :: "('k, 'u) outboxes \<Rightarrow> 'k \<Rightarrow> 'u outbox \<Rightarrow> bool" where
  "outbox_ok s key ob \<longleftrightarrow>
     ob_generation ob < ox_next_generation s \<and> 0 < ob_depth ob \<and> length (ob_parked ob) \<le> ob_depth ob \<and>
     (\<forall>c. ob_in_flight ob = Some c \<longleftrightarrow>
        (\<exists>p. map_of (ox_pending s) c = Some p \<and> pb_key p = key \<and> pb_generation p = ob_generation ob))"

definition books_ok :: "('k::linorder, 'u) outboxes \<Rightarrow> bool" where
  "books_ok s \<longleftrightarrow>
     bt_ok (ox_registrants s) \<and> hm_ok (ox_pending s) \<and>
     (\<forall>c p. map_of (ox_pending s) c = Some p \<longrightarrow>
        c < ox_next_correlation s \<and> pb_generation p < ox_next_generation s) \<and>
     (\<forall>key ob. registrant s key = Some ob \<longrightarrow> outbox_ok s key ob)"





lemma bt_insert_twice [simp]: "bt_insert k v (bt_insert k w m) = bt_insert k v m"
  by (induction m) auto



lemma books_okD:
  assumes "books_ok s"
  shows "bt_ok (ox_registrants s)" "hm_ok (ox_pending s)"
    "map_of (ox_pending s) c = Some p \<Longrightarrow> c < ox_next_correlation s \<and> pb_generation p < ox_next_generation s"
    "registrant s key = Some ob \<Longrightarrow> outbox_ok s key ob"
  using assms by (auto simp: books_ok_def)



lemma on_the_wire_local [simp]:
  "on_the_wire (s\<lparr>ox_retry_armed := x\<rparr>) ob = on_the_wire s ob"
  "on_the_wire (s\<lparr>ox_registrants := r\<rparr>) ob = on_the_wire s ob"
  "on_the_wire (s\<lparr>ox_body_cap := cap\<rparr>) ob = on_the_wire s ob"
  "on_the_wire (s\<lparr>ox_next_generation := n\<rparr>) ob = on_the_wire s ob"
  by (auto simp: on_the_wire_def split: option.split)

lemma owed_armed [simp]: "owed (s\<lparr>ox_retry_armed := x\<rparr>) = owed s"
  by (auto simp: owed_def fun_eq_iff split: option.split)



section \<open>Sending a flush\<close>

definition launch :: "'k::linorder \<Rightarrow> 'u outbox \<Rightarrow> 'u flush_batch \<Rightarrow> ('k, 'u) outboxes \<Rightarrow> ('k, 'u) outboxes" where
  "launch key ob batch s =
     put_outbox key (ob\<lparr>ob_in_flight := Some (ox_next_correlation s)\<rparr>)
       (s\<lparr>ox_next_correlation := ox_next_correlation s + 1,
          ox_pending := AList.update (ox_next_correlation s)
            \<lparr>pb_key = key, pb_generation = ob_generation ob, pb_batch = batch\<rparr> (ox_pending s)\<rparr>)"


lemma launch_fields [simp]:
  "ox_body_cap (launch key ob batch s) = ox_body_cap s" "ox_retry_armed (launch key ob batch s) = ox_retry_armed s"
  "ox_next_generation (launch key ob batch s) = ox_next_generation s"
  "ox_next_correlation (launch key ob batch s) = ox_next_correlation s + 1"
  by (simp_all add: launch_def)







section \<open>A plane driven by its embedder, its peer and its clock\<close>

datatype ('k, 'u) outbox_input =
    Register 'k "string option" nat
  | Deregister 'k
  | Flush 'k "'u flush_batch" nat
  | Refuse 'k nat
  | Discard 'k nat
  | Attach nat nat "'k \<Rightarrow> 'u flush_batch \<Rightarrow> bool"
  | Detach
  | Answer nat publish_batch_outcome nat
  | RetryTick nat

datatype ('k, 'u) outbox_out =
    Done
  | Died "'u flush_batch list"
  | Threw discarded
  | Steps "('k, 'u) outbox_steps"
  | Settled "result_error + ('k, 'u) batch_answer"



text \<open>What one step means to a registrant: the flush it offers, the flush the peer applied, the drops
  reported, the flushes refused before they were queued, and those withdrawn without a drop report:
  thrown away by the embedder, or on the wire when the connection died.\<close>

fun offered_by :: "('k, 'u) outbox_input \<Rightarrow> 'k \<Rightarrow> 'u flush_batch list" where
  "offered_by (Flush key batch now) k = (if k = key then [batch] else [])"
| "offered_by _ k = []"

fun applied_by :: "('k, 'u) outboxes \<Rightarrow> ('k, 'u) outbox_input \<Rightarrow> 'k \<Rightarrow> 'u flush_batch list" where
  "applied_by s (Answer c BatchOk now) k =
     (case registrant s k of
        Some ob \<Rightarrow> if ob_in_flight ob = Some c then on_the_wire s ob else []
      | None \<Rightarrow> [])"
| "applied_by s _ k = []"

fun reports :: "('k, 'u) outbox_out \<Rightarrow> 'k list" where
  "reports (Steps steps) = os_dropped steps"
| "reports (Settled (Inr a)) = os_dropped (ba_steps a)"
| "reports _ = []"

fun refused_by :: "('k, 'u) outbox_input \<Rightarrow> 'k \<Rightarrow> nat" where
  "refused_by (Refuse key now) k = (if k = key then 1 else 0)"
| "refused_by _ k = 0"

fun withdrawn_by :: "('k, 'u) outboxes \<Rightarrow> ('k, 'u) outbox_input \<Rightarrow> ('k, 'u) outbox_out \<Rightarrow> 'k \<Rightarrow> nat" where
  "withdrawn_by s (Discard key now) (Threw d) k = (if k = key then di_flushes d else 0)"
| "withdrawn_by s Detach out k = (case registrant s k of Some ob \<Rightarrow> length (on_the_wire s ob) | None \<Rightarrow> 0)"
| "withdrawn_by s (Answer c BatchRateLimited now) (Settled (Inr a)) k =
     (case registrant s k of
        Some ob \<Rightarrow> if ob_in_flight ob = Some c \<and> ba_lost a \<noteq> None then 1 else 0
      | None \<Rightarrow> 0)"
| "withdrawn_by s _ _ k = 0"

definition evolves ::
  "('k, 'u) outboxes \<Rightarrow> ('k, 'u) outbox_input \<Rightarrow> ('k, 'u) outboxes \<Rightarrow> ('k, 'u) outbox_out \<Rightarrow> 'k \<Rightarrow> bool" where
  "evolves s i s' out k \<longleftrightarrow>
     (\<forall>ob'. registrant s' k = Some ob' \<longrightarrow>
        (\<exists>ob. registrant s k = Some ob \<and> ob_dropped ob' = ob_dropped ob + count_list (reports out) k) \<and>
        subseq (applied_by s i k @ owed s' k) (owed s k @ offered_by i k) \<and>
        length (owed s k) + length (offered_by i k) + refused_by i k =
          length (applied_by s i k) + length (owed s' k) + withdrawn_by s i out k + count_list (reports out) k)"



lemma count_list_replicate [simp]: "count_list (replicate n x) y = (if x = y then n else 0)"
  by (induction n) auto


lemma in_flight_wire:
  assumes "books_ok s" "registrant s key = Some ob" "ob_in_flight ob = Some c"
  obtains p where "map_of (ox_pending s) c = Some p" "pb_key p = key" "pb_generation p = ob_generation ob"
    "on_the_wire s ob = [pb_batch p]"
  using books_okD(4) [OF assms(1,2)] assms(3) by (auto simp: outbox_ok_def on_the_wire_def)

lemma evolves_armed [simp]: "evolves s i (s'\<lparr>ox_retry_armed := x\<rparr>) out k = evolves s i s' out k"
  by (simp add: evolves_def)






























section \<open>The ledger of a registration\<close>











section \<open>Properties\<close>














end
