(* ===== verification/Channel_Store.thy ===== *)
theory Channel_Store
  imports Ring_Core Subscriptions
begin

text \<open>
  Retention on the attacher's side (\<^verbatim>\<open>attach/client/src/store.rs\<close>): one channel core per channel with
  the drops the peer reported per reader, the window one activation is served from, and the
  collection of stores by address. A reader key and a message id are type variables; the epoch is an
  id. The lemmas follow one reader through any interleaving of operations: what it is shown, what it
  is told it lost and what it is still owed.
\<close>

section \<open>One store\<close>



record ('u, 't) served_window =
  sw_envelopes :: "('u, 't) message_envelope list"
  sw_new_from :: nat
  sw_dropped :: nat
  sw_counted :: nat

record ('u, 't, 'k) channel_store =
  cst_core :: "(('u, 't) message_envelope, 'u, 'k) ring_core"
  cst_server_drops :: "('k \<times> nat) list"

definition store_new :: "'u \<Rightarrow> nat \<Rightarrow> ('u, 't, 'k) channel_store" where
  "store_new epoch depth = \<lparr>cst_core = core_new epoch depth, cst_server_drops = []\<rparr>"

definition store_retune ::
  "nat \<Rightarrow> ('u, 't, 'k) channel_store \<Rightarrow> ('u, 't, 'k) channel_store \<times> 'k cursor_overflow list" where
  "store_retune depth s = (let (c, ov) = core_set_depth depth (cst_core s) in (s\<lparr>cst_core := c\<rparr>, ov))"

definition store_depth :: "('u, 't, 'k) channel_store \<Rightarrow> nat" where
  "store_depth s = rr_depth (rc_ring (cst_core s))"

definition store_epoch :: "('u, 't, 'k) channel_store \<Rightarrow> 'u" where
  "store_epoch s = rr_epoch (rc_ring (cst_core s))"




definition store_attach ::
  "'k \<Rightarrow> nat \<Rightarrow> ('u, 't, 'k) channel_store \<Rightarrow> ('u, 't, 'k) channel_store \<times> attached" where
  "store_attach reader push_depth s =
     (let (c, a) = core_attach reader push_depth (cst_core s) in (s\<lparr>cst_core := c\<rparr>, a))"

definition store_detach :: "'k \<Rightarrow> ('u, 't, 'k) channel_store \<Rightarrow> ('u, 't, 'k) channel_store" where
  "store_detach reader s =
     s\<lparr>cst_core := fst (core_detach reader (cst_core s)),
       cst_server_drops := AList.delete reader (cst_server_drops s)\<rparr>"

definition store_readers :: "('u, 't, 'k) channel_store \<Rightarrow> 'k list" where
  "store_readers s = map fst (rc_cursors (cst_core s))"

definition store_has_deliverable :: "'k \<Rightarrow> ('u, 't, 'k) channel_store \<Rightarrow> bool" where
  "store_has_deliverable reader s = core_has_deliverable reader (cst_core s)"

definition store_any_deliverable :: "('k \<Rightarrow> bool) \<Rightarrow> ('u, 't, 'k) channel_store \<Rightarrow> bool" where
  "store_any_deliverable names s =
     list_ex (\<lambda>(reader, cursor). names reader \<and> cursor_has_deliverable cursor (rc_ring (cst_core s)))
       (rc_cursors (cst_core s))"

definition peer_drops :: "'k \<Rightarrow> ('u, 't, 'k) channel_store \<Rightarrow> nat" where
  "peer_drops reader s = (case map_of (cst_server_drops s) reader of None \<Rightarrow> 0 | Some n \<Rightarrow> n)"

definition store_serve ::
  "'k \<Rightarrow> subscription_depths \<Rightarrow> ('u, 't, 'k) channel_store \<Rightarrow>
     (('u, 't, 'k) channel_store \<times> ('u, 't) served_window option) exec" where
  "store_serve reader depths s =
     (let (c, window) = core_window reader (sd_push_depth depths) (sd_retain_depth depths) (cst_core s)
      in case window of
           None \<Rightarrow> Ret (s\<lparr>cst_core := c\<rparr>, None)
         | Some w \<Rightarrow>
             exec_map (\<lambda>(c, advance).
                 let from_peer = peer_drops reader s
                 in (s\<lparr>cst_core := c, cst_server_drops := AList.delete reader (cst_server_drops s)\<rparr>,
                     Some \<lparr>sw_envelopes = map r_message (w_entries w), sw_new_from = w_new_from w,
                           sw_dropped = (case advance of None \<Rightarrow> 0 | Some a \<Rightarrow> adv_dropped a) + from_peer,
                           sw_counted = (case advance of None \<Rightarrow> 0 | Some a \<Rightarrow> adv_noise_charge a) + from_peer\<rparr>))
               (case window_advance_span w of
                  None \<Rightarrow> Ret (c, None)
                | Some (through, seen_floor) \<Rightarrow> core_advance reader through seen_floor c))"



definition store_retained :: "('u, 't, 'k) channel_store \<Rightarrow> (('u, 't) message_envelope \<times> nat) list" where
  "store_retained s = map (\<lambda>e. (r_message e, r_seq e)) (rr_entries (rc_ring (cst_core s)))"

definition store_park ::
  "string \<Rightarrow> ('u, 't) message_envelope \<Rightarrow> nat \<Rightarrow> ('u, 't, 'k) channel_store \<Rightarrow>
     ('u, 't, 'k) channel_store \<times> (nat + nat)" where
  "store_park sender envelope release_at s =
     (let (c, r) = core_park sender envelope release_at (cst_core s) in (s\<lparr>cst_core := c\<rparr>, r))"

definition store_next_release :: "('u, 't, 'k) channel_store \<Rightarrow> nat option" where
  "store_next_release s = core_next_release (cst_core s)"

definition store_release_due ::
  "nat \<Rightarrow> ('u, 't, 'k) channel_store \<Rightarrow>
     ('u, 't, 'k) channel_store \<times> (('u, 't) message_envelope, 'k) release_report" where
  "store_release_due now s =
     (let (c, report) = core_release_due now (cst_core s) in (s\<lparr>cst_core := c\<rparr>, report))"

definition store_deferred_for_sender ::
  "string \<Rightarrow> ('u, 't, 'k) channel_store \<Rightarrow> ('u, 't) message_envelope deferred list" where
  "store_deferred_for_sender sender s = core_deferred_for_sender sender (cst_core s)"

definition parked_senders :: "('u, 't, 'k) channel_store \<Rightarrow> string list" where
  "parked_senders s = map d_sender (core_deferred_at 0 (cst_core s))"

definition store_parked :: "('u, 't, 'k) channel_store \<Rightarrow> (('u, 't) message_envelope \<times> nat) list" where
  "store_parked s = map (\<lambda>e. (d_message e, d_release_at e)) (core_deferred_at 0 (cst_core s))"


section \<open>The collection of stores\<close>

record ('u, 't, 'k) channel_stores =
  chs_epoch :: 'u
  chs_stores :: "(string \<times> ('u, 't, 'k) channel_store) list"

definition stores_new :: "'u \<Rightarrow> ('u, 't, 'k) channel_stores" where
  "stores_new epoch = \<lparr>chs_epoch = epoch, chs_stores = []\<rparr>"

definition stores_ensure ::
  "string \<Rightarrow> nat \<Rightarrow> ('u, 't, 'k) channel_stores \<Rightarrow> ('u, 't, 'k) channel_stores \<times> 'k cursor_overflow list" where
  "stores_ensure channel depth ss =
     (let store = (case map_of (chs_stores ss) channel of Some s \<Rightarrow> s | None \<Rightarrow> store_new (chs_epoch ss) depth);
          (store', ov) = store_retune depth store
      in (ss\<lparr>chs_stores := bt_insert channel store' (chs_stores ss)\<rparr>, ov))"

definition stores_retain ::
  "(string \<Rightarrow> bool) \<Rightarrow> ('u, 't, 'k) channel_stores \<Rightarrow>
     ('u, 't, 'k) channel_stores \<times> (string \<times> ('u, 't, 'k) channel_store) list" where
  "stores_retain keep ss =
     (ss\<lparr>chs_stores := filter (\<lambda>(channel, _). keep channel) (chs_stores ss)\<rparr>,
      filter (\<lambda>(channel, _). \<not> keep channel) (chs_stores ss))"

definition stores_get :: "string \<Rightarrow> ('u, 't, 'k) channel_stores \<Rightarrow> ('u, 't, 'k) channel_store option" where
  "stores_get channel ss = map_of (chs_stores ss) channel"

definition stores_channels :: "('u, 't, 'k) channel_stores \<Rightarrow> string list" where
  "stores_channels ss = map fst (chs_stores ss)"

definition detach_matching :: "('k \<Rightarrow> bool) \<Rightarrow> ('u, 't, 'k) channel_stores \<Rightarrow> ('u, 't, 'k) channel_stores" where
  "detach_matching names ss =
     ss\<lparr>chs_stores := map (\<lambda>(channel, s). (channel, fold store_detach (filter names (store_readers s)) s)) (chs_stores ss)\<rparr>"

definition stores_any_deliverable :: "('k \<Rightarrow> bool) \<Rightarrow> ('u, 't, 'k) channel_stores \<Rightarrow> bool" where
  "stores_any_deliverable names ss = list_ex (\<lambda>(_, s). store_any_deliverable names s) (chs_stores ss)"

definition min_option :: "nat list \<Rightarrow> nat option" where
  "min_option xs = (case xs of [] \<Rightarrow> None | x # rest \<Rightarrow> Some (fold min rest x))"

definition stores_next_release :: "('u, 't, 'k) channel_stores \<Rightarrow> nat option" where
  "stores_next_release ss = min_option (List.map_filter (\<lambda>(_, s). store_next_release s) (chs_stores ss))"

definition due_at :: "nat \<Rightarrow> ('u, 't, 'k) channel_store \<Rightarrow> bool" where
  "due_at now s = (case store_next_release s of None \<Rightarrow> False | Some at \<Rightarrow> at \<le> now)"

definition stores_release_due ::
  "nat \<Rightarrow> ('u, 't, 'k) channel_stores \<Rightarrow>
     ('u, 't, 'k) channel_stores \<times> (string \<times> (('u, 't) message_envelope, 'k) release_report) list" where
  "stores_release_due now ss =
     (ss\<lparr>chs_stores := map (\<lambda>(channel, s). (channel, if due_at now s then fst (store_release_due now s) else s)) (chs_stores ss)\<rparr>,
      map (\<lambda>(channel, s). (channel, snd (store_release_due now s))) (filter (\<lambda>(_, s). due_at now s) (chs_stores ss)))"

section \<open>A store driven by its embedder\<close>





abbreviation cursor_at :: "'k \<Rightarrow> ('u, 't, 'k) channel_store \<Rightarrow> subscriber_cursor option" where
  "cursor_at k s \<equiv> map_of (rc_cursors (cst_core s)) k"


section \<open>The ledger of a reader\<close>








definition store_wf :: "('u, 't, 'k) channel_store \<Rightarrow> bool" where
  "store_wf s \<longleftrightarrow> core_wf (cst_core s) \<and> hm_ok (cst_server_drops s)"






lemma released_messages:
  assumes "core_wf c"
  shows "map r_message (rl_released (snd (core_release_due now c))) =
    map d_message (filter (\<lambda>e. d_release_at e \<le> now) (ds_entries (rc_deferred c)))"
  unfolding core_release_due_eq [OF assms] release_loop_released append_Nil
  by (rule numbered_zip(1)) simp


























section \<open>Properties\<close>


definition letter :: "nat \<Rightarrow> (nat, nat) message_envelope" where
  "letter i = \<lparr>me_message_id = i, me_source = ''s'', me_channel = ''c'', me_sender = ''p'', me_publish_ts = i, me_body = ''b'',
     me_reply_to = None, me_delivery_deadline = None, me_deliver_after = None, me_impetus = None, me_urgency = Normal, me_envelope_type = Ephemeral\<rparr>"






text \<open>A reader that gives up its position by re-attaching as sampled keeps its undrained peer losses, and
  its next window is reported against although a sampled reader "takes nothing".\<close>

lemma sampled_reader_reported_against:
  assumes "core_wf (cst_core s)" "map_of (cst_server_drops s) k = Some n"
  shows "\<exists>s' w. store_serve k \<lparr>sd_push_depth = 0, sd_retain_depth = q\<rparr> (fst (store_attach k 0 s)) = Ret (s', Some w) \<and>
    cursor_at k (fst (store_attach k 0 s)) = None \<and> sw_dropped w = n \<and> sw_counted w = n"
  using assms hm.get_del [OF core_wfD(3) [OF assms(1)]]
  by (simp add: store_attach_def core_attach_def store_serve_def core_window_def window_advance_span_def peer_drops_def Let_def
      split: option.split)

section \<open>The collection's timer\<close>

definition stores_wf :: "('u, 't, 'k) channel_stores \<Rightarrow> bool" where
  "stores_wf ss \<longleftrightarrow> bt_ok (chs_stores ss) \<and> list_all (\<lambda>(_, s). store_wf s) (chs_stores ss)"

definition due_messages :: "nat \<Rightarrow> ('u, 't, 'k) channel_store \<Rightarrow> ('u, 't) message_envelope list" where
  "due_messages now s = map d_message (filter (\<lambda>e. d_release_at e \<le> now) (ds_entries (rc_deferred (cst_core s))))"

lemma min_option_iff: "min_option xs = None \<longleftrightarrow> xs = []" "min_option xs = Some m \<Longrightarrow> m \<in> set xs \<and> (\<forall>x\<in>set xs. m \<le> x)"
proof -
  have "fold min ys y \<in> insert y (set ys) \<and> (\<forall>x\<in>insert y (set ys). fold min ys y \<le> x)" for ys and y :: nat
  proof (induction ys arbitrary: y)
    case (Cons z ys)
    from Cons.IH [of "min z y"] show ?case by (auto simp: min_def split: if_splits)
  qed simp
  then show "min_option xs = None \<longleftrightarrow> xs = []" "min_option xs = Some m \<Longrightarrow> m \<in> set xs \<and> (\<forall>x\<in>set xs. m \<le> x)"
    by (auto simp: min_option_def split: list.splits)
qed

lemma timer_past_iff:
  "(case stores_next_release ss of None \<Rightarrow> True | Some at \<Rightarrow> now < at) \<longleftrightarrow> (\<forall>(_, s)\<in>set (chs_stores ss). \<not> due_at now s)"
proof -
  let ?times = "List.map_filter (\<lambda>(_, s). store_next_release s) (chs_stores ss)"
  have "(\<forall>(_, s)\<in>set (chs_stores ss). \<not> due_at now s) \<longleftrightarrow> (\<forall>t\<in>set ?times. now < t)"
    by (force simp: due_at_def List.map_filter_def not_le split: option.splits)
  moreover have "(case min_option ?times of None \<Rightarrow> True | Some at \<Rightarrow> now < at) \<longleftrightarrow> (\<forall>t\<in>set ?times. now < t)"
    using min_option_iff [of ?times] by (cases "min_option ?times") (auto intro: less_le_trans)
  ultimately show ?thesis by (simp add: stores_next_release_def)
qed

lemma due_messages_iff: "store_wf s \<Longrightarrow> due_at now s \<longleftrightarrow> due_messages now s \<noteq> []"
  using parked.due_iff_deadline [of "rc_deferred (cst_core s)" now]
  by (auto simp: store_wf_def due_at_def due_messages_def store_next_release_def core_next_release_def deferred_release_due_eq
      core_wf_def split: option.splits)

lemma released_store:
  assumes "store_wf s"
  shows "store_wf (fst (store_release_due now s))" "\<not> due_at now (fst (store_release_due now s))"
    "map r_message (rl_released (snd (store_release_due now s))) = due_messages now s"
proof -
  have wf: "core_wf (cst_core s)" using assms by (simp add: store_wf_def)
  show w: "store_wf (fst (store_release_due now s))"
    using assms core_wf_release [OF wf] by (simp add: store_wf_def store_release_due_def split_beta)
  have "rc_deferred (fst (core_release_due now (cst_core s))) =
      (rc_deferred (cst_core s))\<lparr>ds_entries := filter (\<lambda>e. now < d_release_at e) (ds_entries (rc_deferred (cst_core s)))\<rparr>"
    unfolding core_release_due_eq [OF wf] release_loop_state by simp
  then have "due_messages now (fst (store_release_due now s)) = []"
    by (simp add: due_messages_def store_release_due_def split_beta filter_empty_conv)
  then show "\<not> due_at now (fst (store_release_due now s))" using due_messages_iff [OF w] by simp
  show "map r_message (rl_released (snd (store_release_due now s))) = due_messages now s"
    using released_messages [OF wf] by (simp add: due_messages_def store_release_due_def split_beta)
qed

text \<open>C36. The attachment's single release timer is exact across every channel: a pass at \<^verbatim>\<open>now\<close> reports,
  in address order, exactly the channels with something due, each with exactly its due messages in release
  order; it reports nothing if and only if the timer's deadline still lies ahead; and afterwards the next
  deadline, if any, lies strictly ahead, so re-arming cannot spin.\<close>

theorem stores_release_exact:
  assumes "stores_wf ss" "stores_release_due now ss = (ss', reports)"
  shows "map (\<lambda>(c, report). (c, map r_message (rl_released report))) reports =
      filter (\<lambda>(_, ms). ms \<noteq> []) (map (\<lambda>(c, s). (c, due_messages now s)) (chs_stores ss)) \<and>
    sorted_wrt (<) (map fst reports) \<and>
    (reports = [] \<longleftrightarrow> (case stores_next_release ss of None \<Rightarrow> True | Some at \<Rightarrow> now < at)) \<and>
    (case stores_next_release ss' of None \<Rightarrow> True | Some at \<Rightarrow> now < at) \<and>
    stores_wf ss'"
proof -
  let ?m = "chs_stores ss"
  have wf: "store_wf s" if "(c, s) \<in> set ?m" for c s using assms(1) that by (auto simp: stores_wf_def list_all_iff)
  have due: "due_at now s \<longleftrightarrow> due_messages now s \<noteq> []" if "(c, s) \<in> set ?m" for c s by (rule due_messages_iff [OF wf [OF that]])
  have ss': "chs_stores ss' = map (\<lambda>(c, s). (c, if due_at now s then fst (store_release_due now s) else s)) ?m"
    and r: "reports = map (\<lambda>(c, s). (c, snd (store_release_due now s))) (filter (\<lambda>(_, s). due_at now s) ?m)"
    using assms(2) by (auto simp: stores_release_due_def)
  have "filter (\<lambda>(_, ms). ms \<noteq> []) (map (\<lambda>(c, s). (c, due_messages now s)) ?m) =
      map (\<lambda>(c, s). (c, due_messages now s)) (filter (\<lambda>(_, s). due_at now s) ?m)"
    using due by (auto simp: filter_map comp_def split_beta intro!: arg_cong [where f = "map _"] filter_cong)
  also have "\<dots> = map (\<lambda>(c, report). (c, map r_message (rl_released report))) reports"
    using released_store(3) [OF wf] by (auto simp: r)
  finally have 1: "map (\<lambda>(c, report). (c, map r_message (rl_released report))) reports =
      filter (\<lambda>(_, ms). ms \<noteq> []) (map (\<lambda>(c, s). (c, due_messages now s)) ?m)" ..
  have keys: "map fst reports = map fst (filter (\<lambda>(_, s). due_at now s) ?m)" by (simp add: r comp_def split_beta)
  have "sorted_wrt (<) (map fst ?m)" using assms(1) by (simp add: stores_wf_def bt_ok_def strict_sorted_iff)
  then have 2: "sorted_wrt (<) (map fst reports)" unfolding keys sorted_wrt_map by (rule sorted_wrt_filter)
  have 3: "reports = [] \<longleftrightarrow> (case stores_next_release ss of None \<Rightarrow> True | Some at \<Rightarrow> now < at)"
    unfolding timer_past_iff by (auto simp: r filter_empty_conv)
  have 4: "case stores_next_release ss' of None \<Rightarrow> True | Some at \<Rightarrow> now < at"
    unfolding timer_past_iff using released_store(2) [OF wf] by (auto simp: ss' split: if_splits)
  have "map fst (chs_stores ss') = map fst ?m" by (simp add: ss' comp_def split_beta)
  moreover have "list_all (\<lambda>(_, s). store_wf s) (chs_stores ss')"
    using assms(1) released_store(1) [OF wf] by (auto simp: stores_wf_def list_all_iff ss')
  ultimately have "stores_wf ss'" using assms(1) by (simp only: stores_wf_def bt_ok_def)
  with 1 2 3 4 show ?thesis by blast
qed

definition two_channels :: "(nat, nat, nat) channel_stores" where
  "two_channels = \<lparr>chs_epoch = 0, chs_stores =
     [(''a'', fst (store_park ''p'' (letter 2) 9 (fst (store_park ''p'' (letter 1) 4 (store_new 0 5))))),
      (''b'', fst (store_park ''q'' (letter 3) 8 (store_new 0 5)))]\<rparr>"

lemma store_wf_park: "store_wf s \<Longrightarrow> store_wf (fst (store_park sender e at s))"
  by (auto simp: store_wf_def store_park_def core_park_def split_beta intro!: core_wf_deferred deferred_wf_park core_wfD(2))

lemma store_wf_new: "store_wf (store_new ep d)"
  by (simp add: store_wf_def store_new_def core_wf_new hm_ok_def)

lemma two_channels_wf: "stores_wf two_channels"
  by (simp add: stores_wf_def two_channels_def bt_ok_def store_wf_park store_wf_new)

theorem stores_release_exact_witness:
  "map (\<lambda>(c, report). (c, map r_message (rl_released report))) (snd (stores_release_due 5 two_channels)) = [(''a'', [letter 1])] \<and>
   stores_next_release two_channels = Some 4 \<and>
   (case stores_next_release (fst (stores_release_due 5 two_channels)) of None \<Rightarrow> True | Some at \<Rightarrow> 5 < at)"
proof -
  have d: "map (\<lambda>(c, s). (c, due_messages 5 s)) (chs_stores two_channels) = [(''a'', [letter 1]), (''b'', [])]"
    "stores_next_release two_channels = Some 4"
    by (simp_all add: two_channels_def due_messages_def stores_next_release_def store_next_release_def core_next_release_def
        deferred_next_release_def List.map_filter_def min_option_def store_park_def core_park_def deferred_park_def d_key_def Let_def
        store_new_def core_new_def deferred_new_def position_for_def insert_at_def partition_point_def)
  show ?thesis using stores_release_exact [OF two_channels_wf surjective_pairing, of 5] by (simp add: d)
qed

end
