(* ===== verification/Local_Router.thy ===== *)
theory Local_Router
  imports Channel_Store
begin

text \<open>
  The router of an attacher's confined channels, \<^verbatim>\<open>attach/client/src/router.rs\<close>, with the epoch reading of
  \<^verbatim>\<open>attach/client/src/transport/clock.rs\<close>. It mints every message of a channel that never crosses the
  wire, asks the embedder's plane policy for each of them, and keeps one release timer for all of them.

  The trait \<^verbatim>\<open>PlanePolicy\<close> is the record \<open>plane_policy\<close> of its three methods over a policy state, a
  parameter of the router. The stores are those of \<open>Channel_Store\<close>, passed to each call as in the source.
  The lemmas follow the router and the stores through any interleaving of calls.
\<close>

section \<open>Data\<close>












section \<open>Operations\<close>














section \<open>A router driven by its embedder\<close>














section \<open>Every message is lawful\<close>









section \<open>Every call keeps the plane\<close>





















section \<open>Properties\<close>











end
