(* ===== verification/Spec2Isabelle.thy ===== *)
theory Spec2Isabelle
  imports Publish_Plane Directory Access Ring_Core Budget_Gate Token_Bucket Subscriptions Connection Outbox Local_Router Ring_Store
begin

text \<open>
  Verification of the messaging kernel of brenn: what happens to a message between the process that
  publishes it and the process that reads it, on both ends of an attachment.

  \<^bold>\<open>The program.\<close> brenn is a bus of named channels. A \<^emph>\<open>host\<close> (the server, a browser surface, a native daemon)
  runs components in activations. A channel that is not durable is the same mechanism on every host,
  \<^verbatim>\<open>brenn-queue\<close>: a bounded ring that drops its oldest message, one cursor per subscriber, and a set
  of messages parked until a release time. What an activation may publish is metered by \<^verbatim>\<open>brenn-budget\<close>.
  A host that is not the server reaches the server's channels over one WebSocket, the \<^emph>\<open>attachment\<close>: \<^verbatim>\<open>attach/proto\<close>
  is its protocol, \<^verbatim>\<open>attach/client\<close> its state machines on the attaching side, \<^verbatim>\<open>attach/server\<close> the session
  on the serving side. The session answers out of the channel directory and the retention stores, under
  the access policy of the attacher, and sends the attacher each subscribed channel's messages with resume
  cursors it can come back with.

  \<^bold>\<open>Theories.\<close> Each models the named sources, one definition per function, in the order of the code.

  The queue.
  \<^item> \<open>Ring\<close>, \<open>Cursor\<close>, \<open>Deferred\<close>, \<open>Ring_Core\<close>: \<^verbatim>\<open>brenn-queue/src/{ring,cursor,deferred,store}.rs\<close>. A ring of any run
    of appends and depth changes is the numbered history of everything appended, of which it holds a suffix; a
    replay decision is honest about what a resuming reader missed; a window shows exactly the newest unseen
    messages and an advance accounts for every owed message exactly once; the deferred set refines a finite
    map; eviction reports and charges together are what a subscriber lost.
  \<^item> \<open>Ring_Store\<close>: the server's store of a non-durable channel (\<^verbatim>\<open>brenn-messaging-store/src/store/{ring,mod}.rs\<close>),
    with the \<^verbatim>\<open>Depth\<close> algebra of \<^verbatim>\<open>brenn-lib/src/messaging/config.rs\<close>. No lawful sequence of calls panics,
    and the single backward walk that summarises who must wake is exact.

  Addresses, identities and policy.
  \<^item> \<open>Envelope\<close>: \<^verbatim>\<open>brenn-envelope/src/{lib,addressing}.rs\<close>; \<open>Grants\<close>: \<^verbatim>\<open>brenn-envelope/src/grants.rs\<close>; \<open>Identity\<close>:
    \<^verbatim>\<open>brenn-lib/src/messaging/identity.rs\<close>. Identities are classified back to what they were made from
    and attach scopes never overlap.
  \<^item> \<open>Access\<close>: \<^verbatim>\<open>brenn-lib/src/access/{mod,acl,mqtt_match}.rs\<close>, \<^verbatim>\<open>brenn-lib/src/mqtt/address.rs\<close> and
    \<^verbatim>\<open>brenn-lib/src/messaging/gates.rs\<close>. The topic-filter subset test is language inclusion on validated
    filters, one pair apart; channel access needs both a capability and a covering matcher.
  \<^item> \<open>Directory\<close>: \<^verbatim>\<open>brenn-lib/src/messaging/directory.rs\<close>. Two maps and an order vector simulate one list.

  Metering.
  \<^item> \<open>Budget_Gate\<close>: \<^verbatim>\<open>brenn-budget/src/{lib,gate,refusal}.rs\<close>; \<open>Token_Bucket\<close>: \<^verbatim>\<open>brenn-lib/src/token_bucket.rs\<close>. Exact
    books of an activation, and bounds on the long-run rate of a sink and of a bucket.

  The attachment, on the attaching side.
  \<^item> \<open>Attach_Proto\<close>: \<^verbatim>\<open>attach/proto/src/lib.rs\<close>. The JSON text of a lawful batch fits the frame cap.
  \<^item> \<open>Connection\<close>: \<^verbatim>\<open>attach/client/src/conn.rs\<close>. Transport, timer and attachment agree with the machine's state
    over any session; a silent peer is redialed in bounded time.
  \<^item> \<open>Subscriptions\<close>: \<^verbatim>\<open>attach/client/src/subs.rs\<close>. The plane sends only frames the peer's automaton allows.
  \<^item> \<open>Outbox\<close>: \<^verbatim>\<open>attach/client/src/publish.rs\<close>. Flushes are applied in order and at most once, and each is applied,
    owed, reported dropped or withdrawn.
  \<^item> \<open>Channel_Store\<close>, \<open>Local_Router\<close>: \<^verbatim>\<open>attach/client/src/{store,router}.rs\<close> and the epoch reading of
    \<^verbatim>\<open>transport/clock.rs\<close>. What a reader is shown, told it lost and still owed add up.

  The attachment, on the serving side.
  \<^item> \<open>Attach_Session\<close>: \<^verbatim>\<open>attach/server/src/{cursor,profile,subscription}.rs\<close> and the session's state;
    \<open>Attach_Publish\<close>: \<^verbatim>\<open>attach/server/src/publish.rs\<close>, alerts and the dispatch of a frame; \<open>Attach_Server\<close>: the
    handshake of \<^verbatim>\<open>socket.rs\<close> and the opening and the read loop of \<^verbatim>\<open>session.rs\<close>.
  \<^item> \<open>Session_Books\<close>: what every handler relies on and keeps.
  \<^item> \<open>Delivery\<close>: from the upgrade on, over any interleaving of a session's events with changes to the world around
    it, no run panics as long as active channels stay provisioned, and on each subscription the delivered rows are
    numbered without a hole, genuine, and account for every position since it started; the client's
    \<open>Subscriptions\<close> accept every such pass; a nudge catches every channel up.
  \<^item> \<open>Publish_Plane\<close>: only admitted, writable addresses reach the bus, and a batch that the \<open>Budget_Gate\<close> of an
    activation and the law of \<open>Attach_Proto\<close> let through is never answered with a violation.

  \<^bold>\<open>How the code is modelled.\<close> A struct is a record, an enum a datatype, a method a function of the record that returns it
  updated. A panic, a failed assertion or a failed \<^verbatim>\<open>expect\<close> is the value \<open>Panic\<close>; that code does not panic is
  proved. A \<^verbatim>\<open>Result\<close> is a sum, a \<^verbatim>\<open>HashMap\<close> an association list with distinct keys, a \<^verbatim>\<open>BTreeMap\<close> one in key order.
  A string is the list of its UTF-8 bytes. Counters that grow by one per operation are natural numbers;
  where the source saturates, wraps or casts, the width is written out, and the jitter generator of
  \<open>Connection\<close> works on 64-bit words. A lock makes an operation atomic: the operation is a function of the state.
  An async handler runs alone between two events of its loop: one event is one step, and everything other tasks
  do in between is a step of the world.

  \<^bold>\<open>Loops and fuel.\<close> No definition takes fuel. A loop is a structural recursion, or a recursion with a
  termination measure, except the two matching loops of \<open>Access\<close>, which are partial functions with
  \<^verbatim>\<open>None\<close> for a run that does not return; that they return on every input is a property of its own.

  \<^bold>\<open>Interfaces.\<close> \<open>keyed_table\<close> (both map types), \<open>invariant_system\<close>, \<open>total_system\<close> and \<open>contract_system\<close> (a component
  driven by a sequence of inputs, with what its driver owes it) and \<open>simulation\<close> (a component against a simpler
  specification) are in \<open>Prelude\<close>; \<open>retained_log\<close> is what a cursor asks of a ring, \<open>release_queue\<close> what a channel
  asks of its parked set, \<open>vocabulary\<close> what a grant table is. Each is interpreted on the model's own definitions in the
  theory that provides them, and the properties over whole runs are its conclusions.

  \<^bold>\<open>Parameters.\<close> Third-party code is an argument with its documented behaviour as a named hypothesis: serde's parser and
  printer (\<open>json_ok\<close>, \<open>json_quote_ok\<close>), chrono's conversions (\<open>chrono_ok\<close>), UUIDs and their text (\<open>uuid_text_ok\<close>),
  clock readings. Of this repository, the attach profile and the plane policy are traits and
  enter as records of functions; the bus behind a session answers the calls it is given through a
  record whose promises are \<open>bus_ok\<close>; a session's retention stores promise \<open>honest_store\<close>, which a ring store is shown
  to keep. Every property with hypotheses is followed by an instance where they hold.

  \<^bold>\<open>Not modelled.\<close> The durable stores and everything else that is a database table; the bus pipeline of
  \<^verbatim>\<open>brenn-messaging\<close>; the session registry and the tasks that move bytes between sockets and these state
  machines; resolution of configuration into the policies and profiles the model starts from; the WebAssembly
  host and the browser surface; the transports other than the attachment; logging. They are I/O, or are reached
  only through the interfaces above. Freedom from data races is Rust's.
\<close>

end
